(* ===== verification/Prelude.thy ===== *)
theory Prelude
  imports Main "HOL-Library.Word" "HOL-Library.Char_ord"
begin

text \<open>
  The vocabulary of the development: machine integers of an LP64 host, the outcome of a C
  function that may exit or run into undefined behaviour, sequencing of such functions, and
  the list and word lemmas the components share.
\<close>

subsection \<open>Machine integers and characters\<close>

type_synonym size_t = "64 word"
type_synonym byte = "8 word"

text \<open>Characters of the source language are C \<open>char\<close>s, that is bytes.\<close>

abbreviation NUL :: char where "NUL \<equiv> CHR 0x00"
abbreviation newline :: char where "newline \<equiv> CHR 0x0A"
abbreviation quote :: char where "quote \<equiv> CHR 0x22"

subsection \<open>Outcomes\<close>

text \<open>
  A fault is any way in which a call does not come back: \<open>Exit msg\<close> is \<open>exit(1)\<close> after
  \<open>msg\<close> went to the standard error stream; \<open>OutOfFuel\<close> is a recursion bound that was too
  small; the others are undefined behaviours of C.
\<close>

datatype fault =
    Exit string
  | NullDeref
  | NullCall
  | OutOfBounds
  | Indeterminate
  | BadFree
  | OutOfFuel

type_synonym 'a result = "fault + 'a"

definition res_bind :: "'a result \<Rightarrow> ('a \<Rightarrow> 'b result) \<Rightarrow> 'b result" where
  "res_bind m f = (case m of Inl e \<Rightarrow> Inl e | Inr x \<Rightarrow> f x)"

lemma res_bind_simps [simp]:
  "res_bind (Inl e) f = Inl e"
  "res_bind (Inr x) f = f x"
  by (simp_all add: res_bind_def)

lemma res_bind_cong [fundef_cong]:
  "m = m' \<Longrightarrow> (\<And>x. m' = Inr x \<Longrightarrow> f x = f' x) \<Longrightarrow> res_bind m f = res_bind m' f'"
  by (cases m') auto

lemma res_bind_eq_Inr:
  "res_bind m f = Inr y \<longleftrightarrow> (\<exists>x. m = Inr x \<and> f x = Inr y)"
  by (cases m) auto

lemma res_bind_eq_Inl:
  "res_bind m f = Inl e \<longleftrightarrow> m = Inl e \<or> (\<exists>x. m = Inr x \<and> f x = Inl e)"
  by (cases m) auto

lemma res_bind_assoc: "res_bind (res_bind m f) g = res_bind m (\<lambda>x. res_bind (f x) g)"
  by (cases m) auto

lemma res_bind_return [simp]: "res_bind m Inr = m"
  by (cases m) auto

lemma res_bindE:
  assumes "res_bind m f = Inr y"
  obtains x where "m = Inr x" and "f x = Inr y"
  using assms by (auto simp: res_bind_eq_Inr)

text \<open>\<open>the_ok r\<close> is the value of a run that is known to return.\<close>

fun the_ok :: "'a result \<Rightarrow> 'a" where
  "the_ok (Inr x) = x"
| "the_ok (Inl e) = undefined"

text \<open>Running an operation over a list of arguments, stopping at the first fault.\<close>

fun res_fold :: "('x \<Rightarrow> 's \<Rightarrow> 's result) \<Rightarrow> 'x list \<Rightarrow> 's \<Rightarrow> 's result" where
  "res_fold f [] s = Inr s"
| "res_fold f (x # xs) s = res_bind (f x s) (res_fold f xs)"

lemma res_fold_Nil [simp]: "res_fold f [] = Inr"
  by (rule ext) simp

lemma res_fold_append:
  "res_fold f (xs @ ys) s = res_bind (res_fold f xs s) (res_fold f ys)"
  by (induction xs arbitrary: s) (auto simp: res_bind_assoc intro!: res_bind_cong)

subsection \<open>Collections of facts\<close>

named_theorems eval \<open>equations that evaluate closed terms by rewriting\<close>

subsection \<open>Lists\<close>

text \<open>The readable part of a partly initialised block.\<close>

definition resize :: "nat \<Rightarrow> 'a option list \<Rightarrow> 'a option list" where
  "resize n cs = take n cs @ replicate (n - length cs) None"

lemma length_resize [simp]: "length (resize n cs) = n"
  by (simp add: resize_def)

lemma take_resize: "k \<le> length cs \<Longrightarrow> k \<le> n \<Longrightarrow> take k (resize n cs) = take k cs"
  by (simp add: resize_def)

lemma take_Suc_update:
  "n < length xs \<Longrightarrow> take (Suc n) (xs[n := x]) = take n xs @ [x]"
  by (simp add: take_Suc_conv_app_nth)

lemma takeWhile_drop_hd:
  "takeWhile P xs = xs \<or> \<not> P (hd (dropWhile P xs))"
  by (induction xs) auto

subsection \<open>Words as sizes\<close>

lemma unat_size_less: "unat (n :: size_t) < 18446744073709551616"
proof -
  have "unat n < 2 ^ LENGTH(64)" by (rule unsigned_less)
  then show ?thesis by simp
qed

lemma unat_byte_less: "unat (b :: byte) < 256"
proof -
  have "unat b < 2 ^ LENGTH(8)" by (rule unsigned_less)
  then show ?thesis by simp
qed

lemma unat_Suc_size: "unat (n :: size_t) < 2 ^ 64 - 1 \<Longrightarrow> unat (n + 1) = Suc (unat n)"
  by (simp add: unat_word_ariths)

lemma unat_size_add:
  "unat (a :: size_t) + unat b < 2 ^ 64 \<Longrightarrow> unat (a + b) = unat a + unat b"
  by (simp add: unat_word_ariths)

lemma unat_size_mult:
  "unat (a :: size_t) * unat b < 2 ^ 64 \<Longrightarrow> unat (a * b) = unat a * unat b"
  by (simp add: unat_word_ariths)

lemma unat_size_of_nat: "n < 2 ^ 64 \<Longrightarrow> unat (word_of_nat n :: size_t) = n"
  by (simp add: unat_of_nat)

lemma three_bytes: "n mod 256 + 256 * (n div 256 mod 256) + 65536 * (n div 65536) = (n :: nat)"
proof -
  define r m e where "r = n mod 256" and "m = n div 256 mod 256" and "e = n div 65536"
  have "e = n div 256 div 256" by (simp add: e_def div_mult2_eq [symmetric])
  then have "n div 256 = m + 256 * e" by (simp add: m_def)
  moreover have "n = r + 256 * (n div 256)" by (simp add: r_def)
  ultimately have "n = r + 256 * m + 65536 * e" by linarith
  then show ?thesis by (simp add: r_def m_def e_def)
qed

lemma word_of_nat_of_unat: "unat (n :: size_t) = k \<Longrightarrow> n = word_of_nat k"
  by auto

lemma ucast_of_unat: "unat x = n \<Longrightarrow> ucast x = (word_of_nat n :: size_t)"
  by (hypsubst, rule of_nat_unat [symmetric])

lemma size_less_Suc_iff:
  "unat n < 2 ^ 64 - 1 \<Longrightarrow> (c :: size_t) < n + 1 \<longleftrightarrow> unat c \<le> unat n"
  by (simp add: word_less_nat_alt unat_Suc_size less_Suc_eq_le)

end
