(* ===== verification/Memory.thy ===== *)
theory Memory
  imports Prelude "HOL-Library.Multiset"
begin

text \<open>
  \<^verbatim>\<open>skard-lib/src/utils.c\<close>, \<^verbatim>\<open>utils.h\<close> and \<^verbatim>\<open>error.c\<close>: allocation on top of
  \<open>malloc\<close>, \<open>realloc\<close> and \<open>free\<close>, array growth, reading a file, and the functions that
  report a fatal error and exit.
\<close>

subsection \<open>error.c\<close>

text \<open>Each function prints its message to the standard error stream and exits.\<close>

definition error_not_enough_memory :: fault where
  "error_not_enough_memory = Exit (''Not enough memory'' @ [newline])"

definition error_too_many_constants_in_chunk :: fault where
  "error_too_many_constants_in_chunk = Exit (''Too many constants in one chunk'' @ [newline])"

definition error_could_not_open_file :: "string \<Rightarrow> fault" where
  "error_could_not_open_file filename =
     Exit (''Could not open file '' @ [quote] @ filename @ [quote, newline])"

definition error_not_enough_memory_to_read :: "string \<Rightarrow> fault" where
  "error_not_enough_memory_to_read filename =
     Exit (''Not enough memory to read file '' @ [quote] @ filename @ [quote, newline])"

definition error_could_not_read :: "string \<Rightarrow> fault" where
  "error_could_not_read filename =
     Exit (''Could not read file '' @ [quote] @ filename @ [quote, newline])"

subsection \<open>The C heap\<close>

text \<open>
  \<open>host_grants n s\<close> is the host's answer to the \<open>n\<close>-th request of a run when it asks for
  \<open>s\<close> bytes, so every pattern of allocation failures is some host. \<open>live\<close> lists the
  addresses of the blocks that are allocated. Addresses are positive and never reused; \<open>0\<close>
  stands for the null pointer.
\<close>

record heap =
  host_grants :: "nat \<Rightarrow> nat \<Rightarrow> bool"
  requests :: nat
  live :: "nat list"

text \<open>
  A pointer to a block of equally sized cells together with the cells; \<open>None\<close> is a cell
  that was never written.
\<close>

datatype 'a buffer = Null | Block (block_addr: nat) (block_cells: "'a option list")

fun cells :: "'a buffer \<Rightarrow> 'a option list" where
  "cells Null = []"
| "cells (Block a cs) = cs"

fun addrs :: "'a buffer \<Rightarrow> nat multiset" where
  "addrs Null = {#}"
| "addrs (Block a cs) = {#a#}"

text \<open>
  Standard library: \<open>malloc\<close>, \<open>free\<close> of a non-null pointer, and \<open>realloc\<close> to a non-zero
  size. Giving back a block that is not live is the fault \<open>BadFree\<close>.
\<close>

definition c_malloc :: "size_t \<Rightarrow> heap \<Rightarrow> nat \<times> heap" where
  "c_malloc n h =
     (let h' = h\<lparr>requests := Suc (requests h)\<rparr>
      in if host_grants h (requests h) (unat n)
         then (Suc (requests h), h'\<lparr>live := Suc (requests h) # live h'\<rparr>)
         else (0, h'))"

definition c_free :: "nat \<Rightarrow> heap \<Rightarrow> heap result" where
  "c_free a h =
     (if a \<in> set (live h) then Inr (h\<lparr>live := remove1 a (live h)\<rparr>) else Inl BadFree)"

definition c_realloc :: "nat \<Rightarrow> 'a buffer \<Rightarrow> size_t \<Rightarrow> heap \<Rightarrow> ('a buffer \<times> heap) result" where
  "c_realloc esz p n h =
     (case p of
        Null \<Rightarrow>
          (case c_malloc n h of (a, h') \<Rightarrow>
             Inr (if a = 0 then Null else Block a (resize (unat n div esz) []), h'))
      | Block b cs \<Rightarrow>
          if b \<notin> set (live h) then Inl BadFree
          else (case c_malloc n h of (a, h') \<Rightarrow>
             if a = 0 then Inr (Null, h')
             else Inr (Block a (resize (unat n div esz) cs),
                       h'\<lparr>live := remove1 b (live h')\<rparr>)))"

text \<open>Access through a pointer to a block.\<close>

definition buffer_read :: "'a buffer \<Rightarrow> nat \<Rightarrow> 'a result" where
  "buffer_read p i =
     (case p of Null \<Rightarrow> Inl NullDeref
      | Block a cs \<Rightarrow>
          if i < length cs
          then (case cs ! i of None \<Rightarrow> Inl Indeterminate | Some x \<Rightarrow> Inr x)
          else Inl OutOfBounds)"

definition buffer_write :: "'a buffer \<Rightarrow> nat \<Rightarrow> 'a \<Rightarrow> 'a buffer result" where
  "buffer_write p i x =
     (case p of Null \<Rightarrow> Inl NullDeref
      | Block a cs \<Rightarrow>
          if i < length cs then Inr (Block a (cs[i := Some x])) else Inl OutOfBounds)"

subsection \<open>utils.c\<close>

definition reallocate :: "nat \<Rightarrow> 'a buffer \<Rightarrow> size_t \<Rightarrow> heap \<Rightarrow> ('a buffer \<times> heap) result" where
  "reallocate esz pointer new_size h =
     (if new_size = 0
      then (case pointer of
              Null \<Rightarrow> Inr (Null, h)
            | Block a cs \<Rightarrow> res_bind (c_free a h) (\<lambda>h'. Inr (Null, h')))
      else res_bind (c_realloc esz pointer new_size h) (\<lambda>(result, h').
             if result = Null then Inl error_not_enough_memory else Inr (result, h')))"

definition allocate :: "size_t \<Rightarrow> heap \<Rightarrow> (nat \<times> heap) result" where
  "allocate new_size h =
     (case c_malloc new_size h of (result, h') \<Rightarrow>
        if result = 0 then Inl error_not_enough_memory else Inr (result, h'))"

definition grow_capacity :: "size_t \<Rightarrow> size_t" where
  "grow_capacity capacity = (if capacity < 8 then 8 else capacity * 2)"

definition grow_array :: "nat \<Rightarrow> 'a buffer \<Rightarrow> size_t \<Rightarrow> heap \<Rightarrow> ('a buffer \<times> heap) result" where
  "grow_array esz pointer new_capacity h =
     reallocate esz pointer (word_of_nat esz * new_capacity) h"

definition free_array :: "nat \<Rightarrow> 'a buffer \<Rightarrow> heap \<Rightarrow> ('a buffer \<times> heap) result" where
  "free_array esz pointer h = reallocate esz pointer 0 h"

subsection \<open>Reading a file\<close>

text \<open>
  What the host's file system answers for a file that can be opened: \<open>file_tell\<close> is the
  result of \<open>ftell\<close> at the end of the file, converted to \<open>size_t\<close>, and \<open>file_data\<close> the
  bytes \<open>fread\<close> delivers.
\<close>

record host_file =
  file_tell :: size_t
  file_data :: string

type_synonym file_system = "string \<Rightarrow> host_file option"

definition read_file :: "file_system \<Rightarrow> string \<Rightarrow> heap \<Rightarrow> (char buffer \<times> heap) result" where
  "read_file fs filename h =
     (case fs filename of
        None \<Rightarrow> Inl (error_could_not_open_file filename)
      | Some file \<Rightarrow>
          let file_size = file_tell file in
          case c_malloc (file_size + 1) h of (a, h') \<Rightarrow>
            if a = 0 then Inl (error_not_enough_memory_to_read filename)
            else
              let got = take (unat file_size) (file_data file); read_bytes = length got in
              if unat (file_size + 1) < read_bytes then Inl OutOfBounds
              else if read_bytes < unat file_size then Inl (error_could_not_read filename)
              else res_bind
                (buffer_write (Block a (resize (unat (file_size + 1)) (map Some got)))
                   read_bytes NUL)
                (\<lambda>buffer. Inr (buffer, h')))"

subsection \<open>Growable arrays\<close>

text \<open>
  A host is sane when it never hands out a block of \<open>2 ^ 63\<close> bytes or more, the documented
  behaviour of \<open>malloc\<close> and \<open>realloc\<close> (a block larger than \<open>PTRDIFF_MAX\<close> is refused), and
  generous when it never refuses a smaller one.
\<close>

definition sane :: "heap \<Rightarrow> bool" where
  "sane h \<longleftrightarrow> (\<forall>n s. host_grants h n s \<longrightarrow> s < 2 ^ 63)"

definition generous :: "heap \<Rightarrow> bool" where
  "generous h \<longleftrightarrow> (\<forall>n s. s < 2 ^ 63 \<longrightarrow> host_grants h n s)"

lemma generousD: "generous h \<Longrightarrow> \<not> host_grants h n s \<Longrightarrow> 2 ^ 63 \<le> s"
  by (meson generous_def not_less)

definition generous_heap :: heap where
  "generous_heap = \<lparr>host_grants = (\<lambda>n s. s < 2 ^ 63), requests = 0, live = []\<rparr>"

lemma generous_heap [simp]: "sane generous_heap" "generous generous_heap"
  "live generous_heap = []"
  by (auto simp: sane_def generous_def generous_heap_def)

text \<open>
  The triple of \<open>count\<close>, \<open>capacity\<close> and pointer every growable array of the program keeps,
  and the list it stands for. Capacities are at most doubled, so they stay within twice the
  number of elements (and 8).
\<close>

definition array_ok :: "nat \<Rightarrow> size_t \<Rightarrow> size_t \<Rightarrow> 'a buffer \<Rightarrow> bool" where
  "array_ok esz cap cnt p \<longleftrightarrow>
     length (cells p) = unat cap \<and> unat cnt \<le> unat cap \<and>
     unat cap \<le> 2 * unat cnt + 8 \<and> esz * unat cap < 2 ^ 63 \<and>
     (\<forall>i < unat cnt. cells p ! i \<noteq> None)"

definition array_elems :: "size_t \<Rightarrow> 'a buffer \<Rightarrow> 'a list" where
  "array_elems cnt p = map the (take (unat cnt) (cells p))"

text \<open>Reading and writing a block whose first \<open>n\<close> cells are initialised.\<close>

definition filled :: "nat \<Rightarrow> 'a buffer \<Rightarrow> bool" where
  "filled n p \<longleftrightarrow> n \<le> length (cells p) \<and> (\<forall>i < n. cells p ! i \<noteq> None)"

definition first_elems :: "nat \<Rightarrow> 'a buffer \<Rightarrow> 'a list" where
  "first_elems n p = map the (take n (cells p))"

lemma array_elems_first: "array_elems cnt p = first_elems (unat cnt) p"
  by (simp add: array_elems_def first_elems_def)

lemma array_ok_filled: "array_ok esz cap cnt p \<Longrightarrow> filled (unat cnt) p"
  by (simp add: array_ok_def filled_def)

lemma length_first_elems [simp]: "filled n p \<Longrightarrow> length (first_elems n p) = n"
  by (simp add: filled_def first_elems_def)

lemma buffer_read_filled:
  "filled n p \<Longrightarrow> i < n \<Longrightarrow> buffer_read p i = Inr (first_elems n p ! i)"
  by (cases p) (auto simp: filled_def first_elems_def buffer_read_def)

lemma buffer_write_filled:
  assumes "filled n p" and "i < n"
  obtains p' where "buffer_write p i x = Inr p'" and "filled n p'"
    and "first_elems n p' = (first_elems n p)[i := x]"
    and "length (cells p') = length (cells p)" and "addrs p' = addrs p"
  using assms
  by (cases p) (auto simp: filled_def first_elems_def buffer_write_def nth_list_update
      take_update_swap map_update)

lemma buffer_write_next:
  assumes "filled n p" and "n < length (cells p)"
  obtains p' where "buffer_write p n x = Inr p'" and "filled (Suc n) p'"
    and "first_elems (Suc n) p' = first_elems n p @ [x]"
    and "length (cells p') = length (cells p)" and "addrs p' = addrs p"
  using assms
  by (cases p) (auto simp: filled_def first_elems_def buffer_write_def nth_list_update
      take_Suc_update less_Suc_eq)

lemma filled_resize:
  "filled n p \<Longrightarrow> n \<le> m \<Longrightarrow> filled n (Block a (resize m (cells p)))"
  by (auto simp: filled_def resize_def nth_append)

lemma first_elems_resize:
  "filled n p \<Longrightarrow> n \<le> m \<Longrightarrow> first_elems n (Block a (resize m (cells p))) = first_elems n p"
  by (simp add: filled_def first_elems_def take_resize)

text \<open>The statements that append to such an array, shared by every \<open>_add\<close> function.\<close>

definition array_push ::
  "nat \<Rightarrow> 'a \<Rightarrow> size_t \<times> size_t \<times> 'a buffer \<Rightarrow> heap \<Rightarrow>
    ((size_t \<times> size_t \<times> 'a buffer) \<times> heap) result" where
  "array_push esz x a h =
     (case a of (cnt, cap, p) \<Rightarrow>
        res_bind
          (if cap < cnt + 1
           then (let cap' = grow_capacity cap
                 in res_bind (grow_array esz p cap' h) (\<lambda>(p', h'). Inr (cap', p', h')))
           else Inr (cap, p, h))
          (\<lambda>(cap', p', h').
             res_bind (buffer_write p' (unat cnt) x)
               (\<lambda>p''. Inr ((cnt + 1, cap', p''), h'))))"

lemma c_malloc_cases:
  obtains (refused) "\<not> host_grants h (requests h) (unat n)"
      and "c_malloc n h = (0, h\<lparr>requests := Suc (requests h)\<rparr>)"
    | (granted) "host_grants h (requests h) (unat n)"
      and "c_malloc n h = (Suc (requests h),
        h\<lparr>requests := Suc (requests h), live := Suc (requests h) # live h\<rparr>)"
  by (cases "host_grants h (requests h) (unat n)") (auto simp: c_malloc_def Let_def)

lemma mset_add_mem: "mset xs = add_mset a F \<Longrightarrow> a \<in> set xs"
  by (metis set_mset_mset union_single_eq_member add_mset_add_single)

text \<open>
  Growing a block: it is refused and the program exits, or the result is a fresh block with
  the old cells in front; the rest of the heap (\<open>F\<close>) is untouched.
\<close>

lemma grow_array_cases:
  assumes "mset (live h) = addrs p + F" and "word_of_nat esz * new_capacity \<noteq> (0 :: size_t)"
  obtains (refused) "grow_array esz p new_capacity h = Inl error_not_enough_memory"
      and "\<not> host_grants h (requests h) (unat (word_of_nat esz * new_capacity :: size_t))"
    | (granted) a h' where
        "grow_array esz p new_capacity h = Inr
           (Block a (resize (unat (word_of_nat esz * new_capacity :: size_t) div esz) (cells p)), h')"
      and "mset (live h') = add_mset a F" and "host_grants h' = host_grants h"
      and "host_grants h (requests h) (unat (word_of_nat esz * new_capacity :: size_t))"
      and "requests h' = Suc (requests h)"
proof (cases rule: c_malloc_cases [of h "word_of_nat esz * new_capacity"])
  case refused
  show ?thesis
    by (rule that(1))
      (use assms refused in \<open>auto simp: grow_array_def reallocate_def c_realloc_def
         dest: mset_add_mem split: buffer.splits\<close>)
next
  case granted
  show ?thesis
    by (rule that(2) [of "Suc (requests h)"
          "h\<lparr>requests := Suc (requests h),
             live := (case p of Null \<Rightarrow> Suc (requests h) # live h
               | Block b cs \<Rightarrow> remove1 b (Suc (requests h) # live h))\<rparr>"]; cases p)
      (use assms granted in \<open>auto simp: grow_array_def reallocate_def c_realloc_def
         dest: mset_add_mem\<close>)
qed

lemma unat_grow_capacity:
  "unat cap < 2 ^ 63 \<Longrightarrow>
    unat (grow_capacity cap) = (if unat cap < 8 then 8 else 2 * unat cap)"
  by (simp add: grow_capacity_def word_less_nat_alt unat_size_mult mult.commute)

lemma array_ok_bounds:
  assumes "array_ok esz cap cnt p" and "0 < esz"
  shows "unat cap < 2 ^ 63" and "unat (cnt + 1) = Suc (unat cnt)"
    and "cap < cnt + 1 \<longleftrightarrow> unat cap = unat cnt"
proof -
  have "unat cap \<le> esz * unat cap" using assms(2) by simp
  also have "\<dots> < 2 ^ 63" using assms(1) by (simp add: array_ok_def)
  finally show cap: "unat cap < 2 ^ 63" .
  then have "unat cnt < 2 ^ 64 - 1" using assms(1) by (simp add: array_ok_def)
  then show "unat (cnt + 1) = Suc (unat cnt)" and "cap < cnt + 1 \<longleftrightarrow> unat cap = unat cnt"
    using assms(1) by (auto simp: unat_Suc_size size_less_Suc_iff array_ok_def)
qed

text \<open>The append itself, once the block has room for the new cell.\<close>

lemma array_write_ok:
  assumes "length cs = unat cap" and "unat cnt < unat cap" and "unat cap \<le> 2 * unat cnt + 10"
    and "esz * unat cap < 2 ^ 63" and "\<forall>i < unat cnt. cs ! i \<noteq> None"
    and "unat (cnt + 1) = Suc (unat cnt)"
  shows "buffer_write (Block a cs) (unat cnt) x = Inr (Block a (cs[unat cnt := Some x]))"
    and "array_ok esz cap (cnt + 1) (Block a (cs[unat cnt := Some x]))"
    and "array_elems (cnt + 1) (Block a (cs[unat cnt := Some x])) =
      map the (take (unat cnt) cs) @ [x]"
  using assms
  by (auto simp: buffer_write_def array_ok_def array_elems_def take_Suc_update less_Suc_eq
      nth_list_update)

lemma array_push_cases:
  fixes h :: heap
  assumes ok: "array_ok esz cap cnt p" and esz: "0 < esz" "esz \<le> 16"
    and sane: "sane h" and live: "mset (live h) = addrs p + F"
  obtains (refused) "array_push esz x (cnt, cap, p) h = Inl error_not_enough_memory"
      and "\<not> generous h \<or> 2 ^ 57 \<le> unat cnt"
    | (pushed) cap' p' h' where "array_push esz x (cnt, cap, p) h = Inr ((cnt + 1, cap', p'), h')"
      and "array_ok esz cap' (cnt + 1) p'"
      and "array_elems (cnt + 1) p' = array_elems cnt p @ [x]"
      and "host_grants h' = host_grants h" and "mset (live h') = addrs p' + F"
proof (cases "cap < cnt + 1")
  case False
  note b = array_ok_bounds [OF ok esz(1)]
  from False ok b have less: "unat cnt < unat cap" by (auto simp: array_ok_def)
  with ok obtain a cs where p: "p = Block a cs" by (cases p) (auto simp: array_ok_def)
  have w: "length cs = unat cap" "unat cap \<le> 2 * unat cnt + 10" "esz * unat cap < 2 ^ 63"
    "\<forall>i < unat cnt. cs ! i \<noteq> None"
    using ok p by (auto simp: array_ok_def)
  note w' = array_write_ok [OF w(1) less w(2-4) b(2)]
  show ?thesis
    by (rule pushed [of cap "Block a (cs[unat cnt := Some x])" h])
      (use False live w' p in \<open>auto simp: array_push_def array_elems_def\<close>)
next
  case True
  note b = array_ok_bounds [OF ok esz(1)]
  let ?cap = "grow_capacity cap" and ?bytes = "word_of_nat esz * grow_capacity cap :: size_t"
  from True b have full: "unat cap = unat cnt" by simp
  have cap: "unat ?cap = (if unat cap < 8 then 8 else 2 * unat cap)"
    by (rule unat_grow_capacity [OF b(1)])
  have esz_cap: "esz * unat cap < 2 ^ 63" using ok by (simp add: array_ok_def)
  have "esz * unat ?cap < 2 ^ 64" using esz esz_cap by (simp add: cap)
  then have bytes: "unat ?bytes = esz * unat ?cap"
    using esz by (simp add: unat_size_mult unat_size_of_nat)
  then have nz: "?bytes \<noteq> 0" using esz cap by (metis (full_types) mult_is_0 not_less_zero unat_0
        zero_less_numeral mult_pos_pos full b(1) not_gr_zero zero_neq_numeral)
  from live nz show ?thesis
  proof (cases rule: grow_array_cases)
    case refused
    show ?thesis
    proof (rule that(1))
      show "array_push esz x (cnt, cap, p) h = Inl error_not_enough_memory"
        using True refused by (simp add: array_push_def Let_def)
      show "\<not> generous h \<or> 2 ^ 57 \<le> unat cnt"
      proof (rule ccontr)
        assume "\<not> ?thesis"
        then have gen: "generous h" and "unat cnt < 2 ^ 57" by auto
        have "esz * unat ?cap \<le> 16 * unat ?cap" using esz by simp
        also have "\<dots> < 2 ^ 63" using \<open>unat cnt < 2 ^ 57\<close> cap full by (simp split: if_splits)
        finally show False using gen refused(2) bytes by (simp add: generous_def)
      qed
    qed
  next
    case (granted a h')
    then have bound: "esz * unat ?cap < 2 ^ 63" using sane bytes by (simp add: sane_def)
    let ?cs = "resize (unat ?cap) (cells p)"
    have cs: "resize (unat ?bytes div esz) (cells p) = ?cs" using esz bytes by simp
    have take: "take (unat cnt) ?cs = take (unat cnt) (cells p)"
      using ok cap full by (auto simp: take_resize array_ok_def)
    have init: "\<forall>i < unat cnt. ?cs ! i \<noteq> None"
      using ok cap full by (auto simp: array_ok_def resize_def nth_append)
    have w: "unat cnt < unat ?cap" "unat ?cap \<le> 2 * unat cnt + 10" using cap full by auto
    note w' = array_write_ok [OF length_resize w bound init b(2)]
    show ?thesis
      by (rule pushed [of ?cap "Block a (?cs[unat cnt := Some x])" h'])
        (use True granted w' take cs in \<open>auto simp: array_push_def array_elems_def Let_def\<close>)
  qed
qed

end
