(* ===== verification/Stores.thy ===== *)
theory Stores
  imports Memory
begin

text \<open>
  The contracts of the growable stores of the program. A store stands for the list of the
  elements appended to it (\<open>elems\<close>) and owns heap blocks (\<open>blocks\<close>); appending adds at the
  end, touches no other block of the heap (\<open>F\<close>), and the only way to fail is the exit of
  \<open>error_not_enough_memory\<close>.
\<close>

subsection \<open>Stores that are appended to\<close>

locale append_store =
  fixes wf :: "'s \<Rightarrow> bool"
    and elems :: "'s \<Rightarrow> 'x list"
    and blocks :: "'s \<Rightarrow> nat multiset"
    and push :: "'x \<Rightarrow> 's \<times> heap \<Rightarrow> ('s \<times> heap) result"
  assumes push_fault: "wf s \<Longrightarrow> sane h \<Longrightarrow> mset (live h) = blocks s + F \<Longrightarrow>
      push x (s, h) = Inl e \<Longrightarrow> e = error_not_enough_memory"
    and push_return: "wf s \<Longrightarrow> sane h \<Longrightarrow> mset (live h) = blocks s + F \<Longrightarrow>
      push x (s, h) = Inr (s', h') \<Longrightarrow>
      wf s' \<and> elems s' = elems s @ [x] \<and> host_grants h' = host_grants h \<and>
      mset (live h') = blocks s' + F"
begin

lemma push_all_fault:
  assumes "wf s" and "sane h" and "mset (live h) = blocks s + F"
    and "res_fold push xs (s, h) = Inl e"
  shows "e = error_not_enough_memory"
  using assms
proof (induction xs arbitrary: s h)
  case Nil
  then show ?case by simp
next
  case (Cons x xs)
  show ?case
  proof (cases "push x (s, h)")
    case (Inl e')
    with Cons.prems push_fault [OF Cons.prems(1-3)] show ?thesis by simp
  next
    case (Inr t)
    obtain s' h' where t: "t = (s', h')" by (cases t)
    from push_return [OF Cons.prems(1-3)] Inr t
    have "wf s'" "mset (live h') = blocks s' + F" "host_grants h' = host_grants h" by blast+
    with Cons.IH [of s' h'] Cons.prems(2,4) Inr t show ?thesis by (simp add: sane_def)
  qed
qed

lemma push_all_return:
  assumes "wf s" and "sane h" and "mset (live h) = blocks s + F"
    and "res_fold push xs (s, h) = Inr (s', h')"
  shows "wf s' \<and> elems s' = elems s @ xs \<and> host_grants h' = host_grants h \<and>
    mset (live h') = blocks s' + F"
  using assms
proof (induction xs arbitrary: s h)
  case Nil
  then show ?case by simp
next
  case (Cons x xs)
  from Cons.prems(4) obtain s1 h1 where p: "push x (s, h) = Inr (s1, h1)"
    and rest: "res_fold push xs (s1, h1) = Inr (s', h')"
    by (auto elim!: res_bindE)
  from push_return [OF Cons.prems(1-3) p] have s1: "wf s1" "elems s1 = elems s @ [x]"
    "host_grants h1 = host_grants h" "mset (live h1) = blocks s1 + F" by blast+
  with Cons.IH [OF s1(1) _ s1(4) rest] Cons.prems(2) show ?case by (simp add: sane_def)
qed

end

text \<open>On a generous host such a store takes a guaranteed number of elements.\<close>

locale roomy_store = append_store +
  fixes limit :: nat
  assumes push_room: "wf s \<Longrightarrow> sane h \<Longrightarrow> generous h \<Longrightarrow> mset (live h) = blocks s + F \<Longrightarrow>
      length (elems s) < limit \<Longrightarrow> \<exists>t. push x (s, h) = Inr t"
begin

lemma push_all_room:
  assumes "wf s" and "sane h" and "generous h" and "mset (live h) = blocks s + F"
    and "length (elems s) + length xs \<le> limit"
  shows "\<exists>s' h'. res_fold push xs (s, h) = Inr (s', h') \<and> wf s' \<and> elems s' = elems s @ xs \<and>
    host_grants h' = host_grants h \<and> mset (live h') = blocks s' + F"
proof -
  have "\<exists>t. res_fold push xs (s, h) = Inr t"
    using assms
  proof (induction xs arbitrary: s h)
    case Nil
    then show ?case by simp
  next
    case (Cons x xs)
    have "length (elems s) < limit" using Cons.prems(5) by simp
    from push_room [OF Cons.prems(1-4) this] obtain s1 h1 where p: "push x (s, h) = Inr (s1, h1)"
      by (metis surj_pair)
    from push_return [OF Cons.prems(1,2,4) p] have s1: "wf s1" "elems s1 = elems s @ [x]"
      "host_grants h1 = host_grants h" "mset (live h1) = blocks s1 + F" by blast+
    from Cons.IH [OF s1(1) _ _ s1(4)] s1 Cons.prems p show ?case
      by (simp add: sane_def generous_def)
  qed
  then obtain s' h' where "res_fold push xs (s, h) = Inr (s', h')" by (metis surj_pair)
  with push_all_return [OF assms(1,2,4) this] show ?thesis by blast
qed

end

text \<open>Stores from which the last element can be taken back.\<close>

locale stack_store = roomy_store +
  fixes pop :: "'s \<Rightarrow> ('x \<times> 's) result"
  assumes pop_last: "wf s \<Longrightarrow> elems s \<noteq> [] \<Longrightarrow>
      \<exists>s'. pop s = Inr (last (elems s), s') \<and> wf s' \<and> elems s' = butlast (elems s) \<and>
        blocks s' = blocks s"
    and pop_empty: "wf s \<Longrightarrow> elems s = [] \<Longrightarrow> pop s = Inl OutOfBounds"
begin

lemma pop_after_push:
  assumes "wf s" and "sane h" and "mset (live h) = blocks s + F"
    and "push x (s, h) = Inr (s', h')"
  shows "\<exists>s''. pop s' = Inr (x, s'') \<and> wf s'' \<and> elems s'' = elems s"
  using push_return [OF assms] pop_last [of s'] by auto

end

subsection \<open>Arrays with a count and a capacity\<close>

text \<open>
  A structure with a growable array in it: \<open>get\<close> reads the count, the capacity and the
  pointer, \<open>put\<close> writes them back.
\<close>

locale array_store =
  fixes esz :: nat
    and get :: "'s \<Rightarrow> size_t \<times> size_t \<times> 'x buffer"
    and put :: "size_t \<times> size_t \<times> 'x buffer \<Rightarrow> 's \<Rightarrow> 's"
    and push :: "'x \<Rightarrow> 's \<times> heap \<Rightarrow> ('s \<times> heap) result"
  assumes esz: "0 < esz" "esz \<le> 16"
    and get_put: "get (put a s) = a"
    and push_eq: "push x (s, h) =
      res_bind (array_push esz x (get s) h) (\<lambda>(a, h'). Inr (put a s, h'))"
begin

definition wf where "wf s = (case get s of (cnt, cap, p) \<Rightarrow> array_ok esz cap cnt p)"
definition elems where "elems s = (case get s of (cnt, cap, p) \<Rightarrow> array_elems cnt p)"
definition blocks where "blocks s = (case get s of (cnt, cap, p) \<Rightarrow> addrs p)"

lemma length_elems: "wf s \<Longrightarrow> get s = (cnt, cap, p) \<Longrightarrow> length (elems s) = unat cnt"
  by (simp add: wf_def elems_def array_elems_def array_ok_def)

lemma push_cases:
  assumes "wf s" and "sane h" and "mset (live h) = blocks s + F"
  obtains (refused) "push x (s, h) = Inl error_not_enough_memory"
      and "\<not> generous h \<or> 2 ^ 57 \<le> length (elems s)"
    | (pushed) a h' where "push x (s, h) = Inr (put a s, h')" and "wf (put a s)"
      and "elems (put a s) = elems s @ [x]" and "host_grants h' = host_grants h"
      and "mset (live h') = blocks (put a s) + F"
proof -
  obtain cnt cap p where get: "get s = (cnt, cap, p)" by (cases "get s")
  have ok: "array_ok esz cap cnt p" and live: "mset (live h) = addrs p + F"
    using assms get by (simp_all add: wf_def blocks_def)
  from ok esz assms(2) live show thesis
  proof (cases rule: array_push_cases [where x = x])
    case refused
    then show ?thesis
      using that(1) length_elems [OF assms(1) get] by (simp add: push_eq get)
  next
    case (pushed cap' p' h')
    show ?thesis
      by (rule that(2) [of "(cnt + 1, cap', p')" h'])
        (use pushed get in \<open>simp_all add: push_eq wf_def elems_def blocks_def get_put\<close>)
  qed
qed

end

sublocale array_store \<subseteq> roomy_store wf elems blocks push "2 ^ 57"
proof
  fix s h F x e s' h'
  assume "wf s" "sane h" "mset (live h) = blocks s + F"
  note cases = push_cases [OF this, of x thesis for thesis]
  show "push x (s, h) = Inl e \<Longrightarrow> e = error_not_enough_memory"
    by (rule cases) auto
  show "push x (s, h) = Inr (s', h') \<Longrightarrow> wf s' \<and> elems s' = elems s @ [x] \<and>
      host_grants h' = host_grants h \<and> mset (live h') = blocks s' + F"
    by (rule cases) auto
  show "generous h \<Longrightarrow> length (elems s) < 2 ^ 57 \<Longrightarrow> \<exists>t. push x (s, h) = Inr t"
    by (rule cases) auto
qed

text \<open>The facts of a reset array, and of giving its block back.\<close>

lemma array_init_ok [simp]: "array_ok esz 0 0 Null" "array_elems 0 Null = []"
  by (simp_all add: array_ok_def array_elems_def)

lemma free_array_ok:
  assumes "mset (live h) = addrs p + F"
  shows "\<exists>h'. free_array esz p h = Inr (Null, h') \<and> mset (live h') = F \<and>
    host_grants h' = host_grants h"
  using assms by (cases p) (auto simp: free_array_def reallocate_def c_free_def dest: mset_add_mem)

end
