(* ===== verification/Stdlib.thy ===== *)
theory Stdlib
  imports Prelude
begin

text \<open>
  What the program uses of the C standard library on numbers and text: the \<open>printf\<close>
  conversions \<open>%zu\<close>, \<open>%0Nzu\<close>, \<open>%lld\<close>, \<open>%s\<close>, \<open>%-Ns\<close>, \<open>%.*s\<close> and \<open>%lf\<close>, and
  \<open>strtoll\<close> and \<open>strtod\<close>. Doubles are IEEE 754 binary64 bit patterns, and \<open>strtod\<close> and
  \<open>%lf\<close> round correctly, to nearest with ties to even, as glibc does.
\<close>

subsection \<open>Decimal numerals\<close>

definition digit_char :: "nat \<Rightarrow> char" where
  "digit_char d = ''0123456789'' ! d"

definition is_digit :: "char \<Rightarrow> bool" where
  "is_digit c \<longleftrightarrow> CHR ''0'' \<le> c \<and> c \<le> CHR ''9''"

fun show_nat :: "nat \<Rightarrow> string" where
  "show_nat n = (if n < 10 then [digit_char n] else show_nat (n div 10) @ [digit_char (n mod 10)])"

declare show_nat.simps [simp del]

definition digit_value :: "char \<Rightarrow> nat" where
  "digit_value c = of_char c - 48"

definition digits_value :: "string \<Rightarrow> nat" where
  "digits_value ds = foldl (\<lambda>n c. 10 * n + digit_value c) 0 ds"

subsection \<open>printf\<close>

definition pad_zero :: "nat \<Rightarrow> string \<Rightarrow> string" where
  "pad_zero w s = replicate (w - length s) (CHR ''0'') @ s"

definition pad_right :: "nat \<Rightarrow> string \<Rightarrow> string" where
  "pad_right w s = s @ replicate (w - length s) (CHR '' '')"

definition print_zu :: "nat \<Rightarrow> size_t \<Rightarrow> string" where
  \<comment> \<open>\<open>%0wzu\<close>\<close>
  "print_zu w n = pad_zero w (show_nat (unat n))"

definition print_lld :: "64 word \<Rightarrow> string" where
  "print_lld n = (if sint n < 0 then CHR ''-'' # show_nat (nat (- sint n)) else show_nat (nat (sint n)))"

definition print_precision_s :: "size_t \<Rightarrow> string \<Rightarrow> string" where
  \<comment> \<open>\<open>%.*s\<close> with the precision \<open>(int) n\<close>, on a text up to its terminator; a negative
    precision counts as none\<close>
  "print_precision_s n s =
     (let p = sint (ucast n :: 32 word) in if p < 0 then s else take (nat p) s)"

subsection \<open>strtoll\<close>

definition is_space :: "char \<Rightarrow> bool" where
  "is_space c \<longleftrightarrow> c \<in> {CHR '' '', CHR 0x09, CHR 0x0A, CHR 0x0B, CHR 0x0C, CHR 0x0D}"

text \<open>The result saturates at the ends of the range of \<open>long long\<close>.\<close>

definition saturate64 :: "int \<Rightarrow> 64 word" where
  "saturate64 i = word_of_int (max (- (2 ^ 63)) (min (2 ^ 63 - 1) i))"

definition c_strtoll :: "string \<Rightarrow> 64 word" where
  "c_strtoll s =
     (case dropWhile is_space s of
        [] \<Rightarrow> 0
      | c # r \<Rightarrow>
          if c = CHR ''-'' then saturate64 (- int (digits_value (takeWhile is_digit r)))
          else if c = CHR ''+'' then saturate64 (int (digits_value (takeWhile is_digit r)))
          else saturate64 (int (digits_value (takeWhile is_digit (c # r)))))"

subsection \<open>binary64\<close>

fun ilog2 :: "nat \<Rightarrow> nat" where
  "ilog2 n = (if n < 2 then 0 else Suc (ilog2 (n div 2)))"

declare ilog2.simps [simp del]

text \<open>The integer nearest to \<open>n / d\<close>, the even one of two.\<close>

definition round_half_even :: "nat \<Rightarrow> nat \<Rightarrow> nat" where
  "round_half_even n d =
     (let q = n div d; r = n mod d
      in if 2 * r < d \<or> (2 * r = d \<and> even q) then q else Suc q)"

text \<open>\<open>m / d\<close> is at least \<open>2 ^ k\<close>.\<close>

definition ge_power :: "nat \<Rightarrow> nat \<Rightarrow> int \<Rightarrow> bool" where
  "ge_power m d k = (if 0 \<le> k then d * 2 ^ nat k \<le> m else d \<le> m * 2 ^ nat (- k))"

text \<open>The position of the leading bit of \<open>m / d\<close>.\<close>

definition ratio_log2 :: "nat \<Rightarrow> nat \<Rightarrow> int" where
  "ratio_log2 m d =
     (let k = int (ilog2 m) - int (ilog2 d) in if ge_power m d k then k else k - 1)"

text \<open>\<open>m / d\<close> in units of \<open>2 ^ e\<close>, rounded.\<close>

definition scaled_round :: "nat \<Rightarrow> nat \<Rightarrow> int \<Rightarrow> nat" where
  "scaled_round m d e =
     (if 0 \<le> e then round_half_even m (d * 2 ^ nat e)
      else round_half_even (m * 2 ^ nat (- e)) d)"

text \<open>
  The binary64 value nearest to \<open>m / d\<close>. The unit of its last place is \<open>2 ^ e\<close>, never
  below \<open>2 ^ -1074\<close>; a significand that rounds up to \<open>2 ^ 53\<close> carries into the exponent
  field by itself, and what passes the largest finite value is infinity.
\<close>

definition ratio_unit :: "nat \<Rightarrow> nat \<Rightarrow> int" where
  "ratio_unit m d = max (- 1074) (ratio_log2 m d - 52)"

definition binary64_of_ratio :: "nat \<Rightarrow> nat \<Rightarrow> 64 word" where
  "binary64_of_ratio m d =
     (if m = 0 then 0
      else let e = ratio_unit m d
        in word_of_nat (min (2047 * 2 ^ 52) (nat (e + 1074) * 2 ^ 52 + scaled_round m d e)))"

text \<open>The fields of a bit pattern: sign, exponent, significand and unit of a finite value.\<close>

definition b64_negative :: "64 word \<Rightarrow> bool" where
  "b64_negative w \<longleftrightarrow> 2 ^ 63 \<le> unat w"

definition b64_exponent :: "64 word \<Rightarrow> nat" where
  "b64_exponent w = unat w div 2 ^ 52 mod 2 ^ 11"

definition b64_fraction :: "64 word \<Rightarrow> nat" where
  "b64_fraction w = unat w mod 2 ^ 52"

definition b64_significand :: "64 word \<Rightarrow> nat" where
  "b64_significand w = (if b64_exponent w = 0 then b64_fraction w else b64_fraction w + 2 ^ 52)"

definition b64_unit :: "64 word \<Rightarrow> int" where
  "b64_unit w = (if b64_exponent w = 0 then - 1074 else int (b64_exponent w) - 1075)"

definition print_lf :: "64 word \<Rightarrow> string" where
  "print_lf w =
     (let sign = (if b64_negative w then ''-'' else [])
      in if b64_exponent w = 2047
         then sign @ (if b64_fraction w = 0 then ''inf'' else ''nan'')
         else
           let e = b64_unit w;
               micros = (if 0 \<le> e then b64_significand w * 2 ^ nat e * 10 ^ 6
                 else round_half_even (b64_significand w * 10 ^ 6) (2 ^ nat (- e)))
           in sign @ show_nat (micros div 10 ^ 6) @ ''.'' @ pad_zero 6 (show_nat (micros mod 10 ^ 6)))"

subsection \<open>strtod\<close>

text \<open>
  \<open>strtod\<close> on a text that starts with a decimal digit and is not hexadecimal, the only kind
  the program passes: digits, an optional fraction, an optional exponent.
\<close>

definition exponent_part :: "string \<Rightarrow> int" where
  "exponent_part s =
     (case s of
        [] \<Rightarrow> 0
      | c # r \<Rightarrow>
          if c \<noteq> CHR ''e'' \<and> c \<noteq> CHR ''E'' then 0
          else (case r of
              [] \<Rightarrow> 0
            | c' # r' \<Rightarrow>
                if c' = CHR ''-'' then - int (digits_value (takeWhile is_digit r'))
                else if c' = CHR ''+'' then int (digits_value (takeWhile is_digit r'))
                else int (digits_value (takeWhile is_digit r))))"

definition c_strtod :: "string \<Rightarrow> 64 word" where
  "c_strtod s =
     (let whole = takeWhile is_digit s; r = dropWhile is_digit s;
          fraction = (case r of [] \<Rightarrow> [] | c # r' \<Rightarrow> if c = CHR ''.'' then takeWhile is_digit r' else []);
          r' = (case r of [] \<Rightarrow> [] | c # r' \<Rightarrow> if c = CHR ''.'' then dropWhile is_digit r' else r);
          m = digits_value (whole @ fraction);
          x = exponent_part r' - int (length fraction)
      in if 0 \<le> x then binary64_of_ratio (m * 10 ^ nat x) 1 else binary64_of_ratio m (10 ^ nat (- x)))"

subsection \<open>Evaluation\<close>

lemma show_nat_eval [eval]:
  "n < 10 \<Longrightarrow> show_nat n = [digit_char n]"
  "\<not> n < 10 \<Longrightarrow> show_nat n = show_nat (n div 10) @ [digit_char (n mod 10)]"
  by (simp_all add: show_nat.simps)

lemma ilog2_eval [eval]:
  "n < 2 \<Longrightarrow> ilog2 n = 0"
  "\<not> n < 2 \<Longrightarrow> ilog2 n = Suc (ilog2 (n div 2))"
  by (simp_all add: ilog2.simps)

lemma replicate_eval [eval]: "replicate (numeral k) x = x # replicate (pred_numeral k) x"
  by (simp add: numeral_eq_Suc)

lemmas [eval] =
  digit_char_def digit_value_def digits_value_def is_digit_def pad_zero_def pad_right_def
  print_zu_def print_lld_def is_space_def saturate64_def c_strtoll_def
  round_half_even_def ge_power_def ratio_log2_def scaled_round_def ratio_unit_def
  binary64_of_ratio_def b64_negative_def b64_exponent_def b64_fraction_def
  b64_significand_def b64_unit_def print_lf_def exponent_part_def c_strtod_def

end
