(* ===== verification/Values.thy ===== *)
theory Values
  imports Stores Stdlib
begin

text \<open>
  \<^verbatim>\<open>skard-lib/src/value.c\<close> and \<^verbatim>\<open>value.h\<close>: the types and values of the language and the
  growable array of values.
\<close>

subsection \<open>Types\<close>

datatype TypeKind = TYPE_UNKNOWN | TYPE_INVALID | TYPE_REAL | TYPE_INT | COUNT_TYPES

record SkardType =
  kind :: TypeKind

definition make_skard_type_simple :: "TypeKind \<Rightarrow> SkardType" where
  "make_skard_type_simple type = \<lparr>kind = type\<rparr>"

definition make_skard_type_unknown :: SkardType where
  "make_skard_type_unknown = make_skard_type_simple TYPE_UNKNOWN"

definition make_skard_type_invalid :: SkardType where
  "make_skard_type_invalid = make_skard_type_simple TYPE_INVALID"

definition make_skard_type_real :: SkardType where
  "make_skard_type_real = make_skard_type_simple TYPE_REAL"

definition make_skard_type_int :: SkardType where
  "make_skard_type_int = make_skard_type_simple TYPE_INT"

definition copy_skard_type :: "SkardType \<Rightarrow> SkardType" where
  "copy_skard_type source = \<lparr>kind = kind source\<rparr>"

definition is_skard_type_of_kind :: "SkardType \<Rightarrow> TypeKind \<Rightarrow> bool" where
  "is_skard_type_of_kind skard_type type \<longleftrightarrow> kind skard_type = type"

definition is_skard_type_unknown :: "SkardType \<Rightarrow> bool" where
  "is_skard_type_unknown skard_type \<longleftrightarrow> kind skard_type = TYPE_UNKNOWN"

definition is_skard_type_invalid :: "SkardType \<Rightarrow> bool" where
  "is_skard_type_invalid skard_type \<longleftrightarrow> kind skard_type = TYPE_INVALID"

text \<open>\<open>None\<close> is the null pointer.\<close>

fun skard_type_translate :: "SkardType \<Rightarrow> string option" where
  "skard_type_translate skard_type =
     (case kind skard_type of
        TYPE_UNKNOWN \<Rightarrow> Some ''*Unknown''
      | TYPE_INVALID \<Rightarrow> Some ''*Invalid''
      | TYPE_REAL \<Rightarrow> Some ''Real''
      | TYPE_INT \<Rightarrow> Some ''Int''
      | COUNT_TYPES \<Rightarrow> None)"

text \<open>What goes to the standard output.\<close>

definition skard_type_print :: "SkardType \<Rightarrow> string result" where
  "skard_type_print skard_type =
     (if kind skard_type \<in> {TYPE_UNKNOWN, TYPE_REAL, TYPE_INT, TYPE_INVALID}
      then (case skard_type_translate skard_type of None \<Rightarrow> Inl NullDeref | Some s \<Rightarrow> Inr s)
      else Inr [])"

lemmas type_simps [simp] =
  make_skard_type_simple_def make_skard_type_unknown_def make_skard_type_invalid_def
  make_skard_type_real_def make_skard_type_int_def copy_skard_type_def
  is_skard_type_of_kind_def is_skard_type_unknown_def is_skard_type_invalid_def

lemma skard_type_print_known:
  "kind t \<noteq> COUNT_TYPES \<Longrightarrow> skard_type_print t = Inr (the (skard_type_translate t))"
  by (cases "kind t") (simp_all add: skard_type_print_def)

subsection \<open>Values\<close>

text \<open>
  A tagged union of a \<open>double\<close> and an \<open>int64_t\<close>: the tag and the eight bytes both members
  share.
\<close>

type_synonym sk_real = "64 word"
type_synonym sk_int = "64 word"

record Value =
  value_type :: TypeKind
  value_as :: "64 word"

definition make_value_real :: "sk_real \<Rightarrow> Value" where
  "make_value_real sk_real = \<lparr>value_type = TYPE_REAL, value_as = sk_real\<rparr>"

definition make_value_int :: "sk_int \<Rightarrow> Value" where
  "make_value_int sk_int = \<lparr>value_type = TYPE_INT, value_as = sk_int\<rparr>"

definition print_value :: "Value \<Rightarrow> string" where
  "print_value v =
     (case value_type v of
        TYPE_REAL \<Rightarrow> print_lf (value_as v)
      | TYPE_INT \<Rightarrow> print_lld (value_as v)
      | _ \<Rightarrow> ''UNKNOWN TYPE'')"

subsection \<open>Arrays of values\<close>

record ValueArray =
  va_count :: size_t
  va_capacity :: size_t
  va_values :: "Value buffer"

text \<open>A \<open>Value\<close> takes 16 bytes: the tag, its padding, the union.\<close>

definition sizeof_Value :: nat where
  "sizeof_Value = 16"

definition value_array_init :: ValueArray where
  "value_array_init = \<lparr>va_count = 0, va_capacity = 0, va_values = Null\<rparr>"

definition value_array_free :: "ValueArray \<Rightarrow> heap \<Rightarrow> (ValueArray \<times> heap) result" where
  "value_array_free array h =
     res_bind (free_array sizeof_Value (va_values array) h) (\<lambda>(_, h'). Inr (value_array_init, h'))"

definition value_array_add :: "Value \<Rightarrow> ValueArray \<times> heap \<Rightarrow> (ValueArray \<times> heap) result" where
  "value_array_add value = (\<lambda>(array, h).
     res_bind
       (if va_capacity array < va_count array + 1
        then let capacity = grow_capacity (va_capacity array)
          in res_bind (grow_array sizeof_Value (va_values array) capacity h) (\<lambda>(values, h').
               Inr (array\<lparr>va_capacity := capacity, va_values := values\<rparr>, h'))
        else Inr (array, h))
       (\<lambda>(array, h).
          res_bind (buffer_write (va_values array) (unat (va_count array)) value) (\<lambda>values.
            Inr (array\<lparr>va_values := values, va_count := va_count array + 1\<rparr>, h))))"

text \<open>The list of values an array stands for.\<close>

definition value_array_ok :: "ValueArray \<Rightarrow> bool" where
  "value_array_ok array \<longleftrightarrow>
     array_ok sizeof_Value (va_capacity array) (va_count array) (va_values array)"

definition value_list :: "ValueArray \<Rightarrow> Value list" where
  "value_list array = array_elems (va_count array) (va_values array)"

definition value_blocks :: "ValueArray \<Rightarrow> nat multiset" where
  "value_blocks array = addrs (va_values array)"

interpretation va: array_store sizeof_Value
  "\<lambda>array. (va_count array, va_capacity array, va_values array)"
  "\<lambda>(cnt, cap, p) array. array\<lparr>va_count := cnt, va_capacity := cap, va_values := p\<rparr>"
  value_array_add
  rewrites "va.wf = value_array_ok" and "va.elems = value_list" and "va.blocks = value_blocks"
proof -
  show store: "array_store sizeof_Value
    (\<lambda>array. (va_count array, va_capacity array, va_values array))
    (\<lambda>(cnt, cap, p) array. array\<lparr>va_count := cnt, va_capacity := cap, va_values := p\<rparr>)
    value_array_add"
    by unfold_locales
      (auto simp: sizeof_Value_def value_array_add_def array_push_def res_bind_assoc Let_def
        split_def intro!: res_bind_cong)
  show "array_store.wf sizeof_Value
      (\<lambda>array. (va_count array, va_capacity array, va_values array)) = value_array_ok"
    by (rule ext) (simp add: array_store.wf_def [OF store] value_array_ok_def)
  show "array_store.elems (\<lambda>array. (va_count array, va_capacity array, va_values array)) = value_list"
    by (rule ext) (simp add: array_store.elems_def [OF store] value_list_def)
  show "array_store.blocks (\<lambda>array. (va_count array, va_capacity array, va_values array)) = value_blocks"
    by (rule ext) (simp add: array_store.blocks_def [OF store] value_blocks_def)
qed

lemma value_array_init_ok [simp]:
  "value_array_ok value_array_init" "value_list value_array_init = []"
  "value_blocks value_array_init = {#}"
  by (simp_all add: value_array_ok_def value_list_def value_blocks_def value_array_init_def)

end
