(* ===== verification/Debug_Info.thy ===== *)
theory Debug_Info
  imports Values
begin

text \<open>
  The debug information of \<^verbatim>\<open>skard-lib/src/chunk.c\<close> and \<^verbatim>\<open>chunk.h\<close>: for every
  byte of code the line and column it was compiled from. Lines are run-length encoded in an
  array of (line, count) pairs, columns are stored one per byte.
\<close>

subsection \<open>Data\<close>

record DebugInfo =
  lines_count :: size_t
  lines_capacity :: size_t
  lines_ptr :: "size_t buffer"
  columns_count :: size_t
  columns_capacity :: size_t
  columns_ptr :: "size_t buffer"

definition sizeof_size_t :: nat where
  "sizeof_size_t = 8"

subsection \<open>Operations\<close>

definition debug_info_init :: DebugInfo where
  "debug_info_init =
     \<lparr>lines_count = 0, lines_capacity = 0, lines_ptr = Null,
      columns_count = 0, columns_capacity = 0, columns_ptr = Null\<rparr>"

definition debug_info_free :: "DebugInfo \<Rightarrow> heap \<Rightarrow> (DebugInfo \<times> heap) result" where
  "debug_info_free di h =
     res_bind (free_array sizeof_size_t (lines_ptr di) h) (\<lambda>(_, h).
     res_bind (free_array sizeof_size_t (columns_ptr di) h) (\<lambda>(_, h).
       Inr (debug_info_init, h)))"

text \<open>
  The test of the C code short-circuits: a run of the same line is only looked for when there
  is an array. The second test, \<open>lines_capacity < lines_capacity + 2\<close>, is the code's.
\<close>

definition debug_info_same_line :: "size_t \<Rightarrow> DebugInfo \<Rightarrow> bool result" where
  "debug_info_same_line line di =
     (if lines_capacity di \<noteq> 0
      then res_bind (buffer_read (lines_ptr di) (unat (lines_count di - 2))) (\<lambda>l. Inr (l = line))
      else Inr False)"

definition debug_info_add_line :: "size_t \<Rightarrow> DebugInfo \<times> heap \<Rightarrow> (DebugInfo \<times> heap) result" where
  "debug_info_add_line line = (\<lambda>(di, h).
     res_bind (debug_info_same_line line di) (\<lambda>same.
       if same
       then res_bind (buffer_read (lines_ptr di) (unat (lines_count di - 1))) (\<lambda>n.
            res_bind (buffer_write (lines_ptr di) (unat (lines_count di - 1)) (n + 1)) (\<lambda>p.
              Inr (di\<lparr>lines_ptr := p\<rparr>, h)))
       else res_bind
         (if lines_capacity di < lines_capacity di + 2
          then let capacity = grow_capacity (lines_capacity di)
            in res_bind (grow_array sizeof_size_t (lines_ptr di) capacity h) (\<lambda>(p, h).
                 Inr (di\<lparr>lines_capacity := capacity, lines_ptr := p\<rparr>, h))
          else Inr (di, h))
         (\<lambda>(di, h).
            res_bind (buffer_write (lines_ptr di) (unat (lines_count di)) line) (\<lambda>p.
            res_bind (buffer_write p (unat (lines_count di + 1)) 1) (\<lambda>p.
              Inr (di\<lparr>lines_ptr := p, lines_count := lines_count di + 2\<rparr>, h))))))"

definition debug_info_add_column :: "size_t \<Rightarrow> DebugInfo \<times> heap \<Rightarrow> (DebugInfo \<times> heap) result" where
  "debug_info_add_column column = (\<lambda>(di, h).
     res_bind
       (if columns_capacity di < columns_count di + 1
        then let capacity = grow_capacity (columns_capacity di)
          in res_bind (grow_array sizeof_size_t (columns_ptr di) capacity h) (\<lambda>(p, h).
               Inr (di\<lparr>columns_capacity := capacity, columns_ptr := p\<rparr>, h))
        else Inr (di, h))
       (\<lambda>(di, h).
          res_bind (buffer_write (columns_ptr di) (unat (columns_count di)) column) (\<lambda>p.
            Inr (di\<lparr>columns_ptr := p, columns_count := columns_count di + 1\<rparr>, h))))"

definition debug_info_add ::
  "size_t \<Rightarrow> size_t \<Rightarrow> DebugInfo \<times> heap \<Rightarrow> (DebugInfo \<times> heap) result" where
  "debug_info_add line column t =
     res_bind (debug_info_add_line line t) (debug_info_add_column column)"

text \<open>
  The loop of \<open>debug_info_read_line\<close>. Its counter \<open>pos\<close> is a natural number: it indexes
  cells of a block, so it stays far below the range of \<open>size_t\<close>.
\<close>

function read_line_loop :: "DebugInfo \<Rightarrow> nat \<Rightarrow> size_t \<Rightarrow> size_t result" where
  "read_line_loop di pos offset =
     (if pos * 2 < unat (lines_count di)
      then res_bind (buffer_read (lines_ptr di) (pos * 2 + 1)) (\<lambda>n.
        if n \<le> offset then read_line_loop di (pos + 1) (offset - n)
        else buffer_read (lines_ptr di) (pos * 2))
      else Inr 0)"
  by pat_completeness auto
termination
  by (relation "measure (\<lambda>(di, pos, offset). unat (lines_count di) - pos * 2)") auto

declare read_line_loop.simps [simp del]

definition debug_info_read_line :: "DebugInfo \<Rightarrow> size_t \<Rightarrow> size_t result" where
  "debug_info_read_line di offset = read_line_loop di 0 offset"

definition debug_info_read_column :: "DebugInfo \<Rightarrow> size_t \<Rightarrow> size_t result" where
  "debug_info_read_column di offset = buffer_read (columns_ptr di) (unat offset)"

subsection \<open>What debug information stands for\<close>

fun pair_up :: "'a list \<Rightarrow> ('a \<times> 'a) list" where
  "pair_up (x # y # r) = (x, y) # pair_up r"
| "pair_up _ = []"

definition expand_runs :: "(size_t \<times> size_t) list \<Rightarrow> size_t list" where
  "expand_runs rs = concat (map (\<lambda>(line, n). replicate (unat n) line) rs)"

definition line_runs :: "DebugInfo \<Rightarrow> (size_t \<times> size_t) list" where
  "line_runs di = pair_up (array_elems (lines_count di) (lines_ptr di))"

definition line_list :: "DebugInfo \<Rightarrow> size_t list" where
  "line_list di = expand_runs (line_runs di)"

definition column_list :: "DebugInfo \<Rightarrow> size_t list" where
  "column_list di = array_elems (columns_count di) (columns_ptr di)"

text \<open>
  The line array holds one pair for every stretch of equal lines, and has been doubled once
  for every such pair: the growth test of the code is always true.
\<close>

definition lines_ok :: "DebugInfo \<Rightarrow> bool" where
  "lines_ok di \<longleftrightarrow>
     length (cells (lines_ptr di)) = unat (lines_capacity di) \<and>
     filled (unat (lines_count di)) (lines_ptr di) \<and>
     8 * unat (lines_capacity di) < 2 ^ 63 \<and>
     unat (lines_count di) = 2 * length (remdups_adj (line_list di)) \<and>
     (line_runs di = [] \<or> snd (last (line_runs di)) \<noteq> 0) \<and>
     unat (lines_capacity di) =
       (if line_list di = [] then 0 else 2 ^ (length (remdups_adj (line_list di)) + 2))"

lemma lines_okD:
  assumes "lines_ok di"
  shows "length (cells (lines_ptr di)) = unat (lines_capacity di)"
    and "filled (unat (lines_count di)) (lines_ptr di)"
    and "8 * unat (lines_capacity di) < 2 ^ 63"
    and "unat (lines_count di) = 2 * length (remdups_adj (line_list di))"
    and "line_list di = [] \<Longrightarrow> lines_capacity di = 0"
    and "line_list di \<noteq> [] \<Longrightarrow>
      unat (lines_capacity di) = 2 ^ (length (remdups_adj (line_list di)) + 2)"
  using assms unfolding lines_ok_def by (auto simp: unat_eq_zero)

lemma pair_up_append:
  "even (length xs) \<Longrightarrow> pair_up (xs @ ys) = pair_up xs @ pair_up ys"
  by (induction xs rule: pair_up.induct) auto

lemma pair_up_snoc:
  "even (length xs) \<Longrightarrow> pair_up (xs @ [a, b]) = pair_up xs @ [(a, b)]"
  by (simp add: pair_up_append)

lemma expand_runs_simps [simp]:
  "expand_runs [] = []"
  "expand_runs (rs @ [(line, n)]) = expand_runs rs @ replicate (unat n) line"
  "expand_runs ((line, n) # rs) = replicate (unat n) line @ expand_runs rs"
  by (simp_all add: expand_runs_def)

lemma remdups_adj_snoc:
  "remdups_adj (xs @ [x]) =
     (if xs \<noteq> [] \<and> last xs = x then remdups_adj xs else remdups_adj xs @ [x])"
  by (simp add: remdups_adj_append'' remdups_adj_append')

lemma even_split_last2:
  assumes "length xs = 2 * Suc k"
  obtains ys a b where "xs = ys @ [a, b]" and "length ys = 2 * k"
proof -
  from assms obtain us b where us: "xs = us @ [b]" by (cases xs rule: rev_cases) auto
  with assms obtain ys a where "us = ys @ [a]" by (cases us rule: rev_cases) auto
  with us assms that [of ys a b] show thesis by simp
qed

text \<open>The last run of a non-empty line array.\<close>

lemma lines_ok_last:
  assumes "lines_ok di" and "line_list di \<noteq> []"
  obtains xs line n where
    "first_elems (unat (lines_count di)) (lines_ptr di) = xs @ [line, n]"
    and "unat (lines_count di) = length xs + 2" and "even (length xs)" and "n \<noteq> 0"
    and "line_list di = expand_runs (pair_up xs) @ replicate (unat n) line"
    and "last (line_list di) = line"
proof -
  let ?es = "first_elems (unat (lines_count di)) (lines_ptr di)"
  from assms(2) obtain k where k: "length (remdups_adj (line_list di)) = Suc k"
    by (cases "remdups_adj (line_list di)") auto
  have len: "length ?es = 2 * Suc k" using assms(1) k by (auto simp: lines_ok_def)
  then obtain xs line n where es: "?es = xs @ [line, n]" and xs: "length xs = 2 * k"
    by (rule even_split_last2)
  have runs: "line_runs di = pair_up xs @ [(line, n)]"
    using es xs by (simp add: line_runs_def array_elems_first pair_up_snoc)
  then have n: "n \<noteq> 0" using assms(1) by (simp add: lines_ok_def)
  have list: "line_list di = expand_runs (pair_up xs) @ replicate (unat n) line"
    using runs by (simp add: line_list_def)
  then have "last (line_list di) = line" using n by (simp add: unat_eq_zero)
  with es xs n list k assms(1) that [of xs line n] show thesis by (auto simp: lines_ok_def)
qed

lemma unat_minus_size: "m \<le> n \<Longrightarrow> unat (n - m :: size_t) = unat n - unat m"
  by (rule unat_sub)

lemma same_line_test:
  assumes ok: "lines_ok di"
  shows "debug_info_same_line line di = Inr (line_list di \<noteq> [] \<and> last (line_list di) = line)"
proof (cases "line_list di = []")
  case True
  with ok have "lines_capacity di = 0" by (simp add: lines_ok_def unat_eq_zero)
  with True show ?thesis by (simp add: debug_info_same_line_def)
next
  case False
  with ok obtain xs l n where es: "first_elems (unat (lines_count di)) (lines_ptr di) = xs @ [l, n]"
    and cnt: "unat (lines_count di) = length xs + 2" and last: "last (line_list di) = l"
    by (rule lines_ok_last)
  have cap: "lines_capacity di \<noteq> 0" using ok False by (auto simp: lines_ok_def)
  have "2 \<le> lines_count di" using cnt by (simp add: word_le_nat_alt)
  then have idx: "unat (lines_count di - 2) = length xs" using cnt by (simp add: unat_minus_size)
  have "buffer_read (lines_ptr di) (length xs) = Inr l"
    using buffer_read_filled [OF lines_okD(2) [OF ok], of "length xs"] es cnt by simp
  with False cap idx last show ?thesis by (simp add: debug_info_same_line_def)
qed

lemma add_line_same:
  assumes ok: "lines_ok di" and ne: "line_list di \<noteq> []" and last: "last (line_list di) = line"
    and len: "length (line_list di) < 2 ^ 64 - 1"
  obtains p where "debug_info_add_line line (di, h) = Inr (di\<lparr>lines_ptr := p\<rparr>, h)"
    and "lines_ok (di\<lparr>lines_ptr := p\<rparr>)"
    and "line_list (di\<lparr>lines_ptr := p\<rparr>) = line_list di @ [line]"
    and "addrs p = addrs (lines_ptr di)"
proof -
  let ?c = "unat (lines_count di)"
  from ok ne obtain xs l n where es: "first_elems ?c (lines_ptr di) = xs @ [l, n]"
    and cnt: "?c = length xs + 2" and even: "even (length xs)" and n: "n \<noteq> 0"
    and list: "line_list di = expand_runs (pair_up xs) @ replicate (unat n) l"
    and "last (line_list di) = l"
    by (rule lines_ok_last)
  with last have l: "l = line" by simp
  have fill: "filled ?c (lines_ptr di)" by (rule lines_okD(2) [OF ok])
  have "1 \<le> lines_count di" using cnt by (simp add: word_le_nat_alt)
  then have idx: "unat (lines_count di - 1) = Suc (length xs)"
    using cnt by (simp add: unat_minus_size)
  have read: "buffer_read (lines_ptr di) (Suc (length xs)) = Inr n"
    using buffer_read_filled [OF fill, of "Suc (length xs)"] es cnt by (simp add: nth_append)
  have less: "Suc (length xs) < ?c" using cnt by simp
  obtain p where wr: "buffer_write (lines_ptr di) (Suc (length xs)) (n + 1) = Inr p"
    and p: "filled ?c p" "first_elems ?c p = (xs @ [l, n])[Suc (length xs) := n + 1]"
      "length (cells p) = length (cells (lines_ptr di))" "addrs p = addrs (lines_ptr di)"
    by (rule buffer_write_filled [OF fill less, of "n + 1"]) (use es in auto)
  have es': "first_elems ?c p = xs @ [l, n + 1]"
    by (simp add: p(2) list_update_append)
  have "unat n \<le> length (line_list di)" by (simp add: list)
  then have n1: "unat (n + 1) = Suc (unat n)" using len by (simp add: unat_Suc_size)
  have runs: "line_runs (di\<lparr>lines_ptr := p\<rparr>) = pair_up xs @ [(l, n + 1)]"
    using es' even by (simp add: line_runs_def array_elems_first pair_up_snoc)
  have "line_list (di\<lparr>lines_ptr := p\<rparr>) = expand_runs (pair_up xs) @ replicate (unat n) l @ [l]"
    using runs n1 by (simp add: line_list_def replicate_append_same)
  then have list': "line_list (di\<lparr>lines_ptr := p\<rparr>) = line_list di @ [line]"
    using list l by simp
  have "n + 1 \<noteq> 0" using n1 by (metis unat_0 nat.distinct(1))
  then have "lines_ok (di\<lparr>lines_ptr := p\<rparr>)"
    using ok ne last p runs by (simp add: lines_ok_def list' remdups_adj_snoc)
  with ok ne last idx read wr list' p(4) that [of p] show thesis
    by (simp add: debug_info_add_line_def same_line_test)
qed

text \<open>A new line always grows the array.\<close>

lemma add_line_new:
  assumes ok: "lines_ok di" and new: "line_list di = [] \<or> last (line_list di) \<noteq> line"
    and sane: "sane h" and live: "mset (live h) = addrs (lines_ptr di) + F"
  obtains (refused) "debug_info_add_line line (di, h) = Inl error_not_enough_memory"
      and "\<not> host_grants h (requests h) (2 ^ (length (remdups_adj (line_list di)) + 6))"
    | (added) p h' cap where "debug_info_add_line line (di, h) =
        Inr (di\<lparr>lines_capacity := cap, lines_ptr := p, lines_count := lines_count di + 2\<rparr>, h')"
      and "lines_ok (di\<lparr>lines_capacity := cap, lines_ptr := p, lines_count := lines_count di + 2\<rparr>)"
      and "line_list (di\<lparr>lines_capacity := cap, lines_ptr := p, lines_count := lines_count di + 2\<rparr>)
        = line_list di @ [line]"
      and "host_grants h' = host_grants h" and "mset (live h') = addrs p + F"
      and "requests h' = Suc (requests h)"
proof -
  let ?k = "length (remdups_adj (line_list di))" and ?c = "unat (lines_count di)"
  let ?cap = "grow_capacity (lines_capacity di)"
  let ?bytes = "word_of_nat sizeof_size_t * ?cap :: size_t"
  note okD = lines_okD [OF ok]
  have k0: "line_list di = [] \<longleftrightarrow> ?k = 0" by simp
  have old: "unat (lines_capacity di) = (if ?k = 0 then 0 else 2 ^ (?k + 2))"
    using okD(5,6) by auto
  have "unat (lines_capacity di) < 2 ^ 60" using okD(3) by simp
  then have cap: "unat ?cap = 2 ^ (?k + 3)"
  proof (cases "?k = 0")
    case True
    with old \<open>unat (lines_capacity di) < 2 ^ 60\<close> show ?thesis by (simp add: unat_grow_capacity)
  next
    case False
    then have "(2 :: nat) ^ 3 \<le> 2 ^ (?k + 2)" by (intro power_increasing) auto
    with False old \<open>unat (lines_capacity di) < 2 ^ 60\<close> show ?thesis
      by (simp add: unat_grow_capacity power_add)
  qed
  have k60: "2 ^ (?k + 3) < (2 :: nat) ^ 61" using old okD(3)
    by (auto simp: power_add split: if_splits)
  then have k: "?k < 58" using power_less_imp_less_exp [of "2 :: nat" "?k + 3" 61] by simp
  have "8 * unat ?cap < 2 ^ 64" using cap k60 by simp
  then have bytes: "unat ?bytes = 2 ^ (?k + 6)"
    using cap by (simp add: unat_size_mult sizeof_size_t_def power_add)
  then have nz: "?bytes \<noteq> 0" by (metis power_not_zero unat_0 zero_neq_numeral)
  have test: "lines_capacity di < lines_capacity di + 2"
    using okD(3) by (simp add: word_less_nat_alt unat_size_add)
  have same: "debug_info_same_line line di = Inr False" using ok new by (auto simp: same_line_test)
  from live nz show thesis
  proof (cases rule: grow_array_cases)
    case refused
    show ?thesis
      by (rule that(1)) (use refused test same bytes in \<open>simp_all add: debug_info_add_line_def Let_def\<close>)
  next
    case (granted a h')
    let ?p = "Block a (resize (unat ?cap) (cells (lines_ptr di)))"
    have cells: "unat ?bytes div sizeof_size_t = unat ?cap"
      using bytes cap by (simp add: sizeof_size_t_def power_add)
    have "Suc ?k \<le> 2 ^ ?k" by (rule Suc_leI, rule less_exp)
    then have room: "?c + 2 \<le> unat ?cap" using okD(4) cap by (simp add: power_add)
    have fill: "filled ?c ?p" and elems: "first_elems ?c ?p = first_elems ?c (lines_ptr di)"
      using okD(2) room by (simp_all add: filled_resize first_elems_resize)
    have less: "?c < length (cells ?p)" using room by simp
    obtain p1 where w1: "buffer_write ?p ?c line = Inr p1" and p1: "filled (Suc ?c) p1"
      "first_elems (Suc ?c) p1 = first_elems ?c ?p @ [line]"
      "length (cells p1) = length (cells ?p)" "addrs p1 = addrs ?p"
      by (rule buffer_write_next [OF fill less])
    have less1: "Suc ?c < length (cells p1)" using room p1(3) by simp
    obtain p2 where w2: "buffer_write p1 (Suc ?c) 1 = Inr p2" and p2: "filled (Suc (Suc ?c)) p2"
      "first_elems (Suc (Suc ?c)) p2 = first_elems (Suc ?c) p1 @ [1]"
      "length (cells p2) = length (cells p1)" "addrs p2 = addrs p1"
      by (rule buffer_write_next [OF p1(1) less1])
    have c1: "unat (lines_count di + 1) = Suc ?c" and c2: "unat (lines_count di + 2) = Suc (Suc ?c)"
      using okD(3,4) room cap k60 by (simp_all add: unat_size_add)
    let ?di = "di\<lparr>lines_capacity := ?cap, lines_ptr := p2, lines_count := lines_count di + 2\<rparr>"
    have runs: "line_runs ?di = line_runs di @ [(line, 1)]"
      using p1(2) p2(2) elems c2 okD(2,4)
      by (simp add: line_runs_def array_elems_first pair_up_snoc)
    then have list: "line_list ?di = line_list di @ [line]" by (simp add: line_list_def)
    have rem: "length (remdups_adj (line_list di @ [line])) = Suc ?k"
      using new by (auto simp: remdups_adj_snoc)
    have "unat ?bytes < 2 ^ 63" using granted(4) sane unfolding sane_def by blast
    then have bound: "8 * unat ?cap < 2 ^ 63" using bytes cap by (simp add: power_add)
    have ok': "lines_ok ?di"
      unfolding lines_ok_def list rem runs
      using p1(3) p2(1,3) c2 okD(4) bound cap by (simp add: power_add)
    show ?thesis
      by (rule that(2) [where cap = ?cap and p = p2 and h' = h'])
        (use granted test same cells w1 w2 c1 ok' list p1(4) p2(4) in
          \<open>simp_all add: debug_info_add_line_def Let_def\<close>)
  qed
qed

lemma add_line_cases:
  assumes ok: "lines_ok di" and len: "length (line_list di) < 2 ^ 64 - 1"
    and sane: "sane h" and live: "mset (live h) = addrs (lines_ptr di) + F"
  obtains (refused) "debug_info_add_line line (di, h) = Inl error_not_enough_memory"
    | (added) di' h' where "debug_info_add_line line (di, h) = Inr (di', h')" and "lines_ok di'"
      and "line_list di' = line_list di @ [line]" and "host_grants h' = host_grants h"
      and "mset (live h') = addrs (lines_ptr di') + F"
      and "columns_count di' = columns_count di" and "columns_capacity di' = columns_capacity di"
      and "columns_ptr di' = columns_ptr di"
proof (cases "line_list di \<noteq> [] \<and> last (line_list di) = line")
  case True
  with ok len obtain p where "debug_info_add_line line (di, h) = Inr (di\<lparr>lines_ptr := p\<rparr>, h)"
    and "lines_ok (di\<lparr>lines_ptr := p\<rparr>)"
    and "line_list (di\<lparr>lines_ptr := p\<rparr>) = line_list di @ [line]" and "addrs p = addrs (lines_ptr di)"
    by (metis add_line_same)
  with live show thesis by (intro added [of "di\<lparr>lines_ptr := p\<rparr>" h]) auto
next
  case False
  then have "line_list di = [] \<or> last (line_list di) \<noteq> line" by blast
  from ok this sane live show thesis
  proof (cases rule: add_line_new)
    case refused
    from refused(1) show ?thesis by (rule that(1))
  next
    case (added p h' cap)
    show ?thesis by (rule that(2) [OF added(1-4)]) (use added(5) in simp_all)
  qed
qed

subsection \<open>The debug information as a store\<close>

definition columns_ok :: "DebugInfo \<Rightarrow> bool" where
  "columns_ok di \<longleftrightarrow>
     array_ok sizeof_size_t (columns_capacity di) (columns_count di) (columns_ptr di)"

definition columns_blocks :: "DebugInfo \<Rightarrow> nat multiset" where
  "columns_blocks di = addrs (columns_ptr di)"

interpretation columns: array_store sizeof_size_t
  "\<lambda>di. (columns_count di, columns_capacity di, columns_ptr di)"
  "\<lambda>(cnt, cap, p) di. di\<lparr>columns_count := cnt, columns_capacity := cap, columns_ptr := p\<rparr>"
  debug_info_add_column
  rewrites "columns.wf = columns_ok" and "columns.elems = column_list"
    and "columns.blocks = columns_blocks"
proof -
  show store: "array_store sizeof_size_t
    (\<lambda>di. (columns_count di, columns_capacity di, columns_ptr di))
    (\<lambda>(cnt, cap, p) di. di\<lparr>columns_count := cnt, columns_capacity := cap, columns_ptr := p\<rparr>)
    debug_info_add_column"
    by unfold_locales
      (auto simp: sizeof_size_t_def debug_info_add_column_def array_push_def res_bind_assoc Let_def
        split_def intro!: res_bind_cong)
  show "array_store.wf sizeof_size_t
      (\<lambda>di. (columns_count di, columns_capacity di, columns_ptr di)) = columns_ok"
    by (rule ext) (simp add: array_store.wf_def [OF store] columns_ok_def)
  show "array_store.elems (\<lambda>di. (columns_count di, columns_capacity di, columns_ptr di)) = column_list"
    by (rule ext) (simp add: array_store.elems_def [OF store] column_list_def)
  show "array_store.blocks (\<lambda>di. (columns_count di, columns_capacity di, columns_ptr di))
      = columns_blocks"
    by (rule ext) (simp add: array_store.blocks_def [OF store] columns_blocks_def)
qed

definition debug_ok :: "DebugInfo \<Rightarrow> bool" where
  "debug_ok di \<longleftrightarrow> lines_ok di \<and> columns_ok di \<and>
     length (line_list di) = unat (columns_count di)"

definition debug_list :: "DebugInfo \<Rightarrow> (size_t \<times> size_t) list" where
  "debug_list di = zip (line_list di) (column_list di)"

definition debug_blocks :: "DebugInfo \<Rightarrow> nat multiset" where
  "debug_blocks di = addrs (lines_ptr di) + columns_blocks di"

lemma length_column_list: "columns_ok di \<Longrightarrow> length (column_list di) = unat (columns_count di)"
  by (simp add: columns_ok_def column_list_def array_elems_first array_ok_filled)

lemma add_column_lines:
  assumes "debug_info_add_column column (di, h) = Inr (di', h')"
  shows "lines_count di' = lines_count di" and "lines_capacity di' = lines_capacity di"
    and "lines_ptr di' = lines_ptr di"
  using assms by (auto simp: debug_info_add_column_def Let_def elim!: res_bindE split: if_splits)

lemma debug_add_cases:
  assumes ok: "debug_ok di" and sane: "sane h" and live: "mset (live h) = debug_blocks di + F"
  obtains (refused) "debug_info_add line column (di, h) = Inl error_not_enough_memory"
    | (added) di' h' where "debug_info_add line column (di, h) = Inr (di', h')" and "debug_ok di'"
      and "line_list di' = line_list di @ [line]" and "column_list di' = column_list di @ [column]"
      and "host_grants h' = host_grants h" and "mset (live h') = debug_blocks di' + F"
proof -
  have cols: "columns_ok di" and lines: "lines_ok di"
    and len: "length (line_list di) = unat (columns_count di)"
    using ok by (auto simp: debug_ok_def)
  have "unat (columns_count di) < 2 ^ 64 - 1"
    using cols by (simp add: columns_ok_def array_ok_def sizeof_size_t_def)
  then have small: "length (line_list di) < 2 ^ 64 - 1" using len by simp
  have live1: "mset (live h) = addrs (lines_ptr di) + (columns_blocks di + F)"
    using live by (simp add: debug_blocks_def add.assoc)
  show thesis
  proof (cases rule: add_line_cases [OF lines small sane live1, of line])
    case 1
    with refused show ?thesis by (simp add: debug_info_add_def)
  next
    case (2 di1 h1)
    have cols1: "columns_ok di1" and list1: "column_list di1 = column_list di"
      and blocks1: "columns_blocks di1 = columns_blocks di"
      using cols 2 by (simp_all add: columns_ok_def column_list_def columns_blocks_def)
    have sane1: "sane h1" using sane 2 by (simp add: sane_def)
    have live2: "mset (live h1) = columns_blocks di1 + (addrs (lines_ptr di1) + F)"
      using 2 blocks1 by (simp add: ac_simps)
    show ?thesis
    proof (cases "debug_info_add_column column (di1, h1)")
      case (Inl e)
      with columns.push_fault [OF cols1 sane1 live2 Inl] 2(1) refused show ?thesis
        by (simp add: debug_info_add_def)
    next
      case (Inr t)
      obtain di2 h2 where t: "debug_info_add_column column (di1, h1) = Inr (di2, h2)"
        using Inr by (cases t) auto
      note ret = columns.push_return [OF cols1 sane1 live2 t]
      note same = add_column_lines [OF t]
      have lines2: "line_list di2 = line_list di1" "line_runs di2 = line_runs di1"
        using same by (simp_all add: line_list_def line_runs_def)
      have "lines_ok di2" using 2(2) unfolding lines_ok_def same lines2 .
      moreover have "length (line_list di2) = unat (columns_count di2)"
        using lines2 2(3) len ret length_column_list [of di2] length_column_list [OF cols] list1
        by simp
      ultimately show ?thesis
        using 2 t ret lines2 same list1
        by (intro added [of di2 h2]) (auto simp: debug_info_add_def debug_ok_def debug_blocks_def
            ac_simps)
    qed
  qed
qed

interpretation debug: append_store debug_ok debug_list debug_blocks
  "\<lambda>(line, column). debug_info_add line column"
proof
  fix di h F e di' h' and x :: "size_t \<times> size_t"
  obtain line column where x: "x = (line, column)" by (cases x)
  assume ok: "debug_ok di" and sane: "sane h" and live: "mset (live h) = debug_blocks di + F"
  note cases = debug_add_cases [OF this, of line column thesis for thesis]
  show "(case x of (line, column) \<Rightarrow> debug_info_add line column) (di, h) = Inl e \<Longrightarrow>
      e = error_not_enough_memory"
    by (rule cases) (simp_all add: x)
  have len: "length (line_list di) = length (column_list di)"
    using ok by (simp add: debug_ok_def length_column_list)
  show "(case x of (line, column) \<Rightarrow> debug_info_add line column) (di, h) = Inr (di', h') \<Longrightarrow>
      debug_ok di' \<and> debug_list di' = debug_list di @ [x] \<and> host_grants h' = host_grants h \<and>
      mset (live h') = debug_blocks di' + F"
    by (rule cases) (use len in \<open>auto simp: x debug_list_def\<close>)
qed

lemma debug_info_init_ok [simp]:
  "debug_ok debug_info_init" "debug_list debug_info_init = []" "line_list debug_info_init = []"
  "column_list debug_info_init = []" "debug_blocks debug_info_init = {#}"
  by (simp_all add: debug_ok_def lines_ok_def columns_ok_def debug_list_def debug_blocks_def
      columns_blocks_def line_list_def line_runs_def column_list_def debug_info_init_def filled_def)

lemma debug_list_nth:
  assumes "debug_ok di"
  shows "length (debug_list di) = unat (columns_count di)"
    and "length (line_list di) = unat (columns_count di)"
    and "length (column_list di) = unat (columns_count di)"
    and "map fst (debug_list di) = line_list di" and "map snd (debug_list di) = column_list di"
  using assms by (simp_all add: debug_list_def debug_ok_def length_column_list)

subsection \<open>Reading debug information back\<close>

fun lookup_run :: "(size_t \<times> size_t) list \<Rightarrow> size_t \<Rightarrow> size_t" where
  "lookup_run [] offset = 0"
| "lookup_run ((line, n) # rs) offset = (if n \<le> offset then lookup_run rs (offset - n) else line)"

lemma lookup_run_expand:
  "lookup_run rs offset =
     (if unat offset < length (expand_runs rs) then expand_runs rs ! unat offset else 0)"
  by (induction rs offset rule: lookup_run.induct)
    (auto simp: word_le_nat_alt unat_minus_size nth_append)

lemma pair_up_nth:
  "2 * i + 1 < length xs \<Longrightarrow> pair_up xs ! i = (xs ! (2 * i), xs ! (2 * i + 1))"
  by (induction xs arbitrary: i rule: pair_up.induct) (auto simp: nth_Cons split: nat.splits)

lemma length_pair_up [simp]: "length (pair_up xs) = length xs div 2"
  by (induction xs rule: pair_up.induct) auto

lemma read_line_loop_runs:
  assumes "lines_ok di" and "pos \<le> length (line_runs di)"
  shows "read_line_loop di pos offset = Inr (lookup_run (drop pos (line_runs di)) offset)"
  using assms
proof (induction di pos offset rule: read_line_loop.induct)
  case (1 di pos offset)
  let ?c = "unat (lines_count di)" and ?es = "first_elems (unat (lines_count di)) (lines_ptr di)"
  note ok = "1.prems"(1)
  have fill: "filled ?c (lines_ptr di)" by (rule lines_okD(2) [OF ok])
  have even: "even ?c" by (simp add: lines_okD(4) [OF ok])
  have len: "length ?es = ?c" by (rule length_first_elems [OF fill])
  have runs: "line_runs di = pair_up ?es" by (simp add: line_runs_def array_elems_first)
  show ?case
  proof (cases "pos * 2 < ?c")
    case False
    then show ?thesis using len runs by (simp add: read_line_loop.simps [of di pos])
  next
    case True
    with even have pos: "2 * pos + 1 < ?c" by presburger
    let ?line = "?es ! (2 * pos)" and ?n = "?es ! (2 * pos + 1)"
    have r1: "buffer_read (lines_ptr di) (pos * 2 + 1) = Inr ?n"
      using buffer_read_filled [OF fill pos] by (simp add: mult.commute)
    have r2: "buffer_read (lines_ptr di) (pos * 2) = Inr ?line"
      using buffer_read_filled [OF fill, of "2 * pos"] pos by (simp add: mult.commute)
    have "pos < length (line_runs di)" using pos len runs by simp
    moreover have "line_runs di ! pos = (?line, ?n)" using pos len runs by (simp add: pair_up_nth)
    ultimately have "drop pos (line_runs di) = (?line, ?n) # drop (pos + 1) (line_runs di)"
      and less: "pos + 1 \<le> length (line_runs di)"
      by (simp_all add: Cons_nth_drop_Suc [symmetric])
    with True r1 r2 "1.IH" [OF True r1 _ ok] show ?thesis
      by (simp add: read_line_loop.simps [of di pos])
  qed
qed

theorem read_line_correct:
  assumes "lines_ok di"
  shows "debug_info_read_line di offset =
    Inr (if unat offset < length (line_list di) then line_list di ! unat offset else 0)"
  using read_line_loop_runs [OF assms, of 0 offset]
  by (simp add: debug_info_read_line_def lookup_run_expand line_list_def)

theorem read_column_correct:
  assumes "columns_ok di" and "unat offset < length (column_list di)"
  shows "debug_info_read_column di offset = Inr (column_list di ! unat offset)"
  using assms length_column_list [OF assms(1)] array_ok_filled buffer_read_filled
  by (fastforce simp: debug_info_read_column_def columns_ok_def column_list_def array_elems_first)

subsection \<open>Room\<close>

text \<open>On a generous host only the number of runs of lines is a limit.\<close>

lemma add_line_room:
  assumes ok: "lines_ok di" and len: "length (line_list di) < 2 ^ 64 - 1"
    and sane: "sane h" and gen: "generous h" and live: "mset (live h) = addrs (lines_ptr di) + F"
    and runs: "length (remdups_adj (line_list di @ [line])) < 58"
  shows "\<exists>t. debug_info_add_line line (di, h) = Inr t"
proof (cases "line_list di \<noteq> [] \<and> last (line_list di) = line")
  case True
  with ok len show ?thesis by (metis add_line_same)
next
  case False
  then have new: "line_list di = [] \<or> last (line_list di) \<noteq> line" by blast
  with runs have small: "length (remdups_adj (line_list di)) + 6 < 63"
    by (auto simp: remdups_adj_snoc)
  from ok new sane live show ?thesis
  proof (cases rule: add_line_new)
    case refused
    from generousD [OF gen refused(2)] power_strict_increasing [OF small, of "2 :: nat"]
    show ?thesis by simp
  next
    case (added p h' cap)
    then show ?thesis by blast
  qed
qed

lemma debug_add_room:
  assumes ok: "debug_ok di" and sane: "sane h" and gen: "generous h"
    and live: "mset (live h) = debug_blocks di + F"
    and runs: "length (remdups_adj (line_list di @ [line])) < 58" and len: "length (debug_list di) < 2 ^ 57"
  shows "\<exists>t. debug_info_add line column (di, h) = Inr t"
proof -
  have lines: "lines_ok di" and cols: "columns_ok di" using ok by (simp_all add: debug_ok_def)
  note lens = debug_list_nth(1-3) [OF ok]
  have small: "length (line_list di) < 2 ^ 64 - 1" using len lens by simp
  have live1: "mset (live h) = addrs (lines_ptr di) + (columns_blocks di + F)"
    using live by (simp add: debug_blocks_def add.assoc)
  obtain di1 h1 where add: "debug_info_add_line line (di, h) = Inr (di1, h1)"
    using add_line_room [OF lines small sane gen live1 runs] by auto
  from lines small sane live1 show ?thesis
  proof (cases rule: add_line_cases [where line = line])
    case refused
    with add show ?thesis by simp
  next
    case (added di2 h2)
    with add have cols1: "columns_ok di1" and "column_list di1 = column_list di"
      and live2: "mset (live h1) = columns_blocks di1 + (addrs (lines_ptr di1) + F)"
      and host: "host_grants h1 = host_grants h"
      using cols by (simp_all add: columns_ok_def column_list_def columns_blocks_def ac_simps)
    with len lens have less: "length (column_list di1) < 2 ^ 57" by simp
    have "sane h1" "generous h1" using sane gen host by (simp_all add: sane_def generous_def)
    from columns.push_room [OF cols1 this live2 less, of column] add show ?thesis
      by (simp add: debug_info_add_def)
  qed
qed

lemma length_remdups_adj_append_le:
  "length (remdups_adj xs) \<le> length (remdups_adj (xs @ ys))"
  by (induction ys rule: rev_induct) (simp_all add: remdups_adj_snoc append_assoc [symmetric] del: append_assoc)

text \<open>A whole list of positions fits as long as it has fewer than 58 runs of lines.\<close>

lemma debug_add_all_room:
  assumes "debug_ok di" and "sane h" and "generous h" and "mset (live h) = debug_blocks di + F"
    and "length (remdups_adj (line_list di @ map fst ps)) < 58"
    and "length (debug_list di) + length ps \<le> 2 ^ 57"
  shows "\<exists>t. res_fold (\<lambda>(line, column). debug_info_add line column) ps (di, h) = Inr t"
  using assms
proof (induction ps arbitrary: di h)
  case Nil
  then show ?case by simp
next
  case (Cons p ps)
  obtain line column where p: "p = (line, column)" by (cases p)
  have "length (remdups_adj (line_list di @ [line])) < 58"
    using Cons.prems(5) length_remdups_adj_append_le [of "line_list di @ [line]" "map fst ps"] p by simp
  moreover have "length (debug_list di) < 2 ^ 57" using Cons.prems(6) by simp
  ultimately obtain di1 h1 where add: "debug_info_add line column (di, h) = Inr (di1, h1)"
    using debug_add_room [OF Cons.prems(1-4)] by (metis surj_pair)
  from debug.push_return [OF Cons.prems(1,2,4), of "(line, column)" di1 h1] add
  have one: "debug_ok di1" "debug_list di1 = debug_list di @ [(line, column)]"
    "host_grants h1 = host_grants h" "mset (live h1) = debug_blocks di1 + F" by auto
  then have "line_list di1 = line_list di @ [line]"
    using debug_list_nth(4) [OF one(1)] debug_list_nth(4) [OF Cons.prems(1)] by simp
  with one Cons.prems p have "\<exists>t. res_fold (\<lambda>(line, column). debug_info_add line column) ps (di1, h1) = Inr t"
    by (intro Cons.IH) (simp_all add: sane_def generous_def)
  with add p show ?case by simp
qed

lemma debug_runs_bound:
  assumes "debug_ok di"
  shows "length (remdups_adj (line_list di)) < 58"
proof (cases "line_list di = []")
  case False
  let ?k = "length (remdups_adj (line_list di))"
  from assms have ok: "lines_ok di" by (simp add: debug_ok_def)
  have "8 * (2 :: nat) ^ (?k + 2) < 2 ^ 63" using lines_okD(3,6) [OF ok] False by simp
  then have "(2 :: nat) ^ (?k + 5) < 2 ^ 63" by (simp add: power_add)
  then show ?thesis using power_less_imp_less_exp [of "2 :: nat" "?k + 5" 63] by simp
qed simp

end
