(* ===== verification/Chunks.thy ===== *)
theory Chunks
  imports Debug_Info
begin

text \<open>
  \<^verbatim>\<open>skard-lib/src/chunk.c\<close> and \<^verbatim>\<open>chunk.h\<close>: byte code with its constants and its debug
  information, and the encoding of the instructions that load a constant.
\<close>

unbundle bit_operations_syntax

subsection \<open>Data\<close>

datatype OpCode = OP_RETURN | OP_DUMP | OP_CONSTANT | OP_CONSTANT_LONG | COUNT_OPS

text \<open>The number of an enumerator, as a byte.\<close>

fun op_byte :: "OpCode \<Rightarrow> byte" where
  "op_byte OP_RETURN = 0"
| "op_byte OP_DUMP = 1"
| "op_byte OP_CONSTANT = 2"
| "op_byte OP_CONSTANT_LONG = 3"
| "op_byte COUNT_OPS = 4"

definition SKARD_MAX_CHUNK_CONSTANTS :: size_t where
  "SKARD_MAX_CHUNK_CONSTANTS = 16777216"

record Chunk =
  chunk_count :: size_t
  chunk_capacity :: size_t
  chunk_code_ptr :: "byte buffer"
  constants :: ValueArray
  debug_info :: DebugInfo

definition sizeof_uint8_t :: nat where
  "sizeof_uint8_t = 1"

subsection \<open>Operations\<close>

definition chunk_init :: Chunk where
  "chunk_init =
     \<lparr>chunk_count = 0, chunk_capacity = 0, chunk_code_ptr = Null,
      constants = value_array_init, debug_info = debug_info_init\<rparr>"

definition chunk_free :: "Chunk \<Rightarrow> heap \<Rightarrow> (Chunk \<times> heap) result" where
  "chunk_free chunk h =
     res_bind (debug_info_free (debug_info chunk) h) (\<lambda>(_, h).
     res_bind (value_array_free (constants chunk) h) (\<lambda>(_, h).
     res_bind (free_array sizeof_uint8_t (chunk_code_ptr chunk) h) (\<lambda>(_, h).
       Inr (chunk_init, h))))"

definition chunk_write_byte ::
  "byte \<Rightarrow> size_t \<Rightarrow> size_t \<Rightarrow> Chunk \<times> heap \<Rightarrow> (Chunk \<times> heap) result" where
  "chunk_write_byte b line column = (\<lambda>(chunk, h).
     res_bind
       (if chunk_capacity chunk < chunk_count chunk + 1
        then let capacity = grow_capacity (chunk_capacity chunk)
          in res_bind (grow_array sizeof_uint8_t (chunk_code_ptr chunk) capacity h) (\<lambda>(p, h).
               Inr (chunk\<lparr>chunk_capacity := capacity, chunk_code_ptr := p\<rparr>, h))
        else Inr (chunk, h))
       (\<lambda>(chunk, h).
          res_bind (buffer_write (chunk_code_ptr chunk) (unat (chunk_count chunk)) b) (\<lambda>p.
            let chunk = chunk\<lparr>chunk_code_ptr := p, chunk_count := chunk_count chunk + 1\<rparr>
            in res_bind (debug_info_add line column (debug_info chunk, h)) (\<lambda>(di, h).
                 Inr (chunk\<lparr>debug_info := di\<rparr>, h)))))"

definition chunk_add_constant :: "Value \<Rightarrow> Chunk \<times> heap \<Rightarrow> (size_t \<times> Chunk \<times> heap) result" where
  "chunk_add_constant constant = (\<lambda>(chunk, h).
     res_bind (value_array_add constant (constants chunk, h)) (\<lambda>(values, h).
       Inr (va_count values - 1, chunk\<lparr>constants := values\<rparr>, h)))"

definition chunk_write_op_constant ::
  "Value \<Rightarrow> size_t \<Rightarrow> size_t \<Rightarrow> Chunk \<times> heap \<Rightarrow> (Chunk \<times> heap) result" where
  "chunk_write_op_constant constant line column t =
     res_bind (chunk_add_constant constant t) (\<lambda>(index, t).
       if SKARD_MAX_CHUNK_CONSTANTS \<le> index then Inl error_too_many_constants_in_chunk
       else if index \<le> 255 then
         res_bind (chunk_write_byte (op_byte OP_CONSTANT) line column t)
           (chunk_write_byte (ucast index) line column)
       else
         res_bind (chunk_write_byte (op_byte OP_CONSTANT_LONG) line column t) (\<lambda>t.
         res_bind (chunk_write_byte (ucast (index AND 0xFF)) line column t) (\<lambda>t.
         res_bind (chunk_write_byte (ucast (drop_bit 8 index AND 0xFF)) line column t)
           (chunk_write_byte (ucast (drop_bit 16 index AND 0xFF)) line column))))"

subsection \<open>The code of a chunk as a store\<close>

definition chunk_code_ok :: "Chunk \<Rightarrow> bool" where
  "chunk_code_ok chunk \<longleftrightarrow>
     array_ok sizeof_uint8_t (chunk_capacity chunk) (chunk_count chunk) (chunk_code_ptr chunk)"

definition chunk_code :: "Chunk \<Rightarrow> byte list" where
  "chunk_code chunk = array_elems (chunk_count chunk) (chunk_code_ptr chunk)"

definition chunk_code_blocks :: "Chunk \<Rightarrow> nat multiset" where
  "chunk_code_blocks chunk = addrs (chunk_code_ptr chunk)"

text \<open>The part of \<open>chunk_write_byte\<close> that appends to the code.\<close>

definition push_code :: "byte \<Rightarrow> Chunk \<times> heap \<Rightarrow> (Chunk \<times> heap) result" where
  "push_code b = (\<lambda>(chunk, h).
     res_bind
       (array_push sizeof_uint8_t b
         (chunk_count chunk, chunk_capacity chunk, chunk_code_ptr chunk) h)
       (\<lambda>((cnt, cap, p), h).
          Inr (chunk\<lparr>chunk_count := cnt, chunk_capacity := cap, chunk_code_ptr := p\<rparr>, h)))"

interpretation code: array_store sizeof_uint8_t
  "\<lambda>chunk. (chunk_count chunk, chunk_capacity chunk, chunk_code_ptr chunk)"
  "\<lambda>(cnt, cap, p) chunk. chunk\<lparr>chunk_count := cnt, chunk_capacity := cap, chunk_code_ptr := p\<rparr>"
  push_code
  rewrites "code.wf = chunk_code_ok" and "code.elems = chunk_code"
    and "code.blocks = chunk_code_blocks"
proof -
  show store: "array_store sizeof_uint8_t
    (\<lambda>chunk. (chunk_count chunk, chunk_capacity chunk, chunk_code_ptr chunk))
    (\<lambda>(cnt, cap, p) chunk. chunk\<lparr>chunk_count := cnt, chunk_capacity := cap, chunk_code_ptr := p\<rparr>)
    push_code"
    by unfold_locales
      (auto simp: sizeof_uint8_t_def push_code_def split_def intro!: res_bind_cong)
  show "array_store.wf sizeof_uint8_t
      (\<lambda>chunk. (chunk_count chunk, chunk_capacity chunk, chunk_code_ptr chunk)) = chunk_code_ok"
    by (rule ext) (simp add: array_store.wf_def [OF store] chunk_code_ok_def)
  show "array_store.elems
      (\<lambda>chunk. (chunk_count chunk, chunk_capacity chunk, chunk_code_ptr chunk)) = chunk_code"
    by (rule ext) (simp add: array_store.elems_def [OF store] chunk_code_def)
  show "array_store.blocks
      (\<lambda>chunk. (chunk_count chunk, chunk_capacity chunk, chunk_code_ptr chunk)) = chunk_code_blocks"
    by (rule ext) (simp add: array_store.blocks_def [OF store] chunk_code_blocks_def)
qed

lemma chunk_write_byte_eq:
  "chunk_write_byte b line column t =
     res_bind (push_code b t) (\<lambda>(chunk, h).
       res_bind (debug_info_add line column (debug_info chunk, h)) (\<lambda>(di, h).
         Inr (chunk\<lparr>debug_info := di\<rparr>, h)))"
  by (cases t) (auto simp: chunk_write_byte_def push_code_def array_push_def res_bind_assoc
      Let_def split_def intro!: res_bind_cong)

lemma push_code_rest:
  assumes "push_code b (chunk, h) = Inr (chunk', h')"
  shows "constants chunk' = constants chunk" and "debug_info chunk' = debug_info chunk"
  using assms by (auto simp: push_code_def elim!: res_bindE)

subsection \<open>The chunk as a store\<close>

definition chunk_ok :: "Chunk \<Rightarrow> bool" where
  "chunk_ok chunk \<longleftrightarrow>
     chunk_code_ok chunk \<and> value_array_ok (constants chunk) \<and> debug_ok (debug_info chunk) \<and>
     columns_count (debug_info chunk) = chunk_count chunk"

definition chunk_constants :: "Chunk \<Rightarrow> Value list" where
  "chunk_constants chunk = value_list (constants chunk)"

definition chunk_cells :: "Chunk \<Rightarrow> (byte \<times> size_t \<times> size_t) list" where
  "chunk_cells chunk = zip (chunk_code chunk) (debug_list (debug_info chunk))"

definition chunk_blocks :: "Chunk \<Rightarrow> nat multiset" where
  "chunk_blocks chunk =
     chunk_code_blocks chunk + value_blocks (constants chunk) + debug_blocks (debug_info chunk)"

lemma length_chunk_code: "chunk_code_ok chunk \<Longrightarrow> length (chunk_code chunk) = unat (chunk_count chunk)"
  by (simp add: chunk_code_ok_def chunk_code_def array_elems_first array_ok_filled)

lemma chunk_ok_lengths:
  assumes "chunk_ok chunk"
  shows "length (chunk_code chunk) = unat (chunk_count chunk)"
    and "length (debug_list (debug_info chunk)) = unat (chunk_count chunk)"
    and "length (chunk_cells chunk) = unat (chunk_count chunk)"
    and "map fst (chunk_cells chunk) = chunk_code chunk"
    and "map snd (chunk_cells chunk) = debug_list (debug_info chunk)"
  using assms by (simp_all add: chunk_ok_def length_chunk_code debug_list_nth chunk_cells_def)

lemma chunk_write_byte_cases:
  assumes ok: "chunk_ok chunk" and sane: "sane h" and live: "mset (live h) = chunk_blocks chunk + F"
  obtains (refused) "chunk_write_byte b line column (chunk, h) = Inl error_not_enough_memory"
    | (written) chunk' h' where "chunk_write_byte b line column (chunk, h) = Inr (chunk', h')"
      and "chunk_ok chunk'" and "chunk_cells chunk' = chunk_cells chunk @ [(b, line, column)]"
      and "constants chunk' = constants chunk"
      and "host_grants h' = host_grants h" and "mset (live h') = chunk_blocks chunk' + F"
proof -
  have code: "chunk_code_ok chunk" and vals: "value_array_ok (constants chunk)"
    and debug: "debug_ok (debug_info chunk)"
    and cnt: "columns_count (debug_info chunk) = chunk_count chunk"
    using ok by (auto simp: chunk_ok_def)
  let ?F = "value_blocks (constants chunk) + debug_blocks (debug_info chunk) + F"
  have live1: "mset (live h) = chunk_code_blocks chunk + ?F"
    using live by (simp add: chunk_blocks_def ac_simps)
  show thesis
  proof (cases rule: code.push_cases [OF code sane live1, of b])
    case 1
    with refused show ?thesis by (simp add: chunk_write_byte_eq)
  next
    case (2 a h1)
    obtain chunk1 where chunk1: "push_code b (chunk, h) = Inr (chunk1, h1)" "chunk_code_ok chunk1"
      "chunk_code chunk1 = chunk_code chunk @ [b]" "mset (live h1) = chunk_code_blocks chunk1 + ?F"
      using 2 by blast
    note rest = push_code_rest [OF chunk1(1)]
    have sane1: "sane h1" using sane 2 by (simp add: sane_def)
    let ?F1 = "chunk_code_blocks chunk1 + value_blocks (constants chunk) + F"
    have live2: "mset (live h1) = debug_blocks (debug_info chunk) + ?F1"
      using chunk1(4) by (simp add: ac_simps)
    have lens: "length (chunk_code chunk) = unat (chunk_count chunk)"
      "length (chunk_code chunk1) = unat (chunk_count chunk1)"
      using code chunk1(2) by (simp_all add: length_chunk_code)
    show ?thesis
    proof (cases rule: debug_add_cases [OF debug sane1 live2, of line column])
      case 1
      with refused chunk1 rest show ?thesis by (simp add: chunk_write_byte_eq)
    next
      case (2 di h2)
      let ?chunk = "chunk1\<lparr>debug_info := di\<rparr>"
      have keep: "chunk_code_ok ?chunk" "chunk_code ?chunk = chunk_code chunk1"
        "chunk_code_blocks ?chunk = chunk_code_blocks chunk1"
        using chunk1 by (simp_all add: chunk_code_ok_def chunk_code_def chunk_code_blocks_def)
      have "unat (columns_count di) = unat (chunk_count chunk1)"
        using debug_list_nth(2) [OF 2(2)] debug_list_nth(2) [OF debug] 2(3) cnt lens chunk1(3)
        by simp
      then have "columns_count di = chunk_count chunk1" by (simp add: word_unat_eq_iff)
      then have "chunk_ok ?chunk" using keep(1) vals rest 2(2) by (simp add: chunk_ok_def)
      moreover have "chunk_cells ?chunk = chunk_cells chunk @ [(b, line, column)]"
        using keep 2 chunk1(3) debug cnt lens
        by (simp add: chunk_cells_def debug_list_def debug_list_nth)
      ultimately show ?thesis
        using written [of ?chunk h2] chunk1(1) rest 2 keep \<open>host_grants h1 = host_grants h\<close>
        by (simp add: chunk_write_byte_eq chunk_blocks_def ac_simps)
    qed
  qed
qed

interpretation chunk: append_store chunk_ok chunk_cells chunk_blocks
  "\<lambda>(b, line, column). chunk_write_byte b line column"
proof
  fix chunk h F e chunk' h' and x :: "byte \<times> size_t \<times> size_t"
  obtain b line column where x: "x = (b, line, column)" by (cases x)
  assume "chunk_ok chunk" and "sane h" and "mset (live h) = chunk_blocks chunk + F"
  note cases = chunk_write_byte_cases [OF this, of b line column thesis for thesis]
  show "(case x of (b, line, column) \<Rightarrow> chunk_write_byte b line column) (chunk, h) = Inl e \<Longrightarrow>
      e = error_not_enough_memory"
    by (rule cases) (simp_all add: x)
  show "(case x of (b, line, column) \<Rightarrow> chunk_write_byte b line column) (chunk, h) =
      Inr (chunk', h') \<Longrightarrow>
      chunk_ok chunk' \<and> chunk_cells chunk' = chunk_cells chunk @ [x] \<and>
      host_grants h' = host_grants h \<and> mset (live h') = chunk_blocks chunk' + F"
    by (rule cases) (auto simp: x)
qed

lemma chunk_init_ok [simp]:
  "chunk_ok chunk_init" "chunk_cells chunk_init = []" "chunk_blocks chunk_init = {#}"
  "chunk_code chunk_init = []" "chunk_constants chunk_init = []"
  by (simp_all add: chunk_ok_def chunk_cells_def chunk_blocks_def chunk_code_ok_def
      chunk_code_def chunk_code_blocks_def chunk_constants_def chunk_init_def)
    (simp add: debug_info_init_def)

lemma chunk_write_byte_constants:
  "chunk_write_byte b line column (chunk, h) = Inr (chunk', h') \<Longrightarrow> constants chunk' = constants chunk"
  by (auto simp: chunk_write_byte_eq elim!: res_bindE dest: push_code_rest)

lemma chunk_write_bytes_constants:
  "res_fold (\<lambda>(b, line, column). chunk_write_byte b line column) xs (chunk, h) = Inr (chunk', h') \<Longrightarrow>
    constants chunk' = constants chunk"
  by (induction xs arbitrary: chunk h)
    (auto elim!: res_bindE dest: chunk_write_byte_constants)

subsection \<open>Loading constants\<close>

text \<open>The bytes of the instruction that loads the constant at \<open>index\<close>.\<close>

definition encode_constant :: "size_t \<Rightarrow> byte list" where
  "encode_constant index =
     (if index \<le> 255 then [op_byte OP_CONSTANT, ucast index]
      else [op_byte OP_CONSTANT_LONG, ucast (index AND 0xFF),
        ucast (drop_bit 8 index AND 0xFF), ucast (drop_bit 16 index AND 0xFF)])"

lemma chunk_write_op_constant_eq:
  "chunk_write_op_constant constant line column t =
     res_bind (chunk_add_constant constant t) (\<lambda>(index, t).
       if SKARD_MAX_CHUNK_CONSTANTS \<le> index then Inl error_too_many_constants_in_chunk
       else res_fold (\<lambda>(b, line, column). chunk_write_byte b line column)
         (map (\<lambda>b. (b, line, column)) (encode_constant index)) t)"
  by (auto simp: chunk_write_op_constant_def encode_constant_def split_def intro!: res_bind_cong)

lemma chunk_add_constant_cases:
  assumes ok: "chunk_ok chunk" and sane: "sane h" and live: "mset (live h) = chunk_blocks chunk + F"
  obtains (refused) "chunk_add_constant v (chunk, h) = Inl error_not_enough_memory"
    | (added) chunk' h' where
        "chunk_add_constant v (chunk, h) =
          Inr (word_of_nat (length (chunk_constants chunk)), chunk', h')"
      and "length (chunk_constants chunk) < 2 ^ 59"
      and "chunk_ok chunk'" and "chunk_cells chunk' = chunk_cells chunk"
      and "chunk_constants chunk' = chunk_constants chunk @ [v]"
      and "host_grants h' = host_grants h" and "mset (live h') = chunk_blocks chunk' + F"
proof -
  have vals: "value_array_ok (constants chunk)" using ok by (simp add: chunk_ok_def)
  let ?F = "chunk_code_blocks chunk + debug_blocks (debug_info chunk) + F"
  have live1: "mset (live h) = value_blocks (constants chunk) + ?F"
    using live by (simp add: chunk_blocks_def ac_simps)
  show thesis
  proof (cases rule: va.push_cases [OF vals sane live1, of v])
    case 1
    with refused show ?thesis by (simp add: chunk_add_constant_def)
  next
    case (2 a h1)
    then obtain vs where vs: "value_array_add v (constants chunk, h) = Inr (vs, h1)"
      "value_array_ok vs" "value_list vs = value_list (constants chunk) @ [v]"
      "mset (live h1) = value_blocks vs + ?F" by blast
    have len: "length (value_list vs) = unat (va_count vs)" "unat (va_count vs) < 2 ^ 59"
      using vs(2) by (simp_all add: value_array_ok_def value_list_def array_elems_first
          array_ok_filled) (simp add: array_ok_def sizeof_Value_def)
    then have "unat (va_count vs) = Suc (length (chunk_constants chunk))"
      using vs(3) by (simp add: chunk_constants_def)
    then have "va_count vs - 1 = word_of_nat (length (chunk_constants chunk))"
      by (auto dest: word_of_nat_of_unat)
    with len vs ok \<open>host_grants h1 = host_grants h\<close> show ?thesis
      by (intro added [of "chunk\<lparr>constants := vs\<rparr>" h1])
        (auto simp: chunk_add_constant_def chunk_constants_def chunk_ok_def chunk_cells_def
          chunk_code_def chunk_blocks_def chunk_code_ok_def chunk_code_blocks_def ac_simps)
  qed
qed

lemma write_op_constant_return:
  assumes ok: "chunk_ok chunk" and sane: "sane h" and live: "mset (live h) = chunk_blocks chunk + F"
    and run: "chunk_write_op_constant v line column (chunk, h) = Inr (chunk', h')"
  shows "chunk_ok chunk' \<and> length (chunk_constants chunk) < 16777216 \<and>
    chunk_cells chunk' = chunk_cells chunk @
      map (\<lambda>b. (b, line, column)) (encode_constant (word_of_nat (length (chunk_constants chunk)))) \<and>
    chunk_constants chunk' = chunk_constants chunk @ [v] \<and>
    host_grants h' = host_grants h \<and> mset (live h') = chunk_blocks chunk' + F"
proof -
  let ?n = "length (chunk_constants chunk)"
  from ok sane live show ?thesis
  proof (cases rule: chunk_add_constant_cases [where v = v])
    case refused
    with run show ?thesis by (simp add: chunk_write_op_constant_eq)
  next
    case (added chunk1 h1)
    have sane1: "sane h1" using sane added by (simp add: sane_def)
    have n: "unat (word_of_nat ?n :: size_t) = ?n" using added(2) by (simp add: unat_size_of_nat)
    from run added(1) have less: "\<not> SKARD_MAX_CHUNK_CONSTANTS \<le> word_of_nat ?n"
      and fold: "res_fold (\<lambda>(b, line, column). chunk_write_byte b line column)
        (map (\<lambda>b. (b, line, column)) (encode_constant (word_of_nat ?n))) (chunk1, h1) = Inr (chunk', h')"
      by (auto simp: chunk_write_op_constant_eq split: if_splits)
    from less have "?n < 16777216" by (simp add: SKARD_MAX_CHUNK_CONSTANTS_def word_le_nat_alt n)
    with chunk.push_all_return [OF added(3) sane1 added(7) fold]
      chunk_write_bytes_constants [OF fold] added
    show ?thesis by (simp add: chunk_constants_def)
  qed
qed

lemma write_op_constant_fault:
  assumes ok: "chunk_ok chunk" and sane: "sane h" and live: "mset (live h) = chunk_blocks chunk + F"
    and run: "chunk_write_op_constant v line column (chunk, h) = Inl e"
  shows "e = error_not_enough_memory \<or>
    e = error_too_many_constants_in_chunk \<and> 16777216 \<le> length (chunk_constants chunk)"
proof -
  let ?n = "length (chunk_constants chunk)"
  from ok sane live show ?thesis
  proof (cases rule: chunk_add_constant_cases [where v = v])
    case refused
    with run show ?thesis by (simp add: chunk_write_op_constant_eq)
  next
    case (added chunk1 h1)
    have sane1: "sane h1" using sane added by (simp add: sane_def)
    have n: "unat (word_of_nat ?n :: size_t) = ?n" using added(2) by (simp add: unat_size_of_nat)
    have le: "SKARD_MAX_CHUNK_CONSTANTS \<le> word_of_nat ?n \<longleftrightarrow> 16777216 \<le> ?n"
      by (simp add: SKARD_MAX_CHUNK_CONSTANTS_def word_le_nat_alt n)
    show ?thesis
    proof (cases "16777216 \<le> ?n")
      case True
      with run added(1) le show ?thesis by (simp add: chunk_write_op_constant_eq)
    next
      case False
      with run added(1) le have "res_fold (\<lambda>(b, line, column). chunk_write_byte b line column)
        (map (\<lambda>b. (b, line, column)) (encode_constant (word_of_nat ?n))) (chunk1, h1) = Inl e"
        by (simp add: chunk_write_op_constant_eq)
      with chunk.push_all_fault [OF added(3) sane1 added(7)] show ?thesis by blast
    qed
  qed
qed

subsection \<open>Giving a chunk back\<close>

lemma value_array_free_ok:
  "mset (live h) = value_blocks array + F \<Longrightarrow>
    \<exists>h'. value_array_free array h = Inr (value_array_init, h') \<and> mset (live h') = F \<and>
      host_grants h' = host_grants h"
  using free_array_ok [of h "va_values array" F sizeof_Value]
  by (auto simp: value_array_free_def value_blocks_def)

lemma debug_info_free_ok:
  assumes "mset (live h) = debug_blocks di + F"
  shows "\<exists>h'. debug_info_free di h = Inr (debug_info_init, h') \<and> mset (live h') = F \<and>
    host_grants h' = host_grants h"
proof -
  from assms have "mset (live h) = addrs (lines_ptr di) + (addrs (columns_ptr di) + F)"
    by (simp add: debug_blocks_def columns_blocks_def add.assoc)
  from free_array_ok [OF this, of sizeof_size_t] obtain h1 where
    h1: "free_array sizeof_size_t (lines_ptr di) h = Inr (Null, h1)"
      "mset (live h1) = addrs (columns_ptr di) + F" "host_grants h1 = host_grants h" by blast
  from free_array_ok [OF h1(2), of sizeof_size_t] h1 show ?thesis
    by (auto simp: debug_info_free_def)
qed

lemma chunk_free_ok:
  assumes "mset (live h) = chunk_blocks chunk + F"
  shows "\<exists>h'. chunk_free chunk h = Inr (chunk_init, h') \<and> mset (live h') = F \<and>
    host_grants h' = host_grants h"
proof -
  let ?F = "addrs (chunk_code_ptr chunk) + F"
  from assms have "mset (live h) = debug_blocks (debug_info chunk) + (value_blocks (constants chunk) + ?F)"
    by (simp add: chunk_blocks_def chunk_code_blocks_def ac_simps)
  from debug_info_free_ok [OF this] obtain h1 where
    h1: "debug_info_free (debug_info chunk) h = Inr (debug_info_init, h1)"
      "mset (live h1) = value_blocks (constants chunk) + ?F" "host_grants h1 = host_grants h"
    by blast
  from value_array_free_ok [OF h1(2)] obtain h2 where
    h2: "value_array_free (constants chunk) h1 = Inr (value_array_init, h2)"
      "mset (live h2) = ?F" "host_grants h2 = host_grants h1" by blast
  from free_array_ok [OF h2(2), of sizeof_uint8_t] h1 h2 show ?thesis
    by (auto simp: chunk_free_def)
qed

subsection \<open>Reading an index back\<close>

text \<open>
  The expression \<open>b0 | b1 << 8 | b2 << 16\<close> of the virtual machine and of the disassembler: the
  bytes are promoted to \<open>int\<close>.
\<close>

definition index_of_bytes :: "byte \<Rightarrow> byte \<Rightarrow> byte \<Rightarrow> 32 word" where
  "index_of_bytes b0 b1 b2 = ucast b0 OR push_bit 8 (ucast b1) OR push_bit 16 (ucast b2)"

lemma unat_ucast_byte32: "unat (ucast (b :: byte) :: 32 word) = unat b"
proof -
  have "unat b < 2 ^ 32" using unat_byte_less [of b] by simp
  then show ?thesis by (simp add: unsigned_ucast_eq take_bit_nat_eq_self_iff)
qed

lemma index_of_bytes_unat:
  "unat (index_of_bytes b0 b1 b2) = unat b0 + 256 * unat b1 + 65536 * unat b2"
proof -
  have sum: "index_of_bytes b0 b1 b2 = ucast b0 + push_bit 8 (ucast b1) + push_bit 16 (ucast b2)"
    unfolding index_of_bytes_def
    by (subst disjunctive_add, (auto simp: bit_simps dest: bit_imp_le_length)[1])
      (subst disjunctive_add, (auto simp: bit_simps dest: bit_imp_le_length)[1], simp add: or.assoc)
  have "unat b0 < 256" "unat b1 < 256" "unat b2 < 256"
    by (rule unat_byte_less)+
  then show ?thesis
    unfolding sum by (simp add: push_bit_eq_mult unat_word_ariths unat_ucast_byte32)
qed

lemma unat_low_byte:
  "unat (ucast (drop_bit k i AND 0xFF :: size_t) :: byte) = unat i div 2 ^ k mod 256"
proof -
  have "drop_bit k i AND 0xFF = take_bit 8 (drop_bit k i)"
    by (simp add: take_bit_eq_mask mask_eq_exp_minus_1)
  then show ?thesis
    using unat_size_less [of i]
    by (simp add: unsigned_ucast_eq unsigned_take_bit_eq unsigned_drop_bit_eq take_bit_take_bit)
      (simp add: take_bit_eq_mod drop_bit_eq_div)
qed

lemma encode_constant_cases:
  assumes "n < 16777216"
  obtains (short) b where "encode_constant (word_of_nat n) = [op_byte OP_CONSTANT, b]"
      and "unat b = n"
    | (long) b0 b1 b2 where
        "encode_constant (word_of_nat n) = [op_byte OP_CONSTANT_LONG, b0, b1, b2]"
      and "unat (index_of_bytes b0 b1 b2) = n"
proof -
  let ?i = "word_of_nat n :: size_t"
  have i: "unat ?i = n" using assms by (simp add: unat_size_of_nat)
  show thesis
  proof (cases "?i \<le> 255")
    case True
    then have "n \<le> 255" using i by (simp add: word_le_nat_alt)
    then have "unat (ucast ?i :: byte) = n" using i by (simp add: unsigned_ucast_eq take_bit_eq_mod)
    with True short show ?thesis by (simp add: encode_constant_def)
  next
    case False
    note three_bytes [of n]
    moreover have "n div 65536 mod 256 = n div 65536"
      using assms by (simp add: less_mult_imp_div_less)
    ultimately have "unat (index_of_bytes (ucast (?i AND 0xFF)) (ucast (drop_bit 8 ?i AND 0xFF))
        (ucast (drop_bit 16 ?i AND 0xFF))) = n"
      using unat_low_byte [of 0 ?i] unat_low_byte [of 8 ?i] unat_low_byte [of 16 ?i] i
      by (simp add: index_of_bytes_unat)
    with False long show ?thesis by (simp add: encode_constant_def)
  qed
qed

subsection \<open>Room\<close>

text \<open>On a generous host a chunk takes bytes as long as its debug information does.\<close>

lemma chunk_write_byte_room:
  assumes ok: "chunk_ok chunk" and sane: "sane h" and gen: "generous h"
    and live: "mset (live h) = chunk_blocks chunk + F"
    and runs: "length (remdups_adj (line_list (debug_info chunk) @ [line])) < 58"
    and len: "length (chunk_code chunk) < 2 ^ 57"
  shows "\<exists>t. chunk_write_byte b line column (chunk, h) = Inr t"
proof -
  have code: "chunk_code_ok chunk" and debug: "debug_ok (debug_info chunk)"
    using ok by (auto simp: chunk_ok_def)
  have live1: "mset (live h) = chunk_code_blocks chunk +
      (value_blocks (constants chunk) + debug_blocks (debug_info chunk) + F)"
    using live by (simp add: chunk_blocks_def ac_simps)
  obtain chunk1 h1 where push: "push_code b (chunk, h) = Inr (chunk1, h1)"
    using code.push_room [OF code sane gen live1 len] by (metis surj_pair)
  note rest = push_code_rest [OF push]
  from code.push_return [OF code sane live1 push] have host: "host_grants h1 = host_grants h"
    and live2: "mset (live h1) = debug_blocks (debug_info chunk) +
      (chunk_code_blocks chunk1 + value_blocks (constants chunk) + F)"
    by (simp_all add: ac_simps)
  have "sane h1" "generous h1" using sane gen host by (simp_all add: sane_def generous_def)
  moreover have "length (debug_list (debug_info chunk)) < 2 ^ 57"
    using len chunk_ok_lengths(1,2) [OF ok] by simp
  ultimately obtain t where "debug_info_add line column (debug_info chunk, h1) = Inr t"
    using debug_add_room [OF debug _ _ live2 runs] by blast
  with push rest show ?thesis by (cases t) (simp add: chunk_write_byte_eq)
qed

lemma chunk_write_all_room:
  assumes "chunk_ok chunk" and "sane h" and "generous h" and "mset (live h) = chunk_blocks chunk + F"
    and "length (remdups_adj (line_list (debug_info chunk) @ map (\<lambda>(b, line, column). line) xs)) < 58"
    and "length (chunk_code chunk) + length xs \<le> 2 ^ 57"
  shows "\<exists>t. res_fold (\<lambda>(b, line, column). chunk_write_byte b line column) xs (chunk, h) = Inr t"
  using assms
proof (induction xs arbitrary: chunk h)
  case Nil
  then show ?case by simp
next
  case (Cons x xs)
  obtain b line column where x: "x = (b, line, column)" by (cases x)
  have "length (remdups_adj (line_list (debug_info chunk) @ [line])) < 58"
    using Cons.prems(5) x
      length_remdups_adj_append_le [of "line_list (debug_info chunk) @ [line]" "map (\<lambda>(b, line, column). line) xs"]
    by simp
  moreover have "length (chunk_code chunk) < 2 ^ 57" using Cons.prems(6) by simp
  ultimately obtain chunk1 h1 where wr: "chunk_write_byte b line column (chunk, h) = Inr (chunk1, h1)"
    using chunk_write_byte_room [OF Cons.prems(1-4)] by (metis surj_pair)
  from chunk.push_return [OF Cons.prems(1,2,4), of "(b, line, column)" chunk1 h1] wr
  have one: "chunk_ok chunk1" "chunk_cells chunk1 = chunk_cells chunk @ [(b, line, column)]"
    "host_grants h1 = host_grants h" "mset (live h1) = chunk_blocks chunk1 + F" by auto
  have "chunk_code chunk1 = chunk_code chunk @ [b]"
    "debug_list (debug_info chunk1) = debug_list (debug_info chunk) @ [(line, column)]"
    using chunk_ok_lengths(4,5) [OF one(1)] chunk_ok_lengths(4,5) [OF Cons.prems(1)] one(2) by simp_all
  moreover have "line_list (debug_info chunk1) = line_list (debug_info chunk) @ [line]"
    using debug_list_nth(4) [of "debug_info chunk1"] debug_list_nth(4) [of "debug_info chunk"]
      one(1) Cons.prems(1) calculation by (simp add: chunk_ok_def)
  ultimately have "\<exists>t. res_fold (\<lambda>(b, line, column). chunk_write_byte b line column) xs (chunk1, h1) = Inr t"
    using one Cons.prems x by (intro Cons.IH) (simp_all add: sane_def generous_def)
  with wr x show ?case by simp
qed

lemma length_encode_constant: "length (encode_constant index) \<le> 4"
  by (simp add: encode_constant_def)

lemma remdups_adj_same: "remdups_adj (xs @ map (\<lambda>b. x) (b # bs)) = remdups_adj (xs @ [x])"
proof (induction bs arbitrary: xs)
  case (Cons b bs)
  from Cons.IH [of "xs @ [x]"] remdups_adj_snoc [of "xs @ [x]" x] show ?case by simp
qed simp

lemma write_op_constant_room:
  assumes ok: "chunk_ok chunk" and sane: "sane h" and gen: "generous h"
    and live: "mset (live h) = chunk_blocks chunk + F"
    and runs: "length (remdups_adj (line_list (debug_info chunk) @ [line])) < 58"
    and len: "length (chunk_code chunk) + 4 \<le> 2 ^ 57"
    and few: "length (chunk_constants chunk) < 16777216"
  shows "\<exists>t. chunk_write_op_constant v line column (chunk, h) = Inr t"
proof -
  let ?n = "length (chunk_constants chunk)"
  let ?bytes = "encode_constant (word_of_nat ?n)"
  from ok sane live show ?thesis
  proof (cases rule: chunk_add_constant_cases [where v = v])
    case refused
    have vals: "value_array_ok (constants chunk)" using ok by (simp add: chunk_ok_def)
    have live1: "mset (live h) = value_blocks (constants chunk) +
        (chunk_code_blocks chunk + debug_blocks (debug_info chunk) + F)"
      using live by (simp add: chunk_blocks_def ac_simps)
    have "length (value_list (constants chunk)) < 2 ^ 57" using few by (simp add: chunk_constants_def)
    from va.push_room [OF vals sane gen live1 this, of v] refused show ?thesis
      by (auto simp: chunk_add_constant_def)
  next
    case (added chunk1 h1)
    have cells1: "chunk_code chunk1 = chunk_code chunk"
      "debug_list (debug_info chunk1) = debug_list (debug_info chunk)"
      using chunk_ok_lengths(4,5) [OF added(3)] chunk_ok_lengths(4,5) [OF ok] added(4) by simp_all
    then have lines1: "line_list (debug_info chunk1) = line_list (debug_info chunk)"
      using debug_list_nth(4) [of "debug_info chunk1"] debug_list_nth(4) [of "debug_info chunk"]
        added(3) ok by (simp add: chunk_ok_def)
    have n: "unat (word_of_nat ?n :: size_t) = ?n" using added(2) by (simp add: unat_size_of_nat)
    have le: "\<not> SKARD_MAX_CHUNK_CONSTANTS \<le> word_of_nat ?n"
      using few by (simp add: SKARD_MAX_CHUNK_CONSTANTS_def word_le_nat_alt n)
    obtain b bs where bytes: "?bytes = b # bs" by (cases ?bytes) (auto simp: encode_constant_def split: if_splits)
    have "\<exists>t. res_fold (\<lambda>(b, line, column). chunk_write_byte b line column)
        (map (\<lambda>b. (b, line, column)) ?bytes) (chunk1, h1) = Inr t"
    proof (rule chunk_write_all_room [OF added(3) _ _ added(7)])
      show "sane h1" "generous h1" using sane gen added(6) by (simp_all add: sane_def generous_def)
      show "length (remdups_adj (line_list (debug_info chunk1) @
          map (\<lambda>(b, line, column). line) (map (\<lambda>b. (b, line, column)) ?bytes))) < 58"
        using runs remdups_adj_same [of "line_list (debug_info chunk)" line b bs]
        by (simp add: lines1 bytes comp_def)
      show "length (chunk_code chunk1) + length (map (\<lambda>b. (b, line, column)) ?bytes) \<le> 2 ^ 57"
        using len length_encode_constant [of "word_of_nat ?n"] by (simp add: cells1)
    qed
    with added(1) le show ?thesis by (simp add: chunk_write_op_constant_eq)
  qed
qed

lemma encode_constant_bytes:
  assumes "n < 16777216"
  shows "encode_constant (word_of_nat n) =
    (if n < 256 then [2, word_of_nat n]
     else [3, word_of_nat n, word_of_nat (n div 256), word_of_nat (n div 65536)])"
proof -
  let ?i = "word_of_nat n :: size_t"
  have i: "unat ?i = n" using assms by (simp add: unat_size_of_nat)
  have "ucast (drop_bit k ?i AND 0xFF) = (word_of_nat (n div 2 ^ k) :: byte)" for k
    using unat_low_byte [of k ?i] i by (simp add: word_unat_eq_iff unat_of_nat)
  from this [of 0] this [of 8] this [of 16]
  have "ucast (?i AND 0xFF) = (word_of_nat n :: byte)"
    "ucast (drop_bit 8 ?i AND 0xFF) = (word_of_nat (n div 256) :: byte)"
    "ucast (drop_bit 16 ?i AND 0xFF) = (word_of_nat (n div 65536) :: byte)" by simp_all
  moreover have "?i \<le> 255 \<longleftrightarrow> n < 256" using i by (auto simp: word_le_nat_alt)
  moreover have "ucast ?i = (word_of_nat n :: byte)"
    using i by (simp add: word_unat_eq_iff unsigned_ucast_eq take_bit_eq_mod unat_of_nat)
  ultimately show ?thesis by (simp add: encode_constant_def)
qed

end
