(* ===== verification/Bytecode.thy ===== *)
theory Bytecode
  imports Chunks
begin

text \<open>
  The specification of byte code: a program is a list of instructions, its code the
  concatenation of their encodings. What the virtual machine and the disassembler do is stated
  over programs.
\<close>

datatype instr = Return | Dump | Load nat

fun encode_instr :: "instr \<Rightarrow> byte list" where
  "encode_instr Return = [op_byte OP_RETURN]"
| "encode_instr Dump = [op_byte OP_DUMP]"
| "encode_instr (Load n) = encode_constant (word_of_nat n)"

definition encode_program :: "instr list \<Rightarrow> byte list" where
  "encode_program is = concat (map encode_instr is)"

text \<open>An instruction is admissible with \<open>n\<close> constants when its operand names one of them.\<close>

fun instr_ok :: "nat \<Rightarrow> instr \<Rightarrow> bool" where
  "instr_ok n (Load i) \<longleftrightarrow> i < n \<and> i < 16777216"
| "instr_ok n _ \<longleftrightarrow> True"

definition implements :: "Chunk \<Rightarrow> instr list \<Rightarrow> bool" where
  "implements chunk is \<longleftrightarrow>
     chunk_ok chunk \<and> chunk_code chunk = encode_program is \<and>
     list_all (instr_ok (length (chunk_constants chunk))) is"

lemma encode_program_simps [simp]:
  "encode_program [] = []"
  "encode_program (i # is) = encode_instr i @ encode_program is"
  "encode_program (is @ js) = encode_program is @ encode_program js"
  by (simp_all add: encode_program_def)

lemma encode_instr_nonempty: "encode_instr i \<noteq> []"
  by (cases i) (auto simp: encode_constant_def)

lemma read_code:
  assumes "chunk_ok chunk" and "i < length (chunk_code chunk)"
  shows "buffer_read (chunk_code_ptr chunk) i = Inr (chunk_code chunk ! i)"
  using assms chunk_ok_lengths(1) [OF assms(1)] array_ok_filled buffer_read_filled
  by (fastforce simp: chunk_ok_def chunk_code_ok_def chunk_code_def array_elems_first)

lemma read_constant:
  assumes "chunk_ok chunk" and "i < length (chunk_constants chunk)"
  shows "buffer_read (va_values (constants chunk)) i = Inr (chunk_constants chunk ! i)"
proof -
  have ok: "array_ok sizeof_Value (va_capacity (constants chunk)) (va_count (constants chunk))
      (va_values (constants chunk))"
    using assms(1) by (simp add: chunk_ok_def value_array_ok_def)
  note fill = array_ok_filled [OF ok]
  show ?thesis
    using buffer_read_filled [OF fill, of i] assms(2) length_first_elems [OF fill]
    by (simp add: chunk_constants_def value_list_def array_elems_first)
qed

text \<open>Bytes of the code in front of a rest that is known.\<close>

lemma read_code_at:
  assumes "chunk_ok chunk" and "chunk_code chunk = pre @ bs @ post" and "k < length bs"
  shows "buffer_read (chunk_code_ptr chunk) (length pre + k) = Inr (bs ! k)"
  using read_code [of chunk "length pre + k"] assms by (simp add: nth_append)

subsection \<open>Instructions inside a code\<close>

text \<open>
  The instructions \<open>is\<close> stand at an offset of a chunk's code; what is in front of them and behind
  them need not be instructions.
\<close>

definition code_at :: "Chunk \<Rightarrow> nat \<Rightarrow> instr list \<Rightarrow> bool" where
  "code_at chunk offset is \<longleftrightarrow>
     chunk_ok chunk \<and> list_all (instr_ok (length (chunk_constants chunk))) is \<and>
     (\<exists>pre post. chunk_code chunk = pre @ encode_program is @ post \<and> offset = length pre)"

lemma code_at_ok: "code_at chunk offset is \<Longrightarrow> chunk_ok chunk"
  by (simp add: code_at_def)

lemma implements_code_at:
  "implements chunk (pre @ is) \<Longrightarrow> code_at chunk (length (encode_program pre)) is"
  unfolding implements_def code_at_def by (intro conjI exI [of _ "encode_program pre"] exI [of _ "[]"]) simp_all

lemma implements_code_start: "implements chunk is \<Longrightarrow> code_at chunk 0 is"
  using implements_code_at [of chunk "[]"] by simp

lemma code_at_append:
  assumes "code_at chunk offset (is @ js)"
  shows "code_at chunk offset is" and "code_at chunk (offset + length (encode_program is)) js"
proof -
  obtain pre post where code: "chunk_code chunk = pre @ encode_program is @ encode_program js @ post"
    and offset: "offset = length pre" using assms by (auto simp: code_at_def)
  with assms show "code_at chunk offset is" unfolding code_at_def
    by (intro conjI exI [of _ pre] exI [of _ "encode_program js @ post"]) simp_all
  from assms code offset show "code_at chunk (offset + length (encode_program is)) js" unfolding code_at_def
    by (intro conjI exI [of _ "pre @ encode_program is"] exI [of _ post]) simp_all
qed

lemma code_at_next:
  "code_at chunk offset (i # is) \<Longrightarrow> code_at chunk (offset + length (encode_instr i)) is"
  using code_at_append(2) [of chunk offset "[i]" "is"] by simp

lemma code_at_instr_ok:
  "code_at chunk offset (i # is) \<Longrightarrow> instr_ok (length (chunk_constants chunk)) i"
  by (simp add: code_at_def)

text \<open>What a load looks like in the code: one of two shapes, with the bytes the reader will see.\<close>

lemma code_at_load:
  assumes "code_at chunk offset (Load n # is)"
  obtains (short) b where "encode_instr (Load n) = [op_byte OP_CONSTANT, b]" and "unat b = n"
    | (long) b0 b1 b2 where "encode_instr (Load n) = [op_byte OP_CONSTANT_LONG, b0, b1, b2]"
      and "unat (index_of_bytes b0 b1 b2) = n"
proof -
  have "n < 16777216" using code_at_instr_ok [OF assms] by simp
  then show thesis using that by (cases rule: encode_constant_cases) auto
qed

lemma read_instr:
  assumes "code_at chunk offset (i # is)" and "k < length (encode_instr i)"
  shows "buffer_read (chunk_code_ptr chunk) (offset + k) = Inr (encode_instr i ! k)"
proof -
  obtain pre post where code: "chunk_code chunk = pre @ encode_instr i @ (encode_program is @ post)"
    and "offset = length pre" using assms(1) by (auto simp: code_at_def)
  with read_code_at [OF code_at_ok [OF assms(1)] code assms(2)] show ?thesis by simp
qed

lemma load_constant:
  "code_at chunk offset (Load n # is) \<Longrightarrow>
    buffer_read (va_values (constants chunk)) n = Inr (chunk_constants chunk ! n)"
  using code_at_instr_ok [of chunk offset "Load n" "is"] by (simp add: read_constant code_at_ok)

lemma instr_offset_less:
  assumes "code_at chunk offset (i # is)"
  shows "offset < length (chunk_code chunk)" and "offset < unat (chunk_count chunk)"
    and "unat (word_of_nat offset :: size_t) = offset"
proof -
  have "0 < length (encode_instr i)" using encode_instr_nonempty [of i] by simp
  then show less: "offset < length (chunk_code chunk)" using assms by (auto simp: code_at_def)
  then show count: "offset < unat (chunk_count chunk)"
    using chunk_ok_lengths(1) [OF code_at_ok [OF assms]] by simp
  show "unat (word_of_nat offset :: size_t) = offset"
    using count unat_size_less [of "chunk_count chunk"] by (simp add: unat_size_of_nat)
qed

end
