(* ===== verification/Disassembler.thy ===== *)
theory Disassembler
  imports Bytecode
begin

text \<open>
  \<^verbatim>\<open>skard-lib/src/debug.c\<close>: the text of a chunk's code. Every function returns what it
  prints to the standard output; offsets are natural numbers, they index a block.
\<close>

definition print_instruction_name :: "string \<Rightarrow> string" where
  "print_instruction_name name = pad_right 16 name @ '' | ''"

definition disassemble_unknown_instruction :: "nat \<Rightarrow> string \<times> nat" where
  "disassemble_unknown_instruction offset = (print_instruction_name ''UNKNOWN'', offset + 1)"

definition disassemble_simple_instruction :: "string \<Rightarrow> nat \<Rightarrow> string \<times> nat" where
  "disassemble_simple_instruction name offset = (print_instruction_name name, offset + 1)"

definition disassemble_constant_instruction ::
  "string \<Rightarrow> nat \<Rightarrow> Chunk \<Rightarrow> (string \<times> nat) result" where
  "disassemble_constant_instruction name offset chunk =
     res_bind (buffer_read (chunk_code_ptr chunk) (offset + 1)) (\<lambda>index.
     res_bind (buffer_read (va_values (constants chunk)) (unat index)) (\<lambda>v.
       Inr (print_instruction_name name @ print_zu 7 (ucast index) @ '' | '' @ print_value v,
            offset + 2)))"

definition disassemble_constant_long_instruction ::
  "string \<Rightarrow> nat \<Rightarrow> Chunk \<Rightarrow> (string \<times> nat) result" where
  "disassemble_constant_long_instruction name offset chunk =
     res_bind (buffer_read (chunk_code_ptr chunk) (offset + 1)) (\<lambda>b0.
     res_bind (buffer_read (chunk_code_ptr chunk) (offset + 2)) (\<lambda>b1.
     res_bind (buffer_read (chunk_code_ptr chunk) (offset + 3)) (\<lambda>b2.
       let index = index_of_bytes b0 b1 b2
       in res_bind (buffer_read (va_values (constants chunk)) (unat index)) (\<lambda>v.
         Inr (print_instruction_name name @ print_zu 7 (ucast index) @ '' | '' @ print_value v,
              offset + 4)))))"

definition disassemble_instruction :: "Chunk \<Rightarrow> nat \<Rightarrow> (string \<times> nat) result" where
  "disassemble_instruction chunk offset =
     res_bind (debug_info_read_line (debug_info chunk) (word_of_nat offset)) (\<lambda>line.
     res_bind (debug_info_read_column (debug_info chunk) (word_of_nat offset)) (\<lambda>column.
     res_bind (buffer_read (chunk_code_ptr chunk) offset) (\<lambda>byte.
     res_bind
       (if byte = op_byte OP_RETURN then Inr (disassemble_simple_instruction ''OP_RETURN'' offset)
        else if byte = op_byte OP_DUMP then Inr (disassemble_simple_instruction ''OP_DUMP'' offset)
        else if byte = op_byte OP_CONSTANT
          then disassemble_constant_instruction ''OP_CONSTANT'' offset chunk
        else if byte = op_byte OP_CONSTANT_LONG
          then disassemble_constant_long_instruction ''OP_CONSTANT_LONG'' offset chunk
        else Inr (disassemble_unknown_instruction offset))
       (\<lambda>(text, next_offset).
          Inr (print_zu 6 (word_of_nat offset) @ '' | '' @ print_zu 6 line @ '' | '' @
               print_zu 6 column @ '' | '' @ text, next_offset)))))"

lemma disassemble_instruction_progress:
  "disassemble_instruction chunk offset = Inr (text, next_offset) \<Longrightarrow>
    offset < next_offset \<and> next_offset \<le> offset + 4"
  by (auto simp: disassemble_instruction_def disassemble_simple_instruction_def
      disassemble_unknown_instruction_def disassemble_constant_instruction_def
      disassemble_constant_long_instruction_def Let_def elim!: res_bindE split: if_splits)

function disassemble_loop :: "Chunk \<Rightarrow> nat \<Rightarrow> string result" where
  "disassemble_loop chunk offset =
     (if offset < unat (chunk_count chunk)
      then res_bind (disassemble_instruction chunk offset) (\<lambda>(text, next_offset).
        res_bind (disassemble_loop chunk next_offset) (\<lambda>rest. Inr (text @ [newline] @ rest)))
      else Inr [])"
  by pat_completeness auto
termination
  by (relation "measure (\<lambda>(chunk, offset). unat (chunk_count chunk) - offset)")
    (auto dest: disassemble_instruction_progress)

declare disassemble_loop.simps [simp del]

definition disassemble_rule :: string where
  "disassemble_rule = replicate 61 (CHR ''-'') @ [newline]"

definition disassemble_chunk :: "Chunk \<Rightarrow> string \<Rightarrow> string result" where
  "disassemble_chunk chunk name =
     res_bind (disassemble_loop chunk 0) (\<lambda>text.
       Inr (''DISASSEMBLING CHUNK: '' @ name @ [newline] @
            ''OFFSET |  LINE  | COLUMN |      OPCODE      | OPERAND | VALUE'' @ [newline] @
            disassemble_rule @ text @ disassemble_rule))"

subsection \<open>The text of a program\<close>

definition instr_text :: "Chunk \<Rightarrow> instr \<Rightarrow> string" where
  "instr_text chunk i =
     (case i of
        Return \<Rightarrow> print_instruction_name ''OP_RETURN''
      | Dump \<Rightarrow> print_instruction_name ''OP_DUMP''
      | Load n \<Rightarrow>
          print_instruction_name (if n \<le> 255 then ''OP_CONSTANT'' else ''OP_CONSTANT_LONG'') @
          print_zu 7 (word_of_nat n) @ '' | '' @ print_value (chunk_constants chunk ! n))"

definition line_text :: "Chunk \<Rightarrow> nat \<Rightarrow> instr \<Rightarrow> string" where
  "line_text chunk offset i =
     (case debug_list (debug_info chunk) ! offset of (line, column) \<Rightarrow>
        print_zu 6 (word_of_nat offset) @ '' | '' @ print_zu 6 line @ '' | '' @
        print_zu 6 column @ '' | '' @ instr_text chunk i)"

fun listing :: "Chunk \<Rightarrow> nat \<Rightarrow> instr list \<Rightarrow> string" where
  "listing chunk offset [] = []"
| "listing chunk offset (i # is) =
     line_text chunk offset i @ [newline] @ listing chunk (offset + length (encode_instr i)) is"

lemma encode_instr_long:
  "n < 16777216 \<Longrightarrow> hd (encode_instr (Load n)) =
    (if n \<le> 255 then op_byte OP_CONSTANT else op_byte OP_CONSTANT_LONG)"
  by (simp add: encode_constant_def word_le_nat_alt unat_size_of_nat)

lemma disassemble_instruction_at:
  assumes at: "code_at chunk offset (i # is)"
  shows "disassemble_instruction chunk offset =
    Inr (line_text chunk offset i, offset + length (encode_instr i))"
proof -
  note o = instr_offset_less [OF at]
  have ok: "chunk_ok chunk" by (rule code_at_ok [OF at])
  then have di: "debug_ok (debug_info chunk)"
    and cc: "columns_count (debug_info chunk) = chunk_count chunk"
    by (simp_all add: chunk_ok_def)
  note dn = debug_list_nth [OF di]
  let ?line = "line_list (debug_info chunk) ! offset" and ?column = "column_list (debug_info chunk) ! offset"
  have line: "debug_info_read_line (debug_info chunk) (word_of_nat offset) = Inr ?line"
    using di dn o cc by (simp add: read_line_correct debug_ok_def)
  have column: "debug_info_read_column (debug_info chunk) (word_of_nat offset) = Inr ?column"
    using di dn o cc by (simp add: read_column_correct debug_ok_def)
  have info: "debug_list (debug_info chunk) ! offset = (?line, ?column)"
    using dn o cc by (simp add: debug_list_def)
  note read = read_instr [OF at]
  have first: "buffer_read (chunk_code_ptr chunk) offset = Inr (hd (encode_instr i))"
    using read [of 0] encode_instr_nonempty [of i] by (simp add: hd_conv_nth)
  show ?thesis
  proof (cases i)
    case Return
    with line column info first show ?thesis
      by (simp add: disassemble_instruction_def disassemble_simple_instruction_def line_text_def
          instr_text_def)
  next
    case Dump
    with line column info first show ?thesis
      by (simp add: disassemble_instruction_def disassemble_simple_instruction_def line_text_def
          instr_text_def)
  next
    case (Load n)
    note at' = at [unfolded Load]
    have n: "n < 16777216" using code_at_instr_ok [OF at'] by simp
    note long = encode_instr_long [OF n]
    note val = load_constant [OF at']
    from at' show ?thesis
    proof (cases rule: code_at_load)
      case (short b)
      have "buffer_read (chunk_code_ptr chunk) (offset + 1) = Inr b"
        using read [of 1] Load short by simp
      moreover have "n \<le> 255" using short unat_byte_less [of b] by simp
      moreover have "(ucast b :: size_t) = word_of_nat n" using short(2) by (rule ucast_of_unat)
      ultimately show ?thesis
        using Load line column info first short val
        by (simp add: disassemble_instruction_def disassemble_constant_instruction_def line_text_def
            instr_text_def)
    next
      case (long b0 b1 b2)
      have "buffer_read (chunk_code_ptr chunk) (offset + 1) = Inr b0"
        "buffer_read (chunk_code_ptr chunk) (offset + 2) = Inr b1"
        "buffer_read (chunk_code_ptr chunk) (offset + 3) = Inr b2"
        using read [of 1] read [of 2] read [of 3] Load long by simp_all
      moreover have "\<not> n \<le> 255" using encode_instr_long [OF n] long by (auto split: if_splits)
      moreover have "(ucast (index_of_bytes b0 b1 b2) :: size_t) = word_of_nat n"
        using long(2) by (rule ucast_of_unat)
      ultimately show ?thesis
        using Load line column info first long val
        by (simp add: disassemble_instruction_def disassemble_constant_long_instruction_def
            line_text_def instr_text_def Let_def)
    qed
  qed
qed

lemma disassemble_loop_at:
  "implements chunk (pre @ is) \<Longrightarrow>
    disassemble_loop chunk (length (encode_program pre)) =
      Inr (listing chunk (length (encode_program pre)) is)"
proof (induction "is" arbitrary: pre)
  case Nil
  then have "unat (chunk_count chunk) = length (encode_program pre)"
    using chunk_ok_lengths(1) [of chunk] by (simp add: implements_def)
  then show ?case by (simp add: disassemble_loop.simps)
next
  case (Cons i "is")
  have next_offset: "disassemble_loop chunk (length (encode_program (pre @ [i]))) =
      Inr (listing chunk (length (encode_program (pre @ [i]))) is)"
    using Cons.IH [of "pre @ [i]"] Cons.prems by simp
  from Cons.prems show ?case
    using instr_offset_less(2) [OF implements_code_at [OF Cons.prems]]
      disassemble_instruction_at [OF implements_code_at [OF Cons.prems]] next_offset
    by (simp add: disassemble_loop.simps [of chunk "length (encode_program pre)"])
qed

theorem disassemble_chunk_text:
  assumes "implements chunk is"
  shows "disassemble_chunk chunk name =
    Inr (''DISASSEMBLING CHUNK: '' @ name @ [newline] @
         ''OFFSET |  LINE  | COLUMN |      OPCODE      | OPERAND | VALUE'' @ [newline] @
         disassemble_rule @ listing chunk 0 is @ disassemble_rule)"
  using disassemble_loop_at [of chunk "[]" "is"] assms by (simp add: disassemble_chunk_def)

end
