(* ===== verification/Machine.thy ===== *)
theory Machine
  imports Disassembler
begin

text \<open>
  \<^verbatim>\<open>skard-lib/src/vm.c\<close> and \<^verbatim>\<open>vm.h\<close>: the value stack and the interpreter loop.
\<close>

subsection \<open>The stack\<close>

text \<open>
  \<open>stack_top\<close> is the distance of the pointer \<open>stack_top\<close> from the pointer \<open>stack\<close>, in
  values; it is \<open>0\<close> for the two null pointers of an empty stack.
\<close>

record VMStack =
  stack_capacity :: size_t
  stack_ptr :: "Value buffer"
  stack_top :: size_t

definition SKARD_VM_STACK_MIN_SIZE :: size_t where
  "SKARD_VM_STACK_MIN_SIZE = 256"

definition vm_stack_init :: VMStack where
  "vm_stack_init = \<lparr>stack_capacity = 0, stack_ptr = Null, stack_top = 0\<rparr>"

definition vm_stack_free :: "VMStack \<Rightarrow> heap \<Rightarrow> (VMStack \<times> heap) result" where
  "vm_stack_free stack h =
     res_bind (free_array sizeof_Value (stack_ptr stack) h) (\<lambda>(_, h). Inr (vm_stack_init, h))"

definition vm_stack_push :: "Value \<Rightarrow> VMStack \<times> heap \<Rightarrow> (VMStack \<times> heap) result" where
  "vm_stack_push v = (\<lambda>(stack, h).
     let offset = stack_top stack
     in res_bind
       (if offset = stack_capacity stack
        then let capacity = (if stack_capacity stack < SKARD_VM_STACK_MIN_SIZE
                then SKARD_VM_STACK_MIN_SIZE else 2 * stack_capacity stack)
          in res_bind (grow_array sizeof_Value (stack_ptr stack) capacity h) (\<lambda>(p, h).
               Inr (stack\<lparr>stack_capacity := capacity, stack_ptr := p, stack_top := offset\<rparr>, h))
        else Inr (stack, h))
       (\<lambda>(stack, h).
          res_bind (buffer_write (stack_ptr stack) (unat (stack_top stack)) v) (\<lambda>p.
            Inr (stack\<lparr>stack_ptr := p, stack_top := stack_top stack + 1\<rparr>, h))))"

text \<open>Moving the pointer in front of the block is undefined behaviour.\<close>

definition vm_stack_pop :: "VMStack \<Rightarrow> (Value \<times> VMStack) result" where
  "vm_stack_pop stack =
     (if stack_top stack = 0 then Inl OutOfBounds
      else let stack = stack\<lparr>stack_top := stack_top stack - 1\<rparr>
        in res_bind (buffer_read (stack_ptr stack) (unat (stack_top stack))) (\<lambda>v. Inr (v, stack)))"

subsection \<open>The machine\<close>

datatype InterpreterResult = INTERPRETER_OK | INTERPRETER_NOK_RUNTIME

text \<open>
  \<open>vm_ip\<close> is the distance of the instruction pointer from the start of the chunk's code.
  \<open>vm_init\<close> leaves the chunk and the instruction pointer as they are.
\<close>

record SkardVM =
  vm_chunk :: Chunk
  vm_ip :: nat
  vm_stack :: VMStack

definition vm_init :: "SkardVM \<Rightarrow> SkardVM" where
  "vm_init vm = vm\<lparr>vm_stack := vm_stack_init\<rparr>"

definition vm_free :: "SkardVM \<Rightarrow> heap \<Rightarrow> (SkardVM \<times> heap) result" where
  "vm_free vm h =
     res_bind (vm_stack_free (vm_stack vm) h) (\<lambda>(stack, h). Inr (vm\<lparr>vm_stack := stack\<rparr>, h))"

subsection \<open>Tracing\<close>

fun print_stack_values :: "VMStack \<Rightarrow> nat list \<Rightarrow> string result" where
  "print_stack_values stack [] = Inr []"
| "print_stack_values stack (i # is) =
     res_bind (buffer_read (stack_ptr stack) i) (\<lambda>v.
     res_bind (print_stack_values stack is) (\<lambda>rest.
       Inr (''[ '' @ print_value v @ '' ]'' @ rest)))"

definition vm_debug_print_stack :: "SkardVM \<Rightarrow> string result" where
  "vm_debug_print_stack vm =
     res_bind (print_stack_values (vm_stack vm) [0..<unat (stack_top (vm_stack vm))]) (\<lambda>text.
       Inr (''{ '' @ text @ '' }''))"

definition vm_debug_trace :: "SkardVM \<Rightarrow> string result" where
  "vm_debug_trace vm =
     res_bind (vm_debug_print_stack vm) (\<lambda>stack_text.
     res_bind (disassemble_instruction (vm_chunk vm) (vm_ip vm)) (\<lambda>(text, _).
       Inr (stack_text @ [newline] @ text @ [newline])))"

subsection \<open>The interpreter loop\<close>

definition read_byte :: "SkardVM \<Rightarrow> (byte \<times> SkardVM) result" where
  "read_byte vm =
     res_bind (buffer_read (chunk_code_ptr (vm_chunk vm)) (vm_ip vm)) (\<lambda>b.
       Inr (b, vm\<lparr>vm_ip := vm_ip vm + 1\<rparr>))"

definition read_constant_op :: "SkardVM \<Rightarrow> (Value \<times> SkardVM) result" where
  "read_constant_op vm =
     res_bind (read_byte vm) (\<lambda>(b, vm).
     res_bind (buffer_read (va_values (constants (vm_chunk vm))) (unat b)) (\<lambda>v. Inr (v, vm)))"

definition read_constant_long_op :: "SkardVM \<Rightarrow> (Value \<times> SkardVM) result" where
  "read_constant_long_op vm =
     (let code = chunk_code_ptr (vm_chunk vm); vm = vm\<lparr>vm_ip := vm_ip vm + 3\<rparr>
      in res_bind (buffer_read code (vm_ip vm - 3)) (\<lambda>b0.
         res_bind (buffer_read code (vm_ip vm - 2)) (\<lambda>b1.
         res_bind (buffer_read code (vm_ip vm - 1)) (\<lambda>b2.
         res_bind (buffer_read (va_values (constants (vm_chunk vm)))
             (unat (index_of_bytes b0 b1 b2))) (\<lambda>v. Inr (v, vm))))))"

text \<open>
  One turn of the loop: what it prints and either the result of the function or the machine
  to go on with. \<open>trace\<close> says whether \<open>SKARD_DEBUG_TRACE\<close> is defined.
\<close>

definition vm_step ::
  "bool \<Rightarrow> SkardVM \<times> heap \<Rightarrow> (string \<times> InterpreterResult option \<times> SkardVM \<times> heap) result" where
  "vm_step trace = (\<lambda>(vm, h).
     res_bind (if trace then vm_debug_trace vm else Inr []) (\<lambda>traced.
     res_bind (read_byte vm) (\<lambda>(b, vm).
       if b = op_byte OP_RETURN then Inr (traced, Some INTERPRETER_OK, vm, h)
       else if b = op_byte OP_DUMP then
         res_bind (vm_stack_pop (vm_stack vm)) (\<lambda>(v, stack).
           Inr (traced @ print_value v @ [newline], None, vm\<lparr>vm_stack := stack\<rparr>, h))
       else if b = op_byte OP_CONSTANT then
         res_bind (read_constant_op vm) (\<lambda>(v, vm).
         res_bind (vm_stack_push v (vm_stack vm, h)) (\<lambda>(stack, h).
           Inr (traced, None, vm\<lparr>vm_stack := stack\<rparr>, h)))
       else if b = op_byte OP_CONSTANT_LONG then
         res_bind (read_constant_long_op vm) (\<lambda>(v, vm).
         res_bind (vm_stack_push v (vm_stack vm, h)) (\<lambda>(stack, h).
           Inr (traced, None, vm\<lparr>vm_stack := stack\<rparr>, h)))
       else Inr (traced, Some INTERPRETER_NOK_RUNTIME, vm, h))))"

text \<open>Every turn moves the instruction pointer forward inside the block of the code.\<close>

lemma vm_step_progress:
  assumes "vm_step trace (vm, h) = Inr (out, r, vm', h')"
  shows "vm_chunk vm' = vm_chunk vm" and "vm_ip vm < vm_ip vm'"
    and "vm_ip vm < length (cells (chunk_code_ptr (vm_chunk vm)))"
proof -
  have "buffer_read p i = Inr x \<Longrightarrow> i < length (cells p)" for p :: "byte buffer" and i x
    by (auto simp: buffer_read_def split: buffer.splits if_splits)
  then show "vm_chunk vm' = vm_chunk vm" and "vm_ip vm < vm_ip vm'"
    and "vm_ip vm < length (cells (chunk_code_ptr (vm_chunk vm)))"
    using assms
    by (auto simp: vm_step_def read_byte_def read_constant_op_def read_constant_long_op_def Let_def
        elim!: res_bindE split: if_splits)
qed

lemma vm_step_measure:
  "vm_step trace (vm, h) = Inr (out, r, vm', h') \<Longrightarrow>
    length (cells (chunk_code_ptr (vm_chunk vm'))) - vm_ip vm'
      < length (cells (chunk_code_ptr (vm_chunk vm))) - vm_ip vm"
  using vm_step_progress by (metis diff_less_mono2)

function vm_loop ::
  "bool \<Rightarrow> SkardVM \<times> heap \<Rightarrow> (string \<times> InterpreterResult \<times> SkardVM \<times> heap) result" where
  "vm_loop trace (vm, h) =
     res_bind (vm_step trace (vm, h)) (\<lambda>(out, r, vm', h').
       case r of
         Some res \<Rightarrow> Inr (out, res, vm', h')
       | None \<Rightarrow> res_bind (vm_loop trace (vm', h')) (\<lambda>(out', t). Inr (out @ out', t)))"
  by pat_completeness auto
termination
  by (relation "measure (\<lambda>(trace, vm, h).
      length (cells (chunk_code_ptr (vm_chunk vm))) - vm_ip vm)")
    (auto intro: vm_step_measure)

declare vm_loop.simps [simp del]

definition vm_run ::
  "bool \<Rightarrow> SkardVM \<Rightarrow> Chunk \<Rightarrow> heap \<Rightarrow> (string \<times> InterpreterResult \<times> SkardVM \<times> heap) result" where
  "vm_run trace vm chunk h = vm_loop trace (vm\<lparr>vm_chunk := chunk, vm_ip := 0\<rparr>, h)"

subsection \<open>The stack as a store\<close>

definition stack_ok :: "VMStack \<Rightarrow> bool" where
  "stack_ok stack \<longleftrightarrow>
     length (cells (stack_ptr stack)) = unat (stack_capacity stack) \<and>
     filled (unat (stack_top stack)) (stack_ptr stack) \<and>
     sizeof_Value * unat (stack_capacity stack) < 2 ^ 63"

definition stack_list :: "VMStack \<Rightarrow> Value list" where
  "stack_list stack = first_elems (unat (stack_top stack)) (stack_ptr stack)"

definition stack_blocks :: "VMStack \<Rightarrow> nat multiset" where
  "stack_blocks stack = addrs (stack_ptr stack)"

lemma length_stack_list: "stack_ok stack \<Longrightarrow> length (stack_list stack) = unat (stack_top stack)"
  by (simp add: stack_ok_def stack_list_def)

lemma vm_stack_init_ok [simp]:
  "stack_ok vm_stack_init" "stack_list vm_stack_init = []" "stack_blocks vm_stack_init = {#}"
  by (simp_all add: stack_ok_def stack_list_def stack_blocks_def vm_stack_init_def filled_def
      first_elems_def)

text \<open>The assignment through \<open>stack_top\<close> once there is room.\<close>

lemma stack_write:
  assumes "length (cells p) = unat cap" and "filled (unat tp) p" and "unat tp < unat cap"
    and "sizeof_Value * unat cap < 2 ^ 63"
  obtains p' where "buffer_write p (unat tp) v = Inr p'" and "addrs p' = addrs p"
    and "stack_ok \<lparr>stack_capacity = cap, stack_ptr = p', stack_top = tp + 1\<rparr>"
    and "stack_list \<lparr>stack_capacity = cap, stack_ptr = p', stack_top = tp + 1\<rparr> =
      first_elems (unat tp) p @ [v]"
proof -
  have less: "unat tp < length (cells p)" using assms(1,3) by simp
  obtain p' where p': "buffer_write p (unat tp) v = Inr p'" "filled (Suc (unat tp)) p'"
    "first_elems (Suc (unat tp)) p' = first_elems (unat tp) p @ [v]"
    "length (cells p') = length (cells p)" "addrs p' = addrs p"
    by (rule buffer_write_next [OF assms(2) less, of v])
  have "unat (tp + 1) = Suc (unat tp)"
    using assms(3,4) by (simp add: unat_Suc_size sizeof_Value_def)
  with p' assms show thesis
    by (intro that [of p']) (simp_all add: stack_ok_def stack_list_def)
qed

lemma vm_stack_push_cases:
  assumes ok: "stack_ok stack" and sane: "sane h" and live: "mset (live h) = stack_blocks stack + F"
  obtains (refused) "vm_stack_push v (stack, h) = Inl error_not_enough_memory"
      and "\<not> generous h \<or> 2 ^ 57 \<le> length (stack_list stack)"
    | (pushed) stack' h' where "vm_stack_push v (stack, h) = Inr (stack', h')" and "stack_ok stack'"
      and "stack_list stack' = stack_list stack @ [v]" and "host_grants h' = host_grants h"
      and "mset (live h') = stack_blocks stack' + F"
proof -
  obtain cap p tp where stack: "stack = \<lparr>stack_capacity = cap, stack_ptr = p, stack_top = tp\<rparr>"
    by (cases stack)
  have fill: "filled (unat tp) p" and len: "length (cells p) = unat cap"
    and small: "16 * unat cap < 2 ^ 63"
    using ok stack by (simp_all add: stack_ok_def sizeof_Value_def)
  show thesis
  proof (cases "tp = cap")
    case False
    with fill len have less: "unat tp < unat cap" by (auto simp: filled_def word_unat_eq_iff)
    have small1: "sizeof_Value * unat cap < 2 ^ 63" using small by (simp add: sizeof_Value_def)
    obtain p' where "buffer_write p (unat tp) v = Inr p'" "addrs p' = addrs p"
      "stack_ok \<lparr>stack_capacity = cap, stack_ptr = p', stack_top = tp + 1\<rparr>"
      "stack_list \<lparr>stack_capacity = cap, stack_ptr = p', stack_top = tp + 1\<rparr> = first_elems (unat tp) p @ [v]"
      by (rule stack_write [OF len fill less small1])
    with pushed [of "\<lparr>stack_capacity = cap, stack_ptr = p', stack_top = tp + 1\<rparr>" h] live False
    show ?thesis by (simp add: vm_stack_push_def stack stack_blocks_def stack_list_def)
  next
    case True
    define cap' where "cap' = (if cap < SKARD_VM_STACK_MIN_SIZE then SKARD_VM_STACK_MIN_SIZE else 2 * cap)"
    have cap': "unat cap' = (if unat cap < 256 then 256 else 2 * unat cap)"
      using small by (simp add: cap'_def SKARD_VM_STACK_MIN_SIZE_def word_less_nat_alt unat_size_mult)
    let ?bytes = "word_of_nat sizeof_Value * cap' :: size_t"
    have bytes: "unat ?bytes = 16 * unat cap'"
      using small cap' by (simp add: sizeof_Value_def unat_size_mult)
    then have "0 < unat ?bytes" using cap' by (simp split: if_splits)
    then have nz: "?bytes \<noteq> 0" by (metis less_irrefl unat_0)
    have live1: "mset (live h) = addrs p + F" using live stack by (simp add: stack_blocks_def)
    from live1 nz show ?thesis
    proof (cases rule: grow_array_cases)
      case refused
      have "\<not> generous h \<or> 2 ^ 57 \<le> unat tp"
        using generousD [OF _ refused(2)] bytes cap' True by (auto split: if_splits)
      then show ?thesis
        using that(1) refused(1) True length_stack_list [OF ok]
        by (simp add: vm_stack_push_def stack cap'_def Let_def cong: if_cong)
    next
      case (granted a h')
      let ?p = "Block a (resize (unat cap') (cells p))"
      have cells: "unat ?bytes div sizeof_Value = unat cap'" using bytes by (simp add: sizeof_Value_def)
      have "unat ?bytes < 2 ^ 63" using granted(4) sane unfolding sane_def by blast
      then have small': "sizeof_Value * unat cap' < 2 ^ 63" using bytes by (simp add: sizeof_Value_def)
      have less: "unat tp < unat cap'" using cap' True by simp
      have fill': "filled (unat tp) ?p" and elems: "first_elems (unat tp) ?p = first_elems (unat tp) p"
        using fill less by (simp_all add: filled_resize first_elems_resize)
      have len': "length (cells ?p) = unat cap'" by simp
      obtain p' where "buffer_write ?p (unat tp) v = Inr p'" "addrs p' = addrs ?p"
        "stack_ok \<lparr>stack_capacity = cap', stack_ptr = p', stack_top = tp + 1\<rparr>"
        "stack_list \<lparr>stack_capacity = cap', stack_ptr = p', stack_top = tp + 1\<rparr> = first_elems (unat tp) ?p @ [v]"
        by (rule stack_write [OF len' fill' less small'])
      with that(2) [of "\<lparr>stack_capacity = cap', stack_ptr = p', stack_top = tp + 1\<rparr>" h'] granted True
        cells elems
      show ?thesis
        by (simp add: vm_stack_push_def stack stack_blocks_def stack_list_def cap'_def Let_def cong: if_cong)
    qed
  qed
qed

interpretation stack: stack_store stack_ok stack_list stack_blocks vm_stack_push "2 ^ 57" vm_stack_pop
proof
  fix stack h F v e stack' h'
  assume "stack_ok stack" "sane h" "mset (live h) = stack_blocks stack + F"
  note cases = vm_stack_push_cases [OF this, of v thesis for thesis]
  show "vm_stack_push v (stack, h) = Inl e \<Longrightarrow> e = error_not_enough_memory"
    by (rule cases) auto
  show "vm_stack_push v (stack, h) = Inr (stack', h') \<Longrightarrow> stack_ok stack' \<and>
      stack_list stack' = stack_list stack @ [v] \<and> host_grants h' = host_grants h \<and>
      mset (live h') = stack_blocks stack' + F"
    by (rule cases) auto
  show "generous h \<Longrightarrow> length (stack_list stack) < 2 ^ 57 \<Longrightarrow> \<exists>t. vm_stack_push v (stack, h) = Inr t"
    by (rule cases) auto
next
  fix stack
  assume ok: "stack_ok stack"
  show "stack_list stack = [] \<Longrightarrow> vm_stack_pop stack = Inl OutOfBounds"
    using length_stack_list [OF ok] by (simp add: vm_stack_pop_def unat_eq_zero)
  assume nonempty: "stack_list stack \<noteq> []"
  then have "0 < length (stack_list stack)" by simp
  then have ne: "0 < unat (stack_top stack)" by (simp only: length_stack_list [OF ok])
  let ?s = "stack\<lparr>stack_top := stack_top stack - 1\<rparr>"
  have tp: "unat (stack_top stack - 1) = unat (stack_top stack) - 1"
    using ne by (simp add: unat_minus_size word_le_nat_alt)
  have fill: "filled (unat (stack_top stack)) (stack_ptr stack)" using ok by (simp add: stack_ok_def)
  have "stack_list ?s = butlast (stack_list stack)"
    using fill tp by (simp add: stack_list_def first_elems_def map_butlast [symmetric] butlast_take filled_def)
  moreover have "buffer_read (stack_ptr stack) (unat (stack_top stack) - 1) = Inr (last (stack_list stack))"
    using buffer_read_filled [OF fill, of "unat (stack_top stack) - 1"] ne nonempty
      length_stack_list [OF ok]
    by (simp add: stack_list_def last_conv_nth)
  moreover have "stack_ok ?s" using ok tp by (auto simp: stack_ok_def filled_def)
  ultimately show "\<exists>s'. vm_stack_pop stack = Inr (last (stack_list stack), s') \<and> stack_ok s' \<and>
      stack_list s' = butlast (stack_list stack) \<and> stack_blocks s' = stack_blocks stack"
    using ne tp by (intro exI [of _ ?s]) (auto simp: vm_stack_pop_def stack_blocks_def)
qed

end
