(* ===== verification/Execution.thy ===== *)
theory Execution
  imports Machine
begin

text \<open>
  The virtual machine of \<^verbatim>\<open>skard-lib/src/vm.c\<close> against an abstract stack machine over
  instruction lists: a refinement, with the output, the final stack and the heap.
\<close>

subsection \<open>The abstract machine\<close>

text \<open>
  \<open>exec cs is st\<close> runs \<open>is\<close> with the constants \<open>cs\<close> on the stack \<open>st\<close> (its last element is
  on top): the values dumped and the final stack, or \<open>None\<close> when the stack underflows or the
  instructions end without a return.
\<close>

fun exec :: "Value list \<Rightarrow> instr list \<Rightarrow> Value list \<Rightarrow> (Value list \<times> Value list) option" where
  "exec cs [] st = None"
| "exec cs (Return # is) st = Some ([], st)"
| "exec cs (Dump # is) st =
     (if st = [] then None
      else case exec cs is (butlast st) of
        None \<Rightarrow> None
      | Some (out, st') \<Rightarrow> Some (last st # out, st'))"
| "exec cs (Load n # is) st = exec cs is (st @ [cs ! n])"

definition dump_text :: "Value list \<Rightarrow> string" where
  "dump_text vs = concat (map (\<lambda>v. print_value v @ [newline]) vs)"

lemma dump_text_simps [simp]:
  "dump_text [] = []"
  "dump_text (v # vs) = print_value v @ newline # dump_text vs"
  by (simp_all add: dump_text_def)

subsection \<open>Single steps\<close>

text \<open>The machine stands in front of the instructions \<open>is\<close>, wherever they are in the code of its chunk.\<close>

definition at_instr :: "SkardVM \<Rightarrow> instr list \<Rightarrow> bool" where
  "at_instr vm is \<longleftrightarrow> code_at (vm_chunk vm) (vm_ip vm) is"

lemma at_instr_next:
  "at_instr vm (i # is) \<Longrightarrow> vm_chunk vm' = vm_chunk vm \<Longrightarrow>
    vm_ip vm' = vm_ip vm + length (encode_instr i) \<Longrightarrow> at_instr vm' is"
  using code_at_next by (simp add: at_instr_def)

lemma at_instr_start: "implements chunk is \<Longrightarrow> at_instr (vm\<lparr>vm_chunk := chunk, vm_ip := 0\<rparr>) is"
  by (simp add: at_instr_def implements_code_start)

lemma at_instr_read:
  assumes "at_instr vm (i # is)" and "k < length (encode_instr i)"
  shows "buffer_read (chunk_code_ptr (vm_chunk vm)) (vm_ip vm + k) = Inr (encode_instr i ! k)"
  using assms by (simp add: at_instr_def read_instr)

lemma read_byte_at:
  assumes "at_instr vm (i # is)"
  shows "read_byte vm = Inr (hd (encode_instr i), vm\<lparr>vm_ip := vm_ip vm + 1\<rparr>)"
  using at_instr_read [OF assms, of 0] encode_instr_nonempty [of i]
  by (simp add: read_byte_def hd_conv_nth)

lemma step_return:
  "at_instr vm (Return # is) \<Longrightarrow>
    vm_step False (vm, h) = Inr ([], Some INTERPRETER_OK, vm\<lparr>vm_ip := vm_ip vm + 1\<rparr>, h)"
  by (simp add: vm_step_def read_byte_at)

lemma step_dump:
  "at_instr vm (Dump # is) \<Longrightarrow>
    vm_step False (vm, h) = res_bind (vm_stack_pop (vm_stack vm)) (\<lambda>(v, stack).
      Inr (print_value v @ [newline], None, vm\<lparr>vm_ip := vm_ip vm + 1, vm_stack := stack\<rparr>, h))"
  by (simp add: vm_step_def read_byte_at)

lemma step_load:
  assumes at: "at_instr vm (Load n # is)"
  shows "vm_step False (vm, h) =
    res_bind (vm_stack_push (chunk_constants (vm_chunk vm) ! n) (vm_stack vm, h)) (\<lambda>(stack, h).
      Inr ([], None, vm\<lparr>vm_ip := vm_ip vm + length (encode_instr (Load n)), vm_stack := stack\<rparr>, h))"
proof -
  have code: "code_at (vm_chunk vm) (vm_ip vm) (Load n # is)" using at by (simp add: at_instr_def)
  note val = load_constant [OF code]
  note read = at_instr_read [OF at]
  from code show ?thesis
  proof (cases rule: code_at_load)
    case (short b)
    have "buffer_read (chunk_code_ptr (vm_chunk vm)) (vm_ip vm + 1) = Inr b"
      using read [of 1] short by simp
    with val short show ?thesis
      using read_byte_at [OF at] by (simp add: vm_step_def read_constant_op_def read_byte_def)
  next
    case (long b0 b1 b2)
    have "buffer_read (chunk_code_ptr (vm_chunk vm)) (vm_ip vm + 1) = Inr b0"
      "buffer_read (chunk_code_ptr (vm_chunk vm)) (vm_ip vm + 2) = Inr b1"
      "buffer_read (chunk_code_ptr (vm_chunk vm)) (Suc (Suc (Suc (vm_ip vm)))) = Inr b2"
      using read [of 1] read [of 2] read [of 3] long by (simp_all add: numeral_3_eq_3)
    moreover have four: "4 + vm_ip vm = Suc (Suc (Suc (Suc (vm_ip vm))))" by simp
    ultimately show ?thesis
      using read_byte_at [OF at] val long
      by (simp add: vm_step_def read_constant_long_op_def Let_def four)
  qed
qed

subsection \<open>Turns\<close>

text \<open>What an instruction prints on a stack, and the stack it leaves.\<close>

fun printed :: "instr \<Rightarrow> Value list \<Rightarrow> string" where
  "printed Dump st = (if st = [] then [] else print_value (last st) @ [newline])"
| "printed i st = []"

fun stack_after :: "Value list \<Rightarrow> instr \<Rightarrow> Value list \<Rightarrow> Value list" where
  "stack_after cs Return st = st"
| "stack_after cs Dump st = butlast st"
| "stack_after cs (Load n) st = st @ [cs ! n]"

text \<open>Every turn that is completed does this, and keeps the machine and the heap in order.\<close>

lemma step_turn:
  assumes at: "at_instr vm (i # is)" and ok: "stack_ok (vm_stack vm)" and sane: "sane h"
    and live: "mset (live h) = stack_blocks (vm_stack vm) + F"
    and step: "vm_step False (vm, h) = Inr (out, r, vm', h')"
  shows "out = printed i (stack_list (vm_stack vm)) \<and> r = (if i = Return then Some INTERPRETER_OK else None)
    \<and> vm_chunk vm' = vm_chunk vm \<and> vm_ip vm' = vm_ip vm + length (encode_instr i) \<and> stack_ok (vm_stack vm')
    \<and> stack_list (vm_stack vm') = stack_after (chunk_constants (vm_chunk vm)) i (stack_list (vm_stack vm))
    \<and> host_grants h' = host_grants h \<and> mset (live h') = stack_blocks (vm_stack vm') + F"
proof (cases i)
  case Return
  with step step_return [of vm "is" h] at ok live show ?thesis by auto
next
  case Dump
  with step step_dump [of vm "is" h] at obtain v s where
    pop: "vm_stack_pop (vm_stack vm) = Inr (v, s)" and step': "out = print_value v @ [newline]" "r = None"
      "vm' = vm\<lparr>vm_ip := vm_ip vm + 1, vm_stack := s\<rparr>" "h' = h"
    by (cases "vm_stack_pop (vm_stack vm)") auto
  have ne: "stack_list (vm_stack vm) \<noteq> []" using pop stack.pop_empty [OF ok] by auto
  from stack.pop_last [OF ok ne] pop have "v = last (stack_list (vm_stack vm))" "stack_ok s"
    "stack_list s = butlast (stack_list (vm_stack vm))" "stack_blocks s = stack_blocks (vm_stack vm)" by auto
  with step' ne live Dump show ?thesis by simp
next
  case (Load n)
  with step step_load [of vm n "is" h] at obtain s where
    push: "vm_stack_push (chunk_constants (vm_chunk vm) ! n) (vm_stack vm, h) = Inr (s, h')"
    and step': "out = []" "r = None"
      "vm' = vm\<lparr>vm_ip := vm_ip vm + length (encode_instr (Load n)), vm_stack := s\<rparr>"
    by (cases "vm_stack_push (chunk_constants (vm_chunk vm) ! n) (vm_stack vm, h)") auto
  with stack.push_return [OF ok sane live push] Load show ?thesis by simp
qed

lemma step_next:
  assumes "at_instr vm (i # is)" and "stack_ok (vm_stack vm)" and "sane h"
    and "mset (live h) = stack_blocks (vm_stack vm) + F" and "vm_step False (vm, h) = Inr (out, None, vm', h')"
  shows "at_instr vm' is" and "stack_ok (vm_stack vm')" and "sane h'"
    and "mset (live h') = stack_blocks (vm_stack vm') + F"
  using step_turn [OF assms] assms(1,3) at_instr_next [of vm i "is" vm'] by (auto simp: sane_def)

text \<open>The faults of a single turn.\<close>

lemma step_fault:
  assumes at: "at_instr vm (i # is)" and ok: "stack_ok (vm_stack vm)" and sane: "sane h"
    and live: "mset (live h) = stack_blocks (vm_stack vm) + F" and fault: "vm_step False (vm, h) = Inl e"
  shows "(\<exists>n. i = Load n) \<and> e = error_not_enough_memory
      \<and> \<not> (generous h \<and> length (stack_list (vm_stack vm)) < 2 ^ 57)
    \<or> i = Dump \<and> stack_list (vm_stack vm) = [] \<and> e = OutOfBounds"
proof (cases i)
  case Return
  with fault step_return [of vm "is" h] at show ?thesis by simp
next
  case Dump
  with fault step_dump [of vm "is" h] at have pop: "vm_stack_pop (vm_stack vm) = Inl e"
    by (cases "vm_stack_pop (vm_stack vm)") auto
  with stack.pop_last [OF ok] have "stack_list (vm_stack vm) = []" by fastforce
  with pop stack.pop_empty [OF ok] Dump show ?thesis by simp
next
  case (Load n)
  let ?v = "chunk_constants (vm_chunk vm) ! n"
  from Load fault step_load [of vm n "is" h] at have push: "vm_stack_push ?v (vm_stack vm, h) = Inl e"
    by (cases "vm_stack_push ?v (vm_stack vm, h)") auto
  have "\<not> (generous h \<and> length (stack_list (vm_stack vm)) < 2 ^ 57)"
    using stack.push_room [OF ok sane _ live, of ?v] push by auto
  with stack.push_fault [OF ok sane live push] Load show ?thesis by simp
qed

lemma vm_loop_step:
  "vm_step trace (vm, h) = Inr (out, None, vm1, h1) \<Longrightarrow>
    vm_loop trace (vm, h) = res_bind (vm_loop trace (vm1, h1)) (\<lambda>(text, t). Inr (out @ text, t))"
  by (simp add: vm_loop.simps [of trace vm h])

subsection \<open>Stretches of a run\<close>

text \<open>
  The loop comes from \<open>(vm, h)\<close> to the offset \<open>ip\<close>, after dumping \<open>out\<close> and with the stack \<open>st\<close>, and goes
  on from there, unless it exits for lack of memory, which it does not with \<open>room\<close> for the stack on a generous host.
\<close>

definition comes_to :: "bool \<Rightarrow> nat multiset \<Rightarrow> SkardVM \<Rightarrow> heap \<Rightarrow> nat \<Rightarrow> Value list \<Rightarrow> Value list \<Rightarrow> bool" where
  "comes_to room F vm h ip out st \<longleftrightarrow>
     vm_loop False (vm, h) = Inl error_not_enough_memory \<and> \<not> (room \<and> generous h) \<or>
     (\<exists>vm' h'. vm_loop False (vm, h) =
         res_bind (vm_loop False (vm', h')) (\<lambda>(text, t). Inr (dump_text out @ text, t)) \<and>
       vm_chunk vm' = vm_chunk vm \<and> vm_ip vm' = ip \<and> stack_ok (vm_stack vm') \<and>
       stack_list (vm_stack vm') = st \<and> host_grants h' = host_grants h \<and>
       mset (live h') = stack_blocks (vm_stack vm') + F)"

lemma comes_to_start:
  assumes "stack_ok (vm_stack vm)" and "mset (live h) = stack_blocks (vm_stack vm) + F"
  shows "comes_to room F vm h (vm_ip vm) [] (stack_list (vm_stack vm))"
proof -
  have "vm_loop False (vm, h) = res_bind (vm_loop False (vm, h)) (\<lambda>(text, t). Inr (dump_text [] @ text, t))"
    by (cases "vm_loop False (vm, h)") auto
  with assms show ?thesis unfolding comes_to_def by blast
qed

lemma comes_to_step:
  assumes step: "vm_step False (vm, h) = Inr (dump_text out1, None, vm1, h1)"
    and rest: "comes_to room1 F vm1 h1 ip out st" and chunk: "vm_chunk vm1 = vm_chunk vm"
    and grants: "host_grants h1 = host_grants h" and room: "room \<Longrightarrow> room1"
  shows "comes_to room F vm h ip (out1 @ out) st"
proof -
  note loop = vm_loop_step [OF step]
  from rest show ?thesis unfolding comes_to_def [of room1]
  proof (elim disjE exE conjE)
    assume "vm_loop False (vm1, h1) = Inl error_not_enough_memory" "\<not> (room1 \<and> generous h1)"
    with loop grants room show ?thesis by (auto simp: comes_to_def generous_def)
  next
    fix vm' h' assume "vm_loop False (vm1, h1) =
      res_bind (vm_loop False (vm', h')) (\<lambda>(text, t). Inr (dump_text out @ text, t))"
    with loop have "vm_loop False (vm, h) =
      res_bind (vm_loop False (vm', h')) (\<lambda>(text, t). Inr (dump_text (out1 @ out) @ text, t))"
      by (cases "vm_loop False (vm', h')") (auto simp: dump_text_def)
    moreover assume "vm_chunk vm' = vm_chunk vm1" "vm_ip vm' = ip" "stack_ok (vm_stack vm')"
      "stack_list (vm_stack vm') = st" "host_grants h' = host_grants h1"
      "mset (live h') = stack_blocks (vm_stack vm') + F"
    ultimately show ?thesis using chunk grants unfolding comes_to_def by auto
  qed
qed

lemma vm_loop_comes_to:
  assumes "at_instr vm is" and "Return \<notin> set is" and "stack_ok (vm_stack vm)" and "sane h"
    and "mset (live h) = stack_blocks (vm_stack vm) + F"
    and "exec (chunk_constants (vm_chunk vm)) (is @ [Return]) (stack_list (vm_stack vm)) = Some (out, st)"
  shows "comes_to (length (stack_list (vm_stack vm)) + length is \<le> 2 ^ 57) F vm h
    (vm_ip vm + length (encode_program is)) out st"
  using assms
proof (induction "is" arbitrary: vm h out)
  case Nil
  then show ?case using comes_to_start [of vm h F] by simp
next
  case (Cons i "is")
  let ?st = "stack_list (vm_stack vm)"
  let ?cs = "chunk_constants (vm_chunk vm)"
  note state = Cons.prems(1,3-5)
  have i: "i \<noteq> Return" using Cons.prems(2) by auto
  obtain out1 out2 where out: "out = out1 @ out2" "dump_text out1 = printed i ?st" and enough: "i = Dump \<longrightarrow> ?st \<noteq> []"
    and exec: "exec ?cs (is @ [Return]) (stack_after ?cs i ?st) = Some (out2, st)"
  proof (cases i)
    case Dump
    with Cons.prems(6) that [of "[last ?st]"] show thesis by (auto split: if_splits option.splits)
  next
    case (Load n)
    with Cons.prems(6) that [of "[]" out] show thesis by simp
  qed (use i in simp)
  show ?case
  proof (cases "vm_step False (vm, h)")
    case (Inl e)
    with step_fault [OF state Inl] enough show ?thesis
      by (auto simp: comes_to_def vm_loop.simps [of False vm h])
  next
    case (Inr x)
    obtain p r vm' h' where x: "x = (p, r, vm', h')" by (cases x)
    note turn = step_turn [OF state Inr [unfolded x]]
    with Inr x i out(2) have step: "vm_step False (vm, h) = Inr (dump_text out1, None, vm', h')" by simp
    have len: "length (stack_list (vm_stack vm')) \<le> Suc (length ?st)" using turn by (cases i) simp_all
    have "comes_to (length (stack_list (vm_stack vm')) + length is \<le> 2 ^ 57) F vm' h'
        (vm_ip vm' + length (encode_program is)) out2 st"
      by (rule Cons.IH) (use step_next [OF state step] Cons.prems(2) turn exec in auto)
    with comes_to_step [OF step this, of "length ?st + length (i # is) \<le> 2 ^ 57"] turn len out(1)
    show ?thesis by (simp add: add.assoc)
  qed
qed

subsection \<open>Whole runs\<close>

text \<open>An execution stops at the first return.\<close>

lemma exec_stops:
  "exec cs is st = Some (out, st') \<Longrightarrow>
    \<exists>js ks. is = js @ Return # ks \<and> Return \<notin> set js \<and> exec cs (js @ [Return]) st = Some (out, st')"
proof (induction cs "is" st arbitrary: out rule: exec.induct)
  case (2 cs "is" st)
  then show ?case by (intro exI [of _ "[]"] exI [of _ "is"]) simp
next
  case (3 cs "is" st)
  then obtain out1 where ne: "st \<noteq> []" and exec: "exec cs is (butlast st) = Some (out1, st')"
    and out: "out = last st # out1" by (auto split: if_splits option.splits)
  from "3.IH" [OF ne exec] obtain js ks where "is = js @ Return # ks" "Return \<notin> set js"
    "exec cs (js @ [Return]) (butlast st) = Some (out1, st')" by blast
  with ne out show ?case by (intro exI [of _ "Dump # js"] exI [of _ ks]) simp
next
  case (4 cs n "is" st)
  then obtain js ks where "is = js @ Return # ks" "Return \<notin> set js"
    "exec cs (js @ [Return]) (st @ [cs ! n]) = Some (out, st')" by auto
  then show ?case by (intro exI [of _ "Load n # js"] exI [of _ ks]) simp
qed simp

text \<open>
  What a run may come to when the abstract machine answers \<open>(out, st)\<close>: it ends with the result \<open>res\<close>
  behind the offset \<open>ip\<close>.
\<close>

definition run_post ::
  "bool \<Rightarrow> nat multiset \<Rightarrow> SkardVM \<Rightarrow> heap \<Rightarrow> nat \<Rightarrow> InterpreterResult \<Rightarrow> Value list \<times> Value list \<Rightarrow>
    (string \<times> InterpreterResult \<times> SkardVM \<times> heap) result \<Rightarrow> bool" where
  "run_post room F vm h ip res = (\<lambda>(out, st) r.
     case r of
       Inl e \<Rightarrow> e = error_not_enough_memory \<and> \<not> (room \<and> generous h)
     | Inr (text, res', vm', h') \<Rightarrow>
         text = dump_text out \<and> res' = res \<and> vm_chunk vm' = vm_chunk vm \<and> vm_ip vm' = ip + 1 \<and>
         stack_ok (vm_stack vm') \<and> stack_list (vm_stack vm') = st \<and>
         host_grants h' = host_grants h \<and> mset (live h') = stack_blocks (vm_stack vm') + F)"

lemma comes_to_end:
  assumes "comes_to room F vm h ip out st"
    and last_step: "\<And>vm' h'. vm_chunk vm' = vm_chunk vm \<Longrightarrow> vm_ip vm' = ip \<Longrightarrow>
      vm_step False (vm', h') = Inr ([], Some res, vm'\<lparr>vm_ip := vm_ip vm' + 1\<rparr>, h')"
  shows "run_post room F vm h ip res (out, st) (vm_loop False (vm, h))"
proof -
  from assms(1) show ?thesis unfolding comes_to_def
  proof (elim disjE exE conjE)
    fix vm' :: SkardVM and h' assume vm': "vm_chunk vm' = vm_chunk vm" "vm_ip vm' = ip"
    from last_step [OF this] have "vm_loop False (vm', h') = Inr ([], res, vm'\<lparr>vm_ip := ip + 1\<rparr>, h')"
      using vm' by (simp add: vm_loop.simps [of False vm' h'])
    moreover assume "vm_loop False (vm, h) =
        res_bind (vm_loop False (vm', h')) (\<lambda>(text, t). Inr (dump_text out @ text, t))"
      "stack_ok (vm_stack vm')" "stack_list (vm_stack vm') = st" "host_grants h' = host_grants h"
      "mset (live h') = stack_blocks (vm_stack vm') + F"
    ultimately show ?thesis using vm' by (simp add: run_post_def)
  qed (simp add: run_post_def)
qed

lemma vm_loop_refines:
  assumes at: "at_instr vm is" and ok: "stack_ok (vm_stack vm)" and sane: "sane h"
    and live: "mset (live h) = stack_blocks (vm_stack vm) + F"
    and exec: "exec (chunk_constants (vm_chunk vm)) is (stack_list (vm_stack vm)) = Some (out, st)"
  shows "\<exists>ip. run_post (length (stack_list (vm_stack vm)) + length is \<le> 2 ^ 57) F vm h ip INTERPRETER_OK (out, st)
    (vm_loop False (vm, h))"
proof -
  from exec_stops [OF exec] obtain js ks where split: "is = js @ Return # ks" "Return \<notin> set js"
    and exec': "exec (chunk_constants (vm_chunk vm)) (js @ [Return]) (stack_list (vm_stack vm)) = Some (out, st)"
    by blast
  let ?ip = "vm_ip vm + length (encode_program js)"
  have code: "code_at (vm_chunk vm) (vm_ip vm) (js @ Return # ks)" using at split(1) by (simp add: at_instr_def)
  have "at_instr vm js" using code_at_append(1) [OF code] by (simp add: at_instr_def)
  from vm_loop_comes_to [OF this split(2) ok sane live exec']
  have "run_post (length (stack_list (vm_stack vm)) + length js \<le> 2 ^ 57) F vm h ?ip INTERPRETER_OK (out, st)
      (vm_loop False (vm, h))"
    by (rule comes_to_end, intro step_return [of _ ks])
      (use code_at_append(2) [OF code] in \<open>simp add: at_instr_def\<close>)
  then show ?thesis using split(1) by (intro exI [of _ ?ip]) (auto simp: run_post_def split: sum.splits)
qed

lemma vm_run_refines:
  assumes "implements chunk is" and "stack_ok (vm_stack vm)" and "sane h"
    and "mset (live h) = stack_blocks (vm_stack vm) + F"
    and "exec (chunk_constants chunk) is (stack_list (vm_stack vm)) = Some (out, st)"
  shows "\<exists>ip. run_post (length (stack_list (vm_stack vm)) + length is \<le> 2 ^ 57) F
    (vm\<lparr>vm_chunk := chunk, vm_ip := 0\<rparr>) h ip INTERPRETER_OK (out, st) (vm_run False vm chunk h)"
  using vm_loop_refines [OF at_instr_start [OF assms(1)], of vm h F out st] assms by (simp add: vm_run_def)

text \<open>A byte that is no operation code, behind a stretch of instructions.\<close>

lemma step_unknown:
  assumes "chunk_ok (vm_chunk vm)" and "chunk_code (vm_chunk vm) = pre @ b # bs" and "vm_ip vm = length pre" and "3 < b"
  shows "vm_step False (vm, h) = Inr ([], Some INTERPRETER_NOK_RUNTIME, vm\<lparr>vm_ip := vm_ip vm + 1\<rparr>, h)"
proof -
  have "buffer_read (chunk_code_ptr (vm_chunk vm)) (vm_ip vm) = Inr b"
    using read_code_at [of "vm_chunk vm" pre "[b]" bs 0] assms(1-3) by simp
  moreover have "b \<noteq> 0" "b \<noteq> 1" "b \<noteq> 2" "b \<noteq> 3" using assms(4) by (auto simp: word_less_nat_alt)
  ultimately show ?thesis by (simp add: vm_step_def read_byte_def)
qed

lemma vm_run_unknown:
  assumes ok: "chunk_ok chunk" and code: "chunk_code chunk = encode_program is @ b # bs"
    and instrs: "list_all (instr_ok (length (chunk_constants chunk))) is" and unknown: "3 < b" "Return \<notin> set is"
    and state: "stack_ok (vm_stack vm)" "sane h" "mset (live h) = stack_blocks (vm_stack vm) + F"
    and exec: "exec (chunk_constants chunk) (is @ [Return]) (stack_list (vm_stack vm)) = Some (out, st)"
  shows "run_post (length (stack_list (vm_stack vm)) + length is \<le> 2 ^ 57) F (vm\<lparr>vm_chunk := chunk, vm_ip := 0\<rparr>) h
    (length (encode_program is)) INTERPRETER_NOK_RUNTIME (out, st) (vm_run False vm chunk h)"
proof -
  let ?vm = "vm\<lparr>vm_chunk := chunk, vm_ip := 0\<rparr>"
  have "\<exists>pre post. chunk_code chunk = pre @ encode_program is @ post \<and> 0 = length pre"
    by (intro exI [of _ "[]"] exI [of _ "b # bs"]) (simp add: code)
  then have "at_instr ?vm is" using ok instrs by (simp add: at_instr_def code_at_def)
  from vm_loop_comes_to [OF this unknown(2), of h F out st] state exec
  have "comes_to (length (stack_list (vm_stack vm)) + length is \<le> 2 ^ 57) F ?vm h (length (encode_program is)) out st"
    by simp
  then show ?thesis unfolding vm_run_def
    by (rule comes_to_end, intro step_unknown [where b = b and bs = bs]) (use ok code unknown(1) in simp_all)
qed

subsection \<open>Tracing\<close>

text \<open>
  What tracing shows before an instruction at an offset is executed: the stack and the row of the
  disassembler. A run of instructions is the list of its turns, each with what is shown
  and what the instruction itself prints.
\<close>

definition stack_text :: "Value list \<Rightarrow> string" where
  "stack_text st = ''{ '' @ concat (map (\<lambda>v. ''[ '' @ print_value v @ '' ]'') st) @ '' }''"

definition shown :: "Chunk \<Rightarrow> nat \<Rightarrow> instr \<Rightarrow> Value list \<Rightarrow> string" where
  "shown chunk offset i st = stack_text st @ [newline] @ line_text chunk offset i @ [newline]"

fun turns :: "Chunk \<Rightarrow> nat \<Rightarrow> instr list \<Rightarrow> Value list \<Rightarrow> (string \<times> string) list" where
  "turns chunk offset [] st = []"
| "turns chunk offset (i # is) st =
     (shown chunk offset i st, printed i st) #
     (if i = Return then []
      else turns chunk (offset + length (encode_instr i)) is (stack_after (chunk_constants chunk) i st))"

lemma print_stack_values_text:
  "filled n (stack_ptr stack) \<Longrightarrow> list_all (\<lambda>i. i < n) is \<Longrightarrow>
    print_stack_values stack is =
      Inr (concat (map (\<lambda>i. ''[ '' @ print_value (first_elems n (stack_ptr stack) ! i) @ '' ]'') is))"
  by (induction "is") (auto simp: buffer_read_filled)

lemma vm_debug_trace_text:
  assumes at: "at_instr vm (i # is)" and ok: "stack_ok (vm_stack vm)"
  shows "vm_debug_trace vm = Inr (shown (vm_chunk vm) (vm_ip vm) i (stack_list (vm_stack vm)))"
proof -
  let ?n = "unat (stack_top (vm_stack vm))"
  let ?xs = "stack_list (vm_stack vm)"
  let ?show = "\<lambda>v. ''[ '' @ print_value v @ '' ]''"
  have "filled ?n (stack_ptr (vm_stack vm))" using ok by (simp add: stack_ok_def)
  then have "print_stack_values (vm_stack vm) [0..<?n] = Inr (concat (map (\<lambda>k. ?show (?xs ! k)) [0..<?n]))"
    using print_stack_values_text [of ?n "vm_stack vm" "[0..<?n]"] by (simp add: list_all_iff stack_list_def)
  moreover have "map (\<lambda>k. ?show (?xs ! k)) [0..<?n] = map ?show ?xs"
    using length_stack_list [OF ok] by (intro nth_equalityI) simp_all
  moreover have "disassemble_instruction (vm_chunk vm) (vm_ip vm) =
      Inr (line_text (vm_chunk vm) (vm_ip vm) i, vm_ip vm + length (encode_instr i))"
    using at disassemble_instruction_at by (simp add: at_instr_def)
  ultimately show ?thesis
    by (simp add: vm_debug_trace_def vm_debug_print_stack_def shown_def stack_text_def)
qed

text \<open>A turn prints what it shows in front of what it prints without tracing, and does the same.\<close>

lemma vm_step_traced:
  "vm_debug_trace vm = Inr t \<Longrightarrow>
    vm_step True (vm, h) = res_bind (vm_step False (vm, h)) (\<lambda>(out, x). Inr (t @ out, x))"
  by (auto simp: vm_step_def res_bind_assoc split_def Let_def intro!: res_bind_cong)

text \<open>
  The turns \<open>ts\<close> explain two runs: the first prints what the turns print, the second shows and prints,
  and otherwise they are the same.
\<close>

definition explains ::
  "(string \<times> string) list \<Rightarrow> (string \<times> 'a) result \<Rightarrow> (string \<times> 'a) result \<Rightarrow> bool" where
  "explains ts plain traced \<longleftrightarrow>
     (case plain of
        Inl e \<Rightarrow> traced = Inl e
      | Inr (text, t) \<Rightarrow>
          text = concat (map snd ts) \<and> traced = Inr (concat (map (\<lambda>(shows, prints). shows @ prints) ts), t))"

lemma explains_Cons:
  "explains ts plain traced \<Longrightarrow>
    explains ((s, p) # ts) (res_bind plain (\<lambda>(text, t). Inr (p @ text, t)))
      (res_bind traced (\<lambda>(text, t). Inr ((s @ p) @ text, t)))"
  by (cases plain) (auto simp: explains_def)

text \<open>A program that ends in a return never leaves its code.\<close>

lemma vm_loop_traced:
  "at_instr vm is \<Longrightarrow> is \<noteq> [] \<Longrightarrow> last is = Return \<Longrightarrow> stack_ok (vm_stack vm) \<Longrightarrow> sane h \<Longrightarrow>
    mset (live h) = stack_blocks (vm_stack vm) + F \<Longrightarrow>
    explains (turns (vm_chunk vm) (vm_ip vm) is (stack_list (vm_stack vm)))
      (vm_loop False (vm, h)) (vm_loop True (vm, h))"
proof (induction "is" arbitrary: vm h)
  case (Cons i "is")
  let ?st = "stack_list (vm_stack vm)"
  note state = Cons.prems(1,4-6)
  note traced = vm_step_traced [OF vm_debug_trace_text [OF Cons.prems(1,4)], of h]
  show ?case
  proof (cases "vm_step False (vm, h)")
    case (Inl e)
    then show ?thesis using traced by (simp add: vm_loop.simps [of _ vm h] explains_def)
  next
    case (Inr x)
    obtain out r vm' h' where x: "x = (out, r, vm', h')" by (cases x)
    note turn = step_turn [OF state Inr [unfolded x]]
    show ?thesis
    proof (cases "i = Return")
      case True
      with turn traced Inr x show ?thesis by (simp add: vm_loop.simps [of _ vm h] explains_def)
    next
      case False
      with turn Inr x have step: "vm_step False (vm, h) = Inr (printed i ?st, None, vm', h')" by simp
      from step traced have
        step': "vm_step True (vm, h) = Inr (shown (vm_chunk vm) (vm_ip vm) i ?st @ printed i ?st, None, vm', h')"
        by simp
      have "explains (turns (vm_chunk vm') (vm_ip vm') is (stack_list (vm_stack vm')))
          (vm_loop False (vm', h')) (vm_loop True (vm', h'))"
        by (rule Cons.IH) (use step_next [OF state step] Cons.prems(2,3) False in \<open>auto split: if_splits\<close>)
      from explains_Cons [OF this] show ?thesis
        using turn False by (simp add: vm_loop_step [OF step] vm_loop_step [OF step'])
    qed
  qed
qed simp

end
