(* ===== verification/Programs.thy ===== *)
theory Programs
  imports Execution
begin

text \<open>
  Chunks that are written instruction by instruction implement the program that was written,
  and short programs always fit into the memory of a generous host.
\<close>

subsection \<open>Writing programs\<close>

lemma instr_ok_mono: "instr_ok m i \<Longrightarrow> m \<le> n \<Longrightarrow> instr_ok n i"
  by (cases i) auto

lemma implements_init [simp]: "implements chunk_init []"
  by (simp add: implements_def)

text \<open>What the two writing functions append to any chunk.\<close>

lemma write_op_constant_appends:
  assumes ok: "chunk_ok chunk" and "sane h" and "mset (live h) = chunk_blocks chunk + F"
    and "chunk_write_op_constant v line column (chunk, h) = Inr (chunk', h')"
  defines "i \<equiv> Load (length (chunk_constants chunk))"
  shows "chunk_ok chunk'" and "chunk_constants chunk' = chunk_constants chunk @ [v]"
    and "instr_ok (length (chunk_constants chunk')) i"
    and "chunk_code chunk' = chunk_code chunk @ encode_instr i"
    and "debug_list (debug_info chunk') =
      debug_list (debug_info chunk) @ replicate (length (encode_instr i)) (line, column)"
    and "host_grants h' = host_grants h" and "mset (live h') = chunk_blocks chunk' + F"
proof -
  note ret = write_op_constant_return [OF assms(1-4)]
  then have ok': "chunk_ok chunk'" by simp
  from ret chunk_ok_lengths(4,5) [OF ok'] chunk_ok_lengths(4,5) [OF ok]
  show "chunk_code chunk' = chunk_code chunk @ encode_instr i"
    and "debug_list (debug_info chunk') =
      debug_list (debug_info chunk) @ replicate (length (encode_instr i)) (line, column)"
    by (simp_all add: i_def comp_def map_replicate_const)
  from ret show "chunk_ok chunk'" "chunk_constants chunk' = chunk_constants chunk @ [v]"
    "instr_ok (length (chunk_constants chunk')) i" "host_grants h' = host_grants h"
    "mset (live h') = chunk_blocks chunk' + F" by (simp_all add: i_def)
qed

lemma write_byte_appends:
  assumes ok: "chunk_ok chunk" and sane: "sane h" and live: "mset (live h) = chunk_blocks chunk + F"
    and run: "chunk_write_byte b line column (chunk, h) = Inr (chunk', h')"
  shows "chunk_ok chunk'" and "chunk_constants chunk' = chunk_constants chunk"
    and "chunk_code chunk' = chunk_code chunk @ [b]"
    and "debug_list (debug_info chunk') = debug_list (debug_info chunk) @ [(line, column)]"
    and "host_grants h' = host_grants h" and "mset (live h') = chunk_blocks chunk' + F"
proof -
  have run': "(case (b, line, column) of (b, line, column) \<Rightarrow> chunk_write_byte b line column) (chunk, h)
      = Inr (chunk', h')" using run by simp
  note ret = chunk.push_return [OF ok sane live run']
  then have ok': "chunk_ok chunk'" by simp
  from ret chunk_ok_lengths(4,5) [OF ok'] chunk_ok_lengths(4,5) [OF ok]
  show "chunk_code chunk' = chunk_code chunk @ [b]"
    and "debug_list (debug_info chunk') = debug_list (debug_info chunk) @ [(line, column)]" by simp_all
  show "chunk_constants chunk' = chunk_constants chunk"
    using chunk_write_byte_constants [OF run] by (simp add: chunk_constants_def)
  from ret show "chunk_ok chunk'" "host_grants h' = host_grants h" "mset (live h') = chunk_blocks chunk' + F"
    by simp_all
qed

lemma implements_load_constant:
  assumes "implements chunk is" and "sane h" and "mset (live h) = chunk_blocks chunk + F"
    and "chunk_write_op_constant v line column (chunk, h) = Inr (chunk', h')"
  shows "implements chunk' (is @ [Load (length (chunk_constants chunk))])
    \<and> chunk_constants chunk' = chunk_constants chunk @ [v]
    \<and> debug_list (debug_info chunk') = debug_list (debug_info chunk) @
        replicate (length (encode_instr (Load (length (chunk_constants chunk))))) (line, column)
    \<and> host_grants h' = host_grants h \<and> mset (live h') = chunk_blocks chunk' + F"
proof -
  have "chunk_ok chunk" using assms(1) by (simp add: implements_def)
  note appended = write_op_constant_appends [OF this assms(2-4)]
  then have "list_all (instr_ok (length (chunk_constants chunk'))) is"
    using assms(1) by (auto simp: implements_def list_all_iff intro: instr_ok_mono)
  with appended assms(1) show ?thesis by (simp add: implements_def)
qed

lemma implements_write_byte:
  assumes "implements chunk is" and "sane h" and "mset (live h) = chunk_blocks chunk + F"
    and "encode_instr i = [b]" "\<And>n. instr_ok n i"
    and "chunk_write_byte b line column (chunk, h) = Inr (chunk', h')"
  shows "implements chunk' (is @ [i]) \<and> chunk_constants chunk' = chunk_constants chunk
    \<and> debug_list (debug_info chunk') = debug_list (debug_info chunk) @ [(line, column)]
    \<and> host_grants h' = host_grants h \<and> mset (live h') = chunk_blocks chunk' + F"
proof -
  have "chunk_ok chunk" using assms(1) by (simp add: implements_def)
  from write_byte_appends [OF this assms(2,3,6)] assms(1,4,5) show ?thesis by (simp add: implements_def)
qed

lemma implements_lines:
  assumes "implements chunk is"
  shows "length (line_list (debug_info chunk)) = length (encode_program is)"
  using assms chunk_ok_lengths(1,2) [of chunk] debug_list_nth(1,2) [of "debug_info chunk"]
  by (auto simp: implements_def chunk_ok_def)

text \<open>A program of fewer than 57 bytes always has room for one more instruction.\<close>

lemma short_lines:
  assumes "implements chunk is" and "length (encode_program is) < 57"
  shows "length (remdups_adj (line_list (debug_info chunk) @ [line])) < 58"
  using remdups_adj_length [of "line_list (debug_info chunk) @ [line]"] implements_lines [OF assms(1)]
    assms(2) by simp

lemma load_constant_cases:
  assumes impl: "implements chunk is" and sane: "sane h" and live: "mset (live h) = chunk_blocks chunk + F"
    and short: "length (encode_program is) < 57" "length (chunk_constants chunk) < 16777216"
  obtains (refused) "chunk_write_op_constant v line column (chunk, h) = Inl error_not_enough_memory"
      and "\<not> generous h"
    | (written) chunk' h' where "chunk_write_op_constant v line column (chunk, h) = Inr (chunk', h')"
      and "implements chunk' (is @ [Load (length (chunk_constants chunk))])"
      and "chunk_constants chunk' = chunk_constants chunk @ [v]"
      and "debug_list (debug_info chunk') = debug_list (debug_info chunk) @
        replicate (length (encode_instr (Load (length (chunk_constants chunk))))) (line, column)"
      and "host_grants h' = host_grants h" and "mset (live h') = chunk_blocks chunk' + F"
proof (cases "chunk_write_op_constant v line column (chunk, h)")
  case (Inl e)
  have ok: "chunk_ok chunk" and code: "chunk_code chunk = encode_program is"
    using impl by (simp_all add: implements_def)
  have "e = error_not_enough_memory" using write_op_constant_fault [OF ok sane live Inl] short by simp
  moreover have "\<not> generous h"
    using write_op_constant_room [OF ok sane _ live short_lines [OF impl short(1), of line] _ short(2), of v column]
      Inl code short(1) by auto
  ultimately show thesis using refused Inl by simp
next
  case (Inr t)
  then obtain chunk' h' where run: "chunk_write_op_constant v line column (chunk, h) = Inr (chunk', h')"
    by (cases t) auto
  from implements_load_constant [OF impl sane live run] written [OF run] show thesis by blast
qed

lemma write_byte_cases:
  assumes impl: "implements chunk is" and sane: "sane h" and live: "mset (live h) = chunk_blocks chunk + F"
    and i: "encode_instr i = [b]" "\<And>n. instr_ok n i" and short: "length (encode_program is) < 57"
  obtains (refused) "chunk_write_byte b line column (chunk, h) = Inl error_not_enough_memory"
      and "\<not> generous h"
    | (written) chunk' h' where "chunk_write_byte b line column (chunk, h) = Inr (chunk', h')"
      and "implements chunk' (is @ [i])" and "chunk_constants chunk' = chunk_constants chunk"
      and "debug_list (debug_info chunk') = debug_list (debug_info chunk) @ [(line, column)]"
      and "host_grants h' = host_grants h" and "mset (live h') = chunk_blocks chunk' + F"
proof (cases "chunk_write_byte b line column (chunk, h)")
  case (Inl e)
  have ok: "chunk_ok chunk" and code: "chunk_code chunk = encode_program is"
    using impl by (simp_all add: implements_def)
  have "e = error_not_enough_memory"
    using chunk.push_fault [OF ok sane live, of "(b, line, column)"] Inl by simp
  moreover have "\<not> generous h"
    using chunk_write_byte_room [OF ok sane _ live short_lines [OF impl short, of line], of b column] Inl code short
    by auto
  ultimately show thesis using refused Inl by simp
next
  case (Inr t)
  then obtain chunk' h' where run: "chunk_write_byte b line column (chunk, h) = Inr (chunk', h')"
    by (cases t) auto
  from implements_write_byte [OF impl sane live i run] written [OF run] show thesis by blast
qed

text \<open>The program \<^verbatim>\<open>main.c\<close> writes, for any constant.\<close>

definition dump_program :: "Value \<Rightarrow> heap \<Rightarrow> (Chunk \<times> heap) result" where
  "dump_program v h =
     res_bind (chunk_write_op_constant v 0 0 (chunk_init, h)) (\<lambda>t.
     res_bind (chunk_write_byte (op_byte OP_DUMP) 1 0 t) (\<lambda>t.
       chunk_write_byte (op_byte OP_RETURN) 2 0 t))"

lemma debug_list_init [simp]: "debug_list (debug_info chunk_init) = []"
  by (simp add: chunk_init_def)

lemma dump_program_cases:
  assumes sane: "sane h" and live: "mset (live h) = F"
  obtains (refused) "dump_program v h = Inl error_not_enough_memory" and "\<not> generous h"
    | (written) chunk h' where "dump_program v h = Inr (chunk, h')"
      and "implements chunk [Load 0, Dump, Return]" and "chunk_constants chunk = [v]"
      and "debug_list (debug_info chunk) = [(0, 0), (0, 0), (1, 0), (2, 0)]"
      and "host_grants h' = host_grants h" and "mset (live h') = chunk_blocks chunk + F"
proof -
  have live0: "mset (live h) = chunk_blocks chunk_init + F" using live by simp
  have hostD: "host_grants h' = host_grants h \<Longrightarrow> sane h' \<and> generous h' = generous h" for h'
    using sane by (simp add: sane_def generous_def)
  have load: "encode_instr (Load 0) = [2, 0]" by (simp add: encode_constant_def)
  have short0: "length (encode_program []) < 57" "length (chunk_constants chunk_init) < 16777216" by simp_all
  from implements_init sane live0 short0 show thesis
  proof (cases rule: load_constant_cases [where v = v and line = 0 and column = 0])
    case refused
    then have "dump_program v h = Inl error_not_enough_memory" by (simp add: dump_program_def)
    with refused(2) show ?thesis by (intro that(1))
  next
    case w1: (written c1 h1)
    then have impl1: "implements c1 [Load 0]" by simp
    note h1 = hostD [OF w1(5), THEN conjunct1] hostD [OF w1(5), THEN conjunct2]
    have dump: "encode_instr Dump = [op_byte OP_DUMP]" "\<And>n. instr_ok n Dump" by simp_all
    have "length (encode_program [Load 0]) < 57" using load by (simp del: encode_instr.simps(3))
    with impl1 h1(1) w1(6) dump show ?thesis
    proof (cases rule: write_byte_cases [where line = 1 and column = 0])
      case refused
      then show ?thesis using that(1) w1(1) h1(2) by (simp add: dump_program_def)
    next
      case w2: (written c2 h2)
      note h2 = hostD [OF w2(5) [unfolded w1(5)], THEN conjunct1] hostD [OF w2(5) [unfolded w1(5)], THEN conjunct2]
      have return: "encode_instr Return = [op_byte OP_RETURN]" "\<And>n. instr_ok n Return" by simp_all
      have "length (encode_program ([Load 0] @ [Dump])) < 57" using load by (simp del: encode_instr.simps(3))
      with w2(2) h2(1) w2(6) return show ?thesis
      proof (cases rule: write_byte_cases [where line = 2 and column = 0])
        case refused
        then show ?thesis using that(1) w1(1) w2(1) h2(2) by (simp add: dump_program_def)
      next
        case w3: (written c3 h3)
        show ?thesis
          by (rule that(2) [of c3 h3])
            (use w1 w2 w3 load in \<open>simp_all add: dump_program_def numeral_2_eq_2\<close>)
      qed
    qed
  qed
qed

text \<open>On the generous host that starts with no block the program is written.\<close>

lemma dump_program_generous:
  obtains chunk h where "dump_program v generous_heap = Inr (chunk, h)"
    and "implements chunk [Load 0, Dump, Return]" and "chunk_constants chunk = [v]"
    and "debug_list (debug_info chunk) = [(0, 0), (0, 0), (1, 0), (2, 0)]"
    and "sane h" and "generous h" and "mset (live h) = chunk_blocks chunk"
proof -
  have live: "mset (live generous_heap) = {#}" by simp
  from generous_heap(1) live show thesis
  proof (cases rule: dump_program_cases [where v = v])
    case refused
    then show ?thesis by simp
  next
    case (written chunk h)
    moreover have "sane h" "generous h"
      using written(5) generous_heap(1,2) by (simp_all add: sane_def generous_def)
    ultimately show ?thesis using that by simp
  qed
qed

end
