(* ===== verification/Assembly.thy ===== *)
theory Assembly
  imports Programs
begin

text \<open>
  Clients of the library write a chunk operation by operation, as \<^verbatim>\<open>main.c\<close> does, and run it.
  The operations are run here on the values themselves: no constants, no bytes, no stack block.
\<close>

subsection \<open>Operations\<close>

datatype op = Push Value | Print | Finish

fun write_op :: "op \<times> size_t \<times> size_t \<Rightarrow> Chunk \<times> heap \<Rightarrow> (Chunk \<times> heap) result" where
  "write_op (Push v, line, column) = chunk_write_op_constant v line column"
| "write_op (Print, line, column) = chunk_write_byte (op_byte OP_DUMP) line column"
| "write_op (Finish, line, column) = chunk_write_byte (op_byte OP_RETURN) line column"

fun run_ops :: "op list \<Rightarrow> Value list \<Rightarrow> (Value list \<times> Value list) option" where
  "run_ops [] st = None"
| "run_ops (Finish # ops) st = Some ([], st)"
| "run_ops (Print # ops) st =
     (if st = [] then None
      else case run_ops ops (butlast st) of
        None \<Rightarrow> None
      | Some (out, st') \<Rightarrow> Some (last st # out, st'))"
| "run_ops (Push v # ops) st = run_ops ops (st @ [v])"

fun pushed :: "op list \<Rightarrow> Value list" where
  "pushed [] = []"
| "pushed (Push v # ops) = v # pushed ops"
| "pushed (Print # ops) = pushed ops"
| "pushed (Finish # ops) = pushed ops"

text \<open>The instructions of the operations, when \<open>n\<close> constants are there already.\<close>

fun assemble :: "nat \<Rightarrow> op list \<Rightarrow> instr list" where
  "assemble n [] = []"
| "assemble n (Push v # ops) = Load n # assemble (n + 1) ops"
| "assemble n (Print # ops) = Dump # assemble n ops"
| "assemble n (Finish # ops) = Return # assemble n ops"

lemma length_assemble [simp]: "length (assemble n ops) = length ops"
  by (induction n ops rule: assemble.induct) auto

lemma exec_assemble:
  "exec (cs @ pushed ops) (assemble (length cs) ops) st = run_ops ops st"
proof (induction ops st arbitrary: cs rule: run_ops.induct)
  case (4 v ops st)
  from 4 [of "cs @ [v]"] show ?case by simp
qed (auto split: option.splits)

lemma encode_instr_le: "length (encode_instr i) \<le> 4"
  by (cases i) (simp_all add: encode_constant_def)

lemma encode_program_le: "length (encode_program is) \<le> 4 * length is"
  by (induction "is") (use encode_instr_le in \<open>auto intro!: add_mono simp: encode_program_def\<close>)

subsection \<open>Writing the operations\<close>

lemma remdups_adj_append_cong:
  assumes "remdups_adj xs = remdups_adj ys"
  shows "remdups_adj (xs @ zs) = remdups_adj (ys @ zs)"
proof -
  have step: "remdups_adj (us @ [z]) = remdups_adj (vs @ [z])" if "remdups_adj us = remdups_adj vs" for us vs :: "'a list" and z
    using that last_remdups_adj [of us] last_remdups_adj [of vs] remdups_adj_Nil_iff [of us] remdups_adj_Nil_iff [of vs]
    by (simp add: remdups_adj_snoc)
  show ?thesis using assms step [of "xs @ _" "ys @ _"]
    by (induction zs rule: rev_induct) (simp_all del: append_assoc add: append_assoc [symmetric])
qed

text \<open>The lines a chunk records, without repetitions, are the lines of the operations.\<close>

lemma write_op_room:
  assumes impl: "implements chunk is" and host: "sane h" "generous h"
    and live: "mset (live h) = chunk_blocks chunk + F"
    and runs: "length (remdups_adj (line_list (debug_info chunk) @ [line])) < 58"
    and len: "length is < 2 ^ 55" and few: "length (chunk_constants chunk @ pushed [x]) \<le> 16777216"
  obtains chunk' h' where "write_op (x, line, column) (chunk, h) = Inr (chunk', h')"
    and "implements chunk' (is @ assemble (length (chunk_constants chunk)) [x])"
    and "chunk_constants chunk' = chunk_constants chunk @ pushed [x]"
    and "remdups_adj (line_list (debug_info chunk')) = remdups_adj (line_list (debug_info chunk) @ [line])"
    and "host_grants h' = host_grants h" and "mset (live h') = chunk_blocks chunk' + F"
proof -
  have ok: "chunk_ok chunk" and code: "chunk_code chunk = encode_program is"
    using impl by (simp_all add: implements_def)
  have short: "length (chunk_code chunk) + 4 \<le> 2 ^ 57"
    using encode_program_le [of "is"] len code by simp
  then have less: "length (chunk_code chunk) < 2 ^ 57" by simp
  have lines: "line_list (debug_info c) = map fst (debug_list (debug_info c))" if "implements c js" for c js
    using that debug_list_nth(4) [of "debug_info c"] by (simp add: implements_def chunk_ok_def)
  show thesis
  proof (cases x)
    case (Push v)
    have "length (chunk_constants chunk) < 16777216" using few Push by simp
    then obtain chunk' h' where run: "chunk_write_op_constant v line column (chunk, h) = Inr (chunk', h')"
      using write_op_constant_room [OF ok host live runs short] by (metis surj_pair)
    note wr = implements_load_constant [OF impl host(1) live run]
    obtain b bs where bytes: "encode_instr (Load (length (chunk_constants chunk))) = b # bs"
      using encode_instr_nonempty [of "Load (length (chunk_constants chunk))"] by (auto simp: neq_Nil_conv)
    have "remdups_adj (line_list (debug_info chunk')) = remdups_adj (line_list (debug_info chunk) @ [line])"
      using wr lines [OF wr [THEN conjunct1]] lines [OF impl] bytes
        remdups_adj_same [of "line_list (debug_info chunk)" line b bs]
      by (simp add: map_replicate_const)
    with wr run Push that show thesis by simp
  next
    case Print
    obtain chunk' h' where run: "chunk_write_byte (op_byte OP_DUMP) line column (chunk, h) = Inr (chunk', h')"
      using chunk_write_byte_room [OF ok host live runs less] by (metis surj_pair)
    note wr = implements_write_byte [OF impl host(1) live _ _ run, of Dump]
    show thesis
      using wr lines [of chunk' "is @ [Dump]"] lines [OF impl] run Print by (intro that [of chunk' h']) simp_all
  next
    case Finish
    obtain chunk' h' where run: "chunk_write_byte (op_byte OP_RETURN) line column (chunk, h) = Inr (chunk', h')"
      using chunk_write_byte_room [OF ok host live runs less] by (metis surj_pair)
    note wr = implements_write_byte [OF impl host(1) live _ _ run, of Return]
    show thesis
      using wr lines [of chunk' "is @ [Return]"] lines [OF impl] run Finish by (intro that [of chunk' h']) simp_all
  qed
qed


lemma write_ops_room:
  assumes "implements chunk is" and "sane h" and "generous h" and "mset (live h) = chunk_blocks chunk + F"
    and "length (remdups_adj (line_list (debug_info chunk) @ map (fst \<circ> snd) xs)) < 58"
    and "length is + length xs \<le> 2 ^ 55"
    and "length (chunk_constants chunk) + length (pushed (map fst xs)) \<le> 16777216"
  shows "\<exists>chunk' h'. res_fold write_op xs (chunk, h) = Inr (chunk', h')
    \<and> implements chunk' (is @ assemble (length (chunk_constants chunk)) (map fst xs))
    \<and> chunk_constants chunk' = chunk_constants chunk @ pushed (map fst xs)
    \<and> host_grants h' = host_grants h \<and> mset (live h') = chunk_blocks chunk' + F"
  using assms
proof (induction xs arbitrary: chunk h "is")
  case Nil
  then show ?case by simp
next
  case (Cons y xs)
  obtain x line column where y: "y = (x, line, column)" by (cases y)
  let ?n = "length (chunk_constants chunk)"
  have first: "assemble n (x # ops) = assemble n [x] @ assemble (n + length (pushed [x])) ops"
    "pushed (x # ops) = pushed [x] @ pushed ops" for n ops
    by (cases x; simp)+
  have "length (remdups_adj (line_list (debug_info chunk) @ [line])) < 58"
    using Cons.prems(5) y length_remdups_adj_append_le [of "line_list (debug_info chunk) @ [line]" "map (fst \<circ> snd) xs"]
    by (simp add: comp_def)
  moreover have "length is < 2 ^ 55" using Cons.prems(6) by simp
  moreover have "length (chunk_constants chunk @ pushed [x]) \<le> 16777216"
    using Cons.prems(7) y first(2) [of "map fst xs"] by simp
  ultimately obtain chunk1 h1 where run: "write_op (x, line, column) (chunk, h) = Inr (chunk1, h1)"
    and impl: "implements chunk1 (is @ assemble ?n [x])" and cs: "chunk_constants chunk1 = chunk_constants chunk @ pushed [x]"
    and lines: "remdups_adj (line_list (debug_info chunk1)) = remdups_adj (line_list (debug_info chunk) @ [line])"
    and host: "host_grants h1 = host_grants h" and live: "mset (live h1) = chunk_blocks chunk1 + F"
    by (rule write_op_room [OF Cons.prems(1-4), where column = column])
  have "\<exists>chunk' h'. res_fold write_op xs (chunk1, h1) = Inr (chunk', h')
    \<and> implements chunk' ((is @ assemble ?n [x]) @ assemble (length (chunk_constants chunk1)) (map fst xs))
    \<and> chunk_constants chunk' = chunk_constants chunk1 @ pushed (map fst xs)
    \<and> host_grants h' = host_grants h1 \<and> mset (live h') = chunk_blocks chunk' + F"
  proof (rule Cons.IH [OF impl])
    show "sane h1" "generous h1" using Cons.prems(2,3) host by (simp_all add: sane_def generous_def)
    show "length (remdups_adj (line_list (debug_info chunk1) @ map (fst \<circ> snd) xs)) < 58"
      using Cons.prems(5) y remdups_adj_append_cong [OF lines] by (simp add: comp_def)
    show "length (chunk_constants chunk1) + length (pushed (map fst xs)) \<le> 16777216"
      using Cons.prems(7) y cs first(2) [of "map fst xs"] by simp
  qed (use live Cons.prems(6) in simp_all)
  with run y cs host show ?case by (simp add: first(1) [of _ "map fst xs"] first(2) [of "map fst xs"])
qed

lemma vm_free_ok:
  "mset (live h) = stack_blocks (vm_stack vm) + F \<Longrightarrow>
    \<exists>vm' h'. vm_free vm h = Inr (vm', h') \<and> mset (live h') = F \<and> host_grants h' = host_grants h"
  using free_array_ok [of h "stack_ptr (vm_stack vm)" F sizeof_Value]
  by (auto simp: vm_free_def vm_stack_free_def stack_blocks_def)

text \<open>Writing the operations in an empty chunk, running them, and giving the memory back.\<close>

lemma write_and_run:
  assumes "sane h" and "generous h" and "length (remdups_adj (map (fst \<circ> snd) xs)) < 58" and "length xs \<le> 2 ^ 55"
    and "length (pushed (map fst xs)) \<le> 16777216" and "run_ops (map fst xs) [] = Some (out, st)"
  obtains chunk h1 where "res_fold write_op xs (chunk_init, h) = Inr (chunk, h1)"
    and "\<And>vm. \<exists>vm' h2 h3 vm'' h4. vm_run False (vm_init vm) chunk h1 = Inr (dump_text out, INTERPRETER_OK, vm', h2)
      \<and> stack_list (vm_stack vm') = st \<and> chunk_free chunk h2 = Inr (chunk_init, h3)
      \<and> vm_free vm' h3 = Inr (vm'', h4) \<and> mset (live h4) = mset (live h)"
proof -
  have "line_list (debug_info chunk_init) = []" by (simp add: chunk_init_def)
  with write_ops_room [OF implements_init assms(1,2), of "mset (live h)" xs] assms(3-5)
  obtain chunk h1 where run: "res_fold write_op xs (chunk_init, h) = Inr (chunk, h1)"
    and impl: "implements chunk (assemble 0 (map fst xs))" and cs: "chunk_constants chunk = pushed (map fst xs)"
    and grants: "host_grants h1 = host_grants h" and live: "mset (live h1) = chunk_blocks chunk + mset (live h)"
    by auto
  have host: "sane h1" "generous h1" using assms(1,2) grants by (simp_all add: sane_def generous_def)
  have exec: "exec (chunk_constants chunk) (assemble 0 (map fst xs)) [] = Some (out, st)"
    using exec_assemble [of "[]" "map fst xs" "[]"] cs assms(6) by simp
  have "\<exists>vm' h2 h3 vm'' h4. vm_run False (vm_init vm) chunk h1 = Inr (dump_text out, INTERPRETER_OK, vm', h2)
      \<and> stack_list (vm_stack vm') = st \<and> chunk_free chunk h2 = Inr (chunk_init, h3)
      \<and> vm_free vm' h3 = Inr (vm'', h4) \<and> mset (live h4) = mset (live h)" for vm
  proof -
    obtain ip where "run_post (length xs \<le> 2 ^ 57) (chunk_blocks chunk + mset (live h))
        ((vm_init vm)\<lparr>vm_chunk := chunk, vm_ip := 0\<rparr>) h1 ip INTERPRETER_OK (out, st) (vm_run False (vm_init vm) chunk h1)"
      using vm_run_refines [OF impl _ host(1), of "vm_init vm" "chunk_blocks chunk + mset (live h)"] live exec
      by (auto simp: vm_init_def)
    with host(2) assms(4) obtain vm' h2 where vm: "vm_run False (vm_init vm) chunk h1 = Inr (dump_text out, INTERPRETER_OK, vm', h2)"
      "stack_list (vm_stack vm') = st" and "mset (live h2) = stack_blocks (vm_stack vm') + (chunk_blocks chunk + mset (live h))"
      by (auto simp: run_post_def split: sum.splits)
    then have "mset (live h2) = chunk_blocks chunk + (stack_blocks (vm_stack vm') + mset (live h))"
      by (simp add: ac_simps)
    from chunk_free_ok [OF this] obtain h3 where h3: "chunk_free chunk h2 = Inr (chunk_init, h3)"
      "mset (live h3) = stack_blocks (vm_stack vm') + mset (live h)" by blast
    from vm_free_ok [OF h3(2)] vm h3(1) show ?thesis by blast
  qed
  with run that show thesis by blast
qed

end
