(* ===== verification/Reachability.thy ===== *)
theory Reachability
  imports Execution
begin

text \<open>
  The interpreter loop turn by turn: what holds in every state it reaches, and the programs that
  run out of values.
\<close>

subsection \<open>Reachable states\<close>

text \<open>The states of machine and heap at the top of the loop, with what was printed on the way.\<close>

inductive vm_reaches :: "SkardVM \<times> heap \<Rightarrow> string \<Rightarrow> SkardVM \<times> heap \<Rightarrow> bool" for s where
  start: "vm_reaches s [] s"
| turn: "vm_reaches s out (vm, h) \<Longrightarrow> vm_step False (vm, h) = Inr (text, None, vm', h')
    \<Longrightarrow> vm_reaches s (out @ text) (vm', h')"

text \<open>A state of the run of a program that ends in a return: in front of one of its instructions.\<close>

definition vm_inv :: "Chunk \<Rightarrow> instr list \<Rightarrow> nat multiset \<Rightarrow> SkardVM \<times> heap \<Rightarrow> bool" where
  "vm_inv chunk is F = (\<lambda>(vm, h).
     vm_chunk vm = chunk \<and> stack_ok (vm_stack vm) \<and> sane h \<and> mset (live h) = stack_blocks (vm_stack vm) + F
     \<and> (\<exists>pre i post. is = pre @ i # post \<and> vm_ip vm = length (encode_program pre)))"

lemma vm_inv_at:
  assumes "implements chunk (is @ [Return])" and "vm_inv chunk (is @ [Return]) F (vm, h)"
  obtains pre i post where "is @ [Return] = pre @ i # post" and "at_instr vm (i # post)"
    and "vm_ip vm = length (encode_program pre)"
  using assms implements_code_at by (fastforce simp: vm_inv_def at_instr_def)

lemma vm_inv_step:
  assumes impl: "implements chunk (is @ [Return])" and inv: "vm_inv chunk (is @ [Return]) F (vm, h)"
    and step: "vm_step False (vm, h) = Inr (text, None, vm', h')"
  shows "vm_inv chunk (is @ [Return]) F (vm', h')"
proof -
  obtain pre i post where split: "is @ [Return] = pre @ i # post" and at: "at_instr vm (i # post)"
    and ip: "vm_ip vm = length (encode_program pre)"
    by (rule vm_inv_at [OF impl inv])
  have state: "stack_ok (vm_stack vm)" "sane h" "mset (live h) = stack_blocks (vm_stack vm) + F" "vm_chunk vm = chunk"
    using inv by (simp_all add: vm_inv_def)
  note turn = step_turn [OF at state(1-3) step]
  have "i \<noteq> Return" using turn by (auto split: if_splits)
  with split have "post \<noteq> []" by auto
  then obtain j post' where "post = j # post'" by (cases post) auto
  with split have "is @ [Return] = (pre @ [i]) @ j # post'" by simp
  moreover have "vm_ip vm' = length (encode_program (pre @ [i]))" "vm_chunk vm' = chunk"
    using turn ip state(4) by simp_all
  ultimately show ?thesis using step_next [OF at state(1-3) step] unfolding vm_inv_def by blast
qed

lemma vm_reaches_inv:
  assumes "vm_reaches s out t" and "implements chunk (is @ [Return])" and "vm_inv chunk (is @ [Return]) F s"
  shows "vm_inv chunk (is @ [Return]) F t"
  using assms by (induction rule: vm_reaches.induct) (auto intro: vm_inv_step)

subsection \<open>Underflow\<close>

text \<open>\<open>underflows is n\<close>: run on a stack of \<open>n\<close> values, the instructions dump more values than there are.\<close>

fun underflows :: "instr list \<Rightarrow> nat \<Rightarrow> bool" where
  "underflows [] n \<longleftrightarrow> False"
| "underflows (Return # is) n \<longleftrightarrow> False"
| "underflows (Dump # is) n \<longleftrightarrow> n = 0 \<or> underflows is (n - 1)"
| "underflows (Load k # is) n \<longleftrightarrow> underflows is (n + 1)"

lemma vm_loop_underflow:
  assumes "at_instr vm is" and "stack_ok (vm_stack vm)" and "sane h"
    and "mset (live h) = stack_blocks (vm_stack vm) + F" and "underflows is (length (stack_list (vm_stack vm)))"
  shows "\<exists>e. vm_loop False (vm, h) = Inl e \<and> (e = OutOfBounds \<or> e = error_not_enough_memory)
    \<and> (generous h \<and> length (stack_list (vm_stack vm)) + length is \<le> 2 ^ 57 \<longrightarrow> e = OutOfBounds)"
  using assms
proof (induction "is" arbitrary: vm h)
  case (Cons i "is")
  let ?st = "stack_list (vm_stack vm)"
  note state = Cons.prems(1-4)
  show ?case
  proof (cases "vm_step False (vm, h)")
    case (Inl e)
    with step_fault [OF state Inl] show ?thesis by (auto simp: vm_loop.simps [of False vm h])
  next
    case (Inr x)
    obtain out r vm' h' where x: "x = (out, r, vm', h')" by (cases x)
    have i: "i \<noteq> Return" using Cons.prems(5) by auto
    note turn = step_turn [OF state Inr [unfolded x]]
    with Inr x i have step: "vm_step False (vm, h) = Inr (out, None, vm', h')" by simp
    have nonempty: "i = Dump \<longrightarrow> ?st \<noteq> []"
      using step step_dump [of vm "is" h] Cons.prems(1) stack.pop_empty [OF Cons.prems(2)] by fastforce
    have len: "underflows is (length (stack_list (vm_stack vm')))" "length (stack_list (vm_stack vm')) \<le> Suc (length ?st)"
      using turn i nonempty Cons.prems(5) by (cases i; simp)+
    have "\<exists>e. vm_loop False (vm', h') = Inl e \<and> (e = OutOfBounds \<or> e = error_not_enough_memory)
        \<and> (generous h' \<and> length (stack_list (vm_stack vm')) + length is \<le> 2 ^ 57 \<longrightarrow> e = OutOfBounds)"
      using step_next [OF state step] len(1) by (rule Cons.IH)
    with vm_loop_step [OF step] turn len(2) show ?thesis by (auto simp: generous_def)
  qed
qed simp

end
