(* ===== verification/Persistence.thy ===== *)
theory Persistence
  imports Programs "HOL-Library.Sublist"
begin

text \<open>
  What is written stays: writing to a chunk extends its code, its constants and its positions, so that
  the instructions it holds are read as before.
\<close>

subsection \<open>Extensions of a chunk\<close>

definition grown_to :: "Chunk \<Rightarrow> Chunk \<Rightarrow> bool" where
  "grown_to chunk chunk' \<longleftrightarrow>
     chunk_ok chunk' \<and> prefix (chunk_code chunk) (chunk_code chunk') \<and>
     prefix (chunk_constants chunk) (chunk_constants chunk') \<and>
     prefix (debug_list (debug_info chunk)) (debug_list (debug_info chunk'))"

text \<open>Instructions stay where they are.\<close>

lemma code_at_grown:
  assumes "code_at chunk offset is" and ext: "grown_to chunk chunk'"
  shows "code_at chunk' offset is"
proof -
  obtain pre post where "chunk_code chunk = pre @ encode_program is @ post" and offset: "offset = length pre"
    using assms(1) by (auto simp: code_at_def)
  with ext obtain more where code: "chunk_code chunk' = pre @ encode_program is @ (post @ more)"
    by (auto simp: grown_to_def prefix_def)
  have "length (chunk_constants chunk) \<le> length (chunk_constants chunk')"
    using ext by (auto simp: grown_to_def intro: prefix_length_le)
  then have "list_all (instr_ok (length (chunk_constants chunk'))) is"
    using assms(1) by (auto simp: code_at_def list_all_iff intro: instr_ok_mono)
  with code offset ext show ?thesis unfolding code_at_def grown_to_def by blast
qed

lemma nth_prefix: "prefix xs ys \<Longrightarrow> k < length xs \<Longrightarrow> ys ! k = xs ! k"
  by (auto simp: prefix_def nth_append)

subsection \<open>Writing\<close>

text \<open>A byte of any value, or a constant, at a position.\<close>

fun write_item :: "(byte + Value) \<times> size_t \<times> size_t \<Rightarrow> Chunk \<times> heap \<Rightarrow> (Chunk \<times> heap) result" where
  "write_item (Inl b, line, column) = chunk_write_byte b line column"
| "write_item (Inr v, line, column) = chunk_write_op_constant v line column"

text \<open>The bytes with their positions that the items come to when there are \<open>n\<close> constants, and the constants.\<close>

fun item_cells :: "nat \<Rightarrow> ((byte + Value) \<times> size_t \<times> size_t) list \<Rightarrow> (byte \<times> size_t \<times> size_t) list" where
  "item_cells n [] = []"
| "item_cells n ((Inl b, p) # ws) = (b, p) # item_cells n ws"
| "item_cells n ((Inr v, p) # ws) = map (\<lambda>b. (b, p)) (encode_instr (Load n)) @ item_cells (n + 1) ws"

fun item_constants :: "((byte + Value) \<times> size_t \<times> size_t) list \<Rightarrow> Value list" where
  "item_constants [] = []"
| "item_constants ((Inl b, p) # ws) = item_constants ws"
| "item_constants ((Inr v, p) # ws) = v # item_constants ws"

lemma write_item_return:
  assumes ok: "chunk_ok chunk" and sane: "sane h" and live: "mset (live h) = chunk_blocks chunk + F"
    and run: "write_item w (chunk, h) = Inr (chunk', h')"
  shows "chunk_ok chunk' \<and> chunk_cells chunk' = chunk_cells chunk @ item_cells (length (chunk_constants chunk)) [w]
    \<and> chunk_constants chunk' = chunk_constants chunk @ item_constants [w]
    \<and> host_grants h' = host_grants h \<and> mset (live h') = chunk_blocks chunk' + F"
proof (cases w rule: write_item.cases)
  case (1 b line column)
  then have "chunk_write_byte b line column (chunk, h) = Inr (chunk', h')" using run by simp
  with chunk.push_return [OF ok sane live, of "(b, line, column)" chunk' h'] 1
    write_byte_appends(2) [OF ok sane live this] show ?thesis by simp
next
  case (2 v line column)
  then have "chunk_write_op_constant v line column (chunk, h) = Inr (chunk', h')" using run by simp
  from write_op_constant_return [OF ok sane live this] 2 show ?thesis by simp
qed

lemma item_cells_Cons: "item_cells n (w # ws) = item_cells n [w] @ item_cells (n + length (item_constants [w])) ws"
  by (cases w; cases "fst w"; simp)

lemma item_constants_Cons: "item_constants (w # ws) = item_constants [w] @ item_constants ws"
  by (cases w; cases "fst w"; simp)

lemma write_items_return:
  assumes "chunk_ok chunk" and "sane h" and "mset (live h) = chunk_blocks chunk + F"
    and "res_fold write_item ws (chunk, h) = Inr (chunk', h')"
  shows "chunk_ok chunk' \<and> chunk_cells chunk' = chunk_cells chunk @ item_cells (length (chunk_constants chunk)) ws
    \<and> chunk_constants chunk' = chunk_constants chunk @ item_constants ws
    \<and> host_grants h' = host_grants h \<and> mset (live h') = chunk_blocks chunk' + F"
  using assms
proof (induction ws arbitrary: chunk h)
  case (Cons w ws)
  then obtain chunk1 h1 where run: "write_item w (chunk, h) = Inr (chunk1, h1)"
    and rest: "res_fold write_item ws (chunk1, h1) = Inr (chunk', h')"
    by (cases "write_item w (chunk, h)") auto
  note first = write_item_return [OF Cons.prems(1-3) run]
  then have "sane h1" using Cons.prems(2) by (simp add: sane_def)
  with first Cons.IH [OF _ _ _ rest] show ?case
    by (simp add: item_cells_Cons [of _ w ws] item_constants_Cons [of w ws])
qed simp

lemma write_items_code:
  assumes "chunk_ok chunk" and "chunk_ok chunk'" and "chunk_cells chunk' = chunk_cells chunk @ cs"
  shows "chunk_code chunk' = chunk_code chunk @ map fst cs"
    and "debug_list (debug_info chunk') = debug_list (debug_info chunk) @ map snd cs"
  using assms chunk_ok_lengths(4,5) [OF assms(1)] chunk_ok_lengths(4,5) [OF assms(2)] by simp_all

lemma write_items_grown:
  assumes "chunk_ok chunk" and "sane h" and "mset (live h) = chunk_blocks chunk + F"
    and "res_fold write_item ws (chunk, h) = Inr (chunk', h')"
  shows "grown_to chunk chunk'"
  using write_items_return [OF assms] write_items_code [OF assms(1), of chunk'] by (simp add: grown_to_def)

text \<open>Short code always has room on a generous host.\<close>

lemma write_items_room:
  assumes "chunk_ok chunk" and "sane h" and "generous h" and "mset (live h) = chunk_blocks chunk + F"
    and "length (chunk_code chunk) + 4 * length ws < 58" and "length (chunk_constants chunk) + length ws \<le> 16777216"
  shows "\<exists>chunk' h'. res_fold write_item ws (chunk, h) = Inr (chunk', h')"
  using assms
proof (induction ws arbitrary: chunk h)
  case (Cons w ws)
  have lines: "length (line_list (debug_info chunk)) = length (chunk_code chunk)"
    using Cons.prems(1) chunk_ok_lengths(1,2) [of chunk] debug_list_nth(1,2) [of "debug_info chunk"]
    by (auto simp: chunk_ok_def)
  have runs: "length (remdups_adj (line_list (debug_info chunk) @ [line])) < 58" for line
    using remdups_adj_length [of "line_list (debug_info chunk) @ [line]"] lines Cons.prems(5) by simp
  have "\<exists>t. write_item w (chunk, h) = Inr t"
  proof (cases w rule: write_item.cases)
    case (1 b line column)
    then show ?thesis
      using chunk_write_byte_room [OF Cons.prems(1-4) runs, of b line column] Cons.prems(5) by simp
  next
    case (2 v line column)
    then show ?thesis
      using write_op_constant_room [OF Cons.prems(1-4) runs, of v line column] Cons.prems(5,6) by simp
  qed
  then obtain chunk1 h1 where run: "write_item w (chunk, h) = Inr (chunk1, h1)" by auto
  note first = write_item_return [OF Cons.prems(1,2,4) run]
  let ?n = "length (chunk_constants chunk)"
  have "length (item_cells ?n [w]) \<le> 4" "length (item_constants [w]) \<le> 1"
    using length_encode_constant [of "word_of_nat ?n"] by (cases w; cases "fst w"; simp)+
  moreover have "length (chunk_code chunk1) =
      length (chunk_code chunk) + length (item_cells ?n [w])"
    using first write_items_code(1) [OF Cons.prems(1)] by simp
  moreover have "sane h1" "generous h1" using first Cons.prems(2,3) by (simp_all add: sane_def generous_def)
  ultimately have "\<exists>chunk' h'. res_fold write_item ws (chunk1, h1) = Inr (chunk', h')"
    using first Cons.prems(5,6) by (intro Cons.IH) (auto simp: le_Suc_eq)
  with run show ?case by simp
qed simp

text \<open>The instruction that a written constant is, in the chunk at any later time.\<close>

lemma written_constant_at:
  assumes "chunk_ok chunk" and "sane h" and "mset (live h) = chunk_blocks chunk + F"
    and "chunk_write_op_constant v line column (chunk, h) = Inr (chunk1, h1)"
    and "res_fold write_item ws (chunk1, h1) = Inr (chunk2, h2)"
  defines "n \<equiv> length (chunk_constants chunk)" and "offset \<equiv> length (chunk_code chunk)"
  shows "code_at chunk2 offset [Load n]" and "chunk_constants chunk2 ! n = v"
    and "offset + length (encode_instr (Load n)) = length (chunk_code chunk1)"
    and "debug_list (debug_info chunk2) ! offset = (line, column)"
proof -
  note appended = write_op_constant_appends [OF assms(1-4), folded n_def]
  have "sane h1" using appended(6) assms(2) by (simp add: sane_def)
  then have ext: "grown_to chunk1 chunk2" using write_items_grown [OF appended(1) _ appended(7) assms(5)] by simp
  have at: "code_at chunk1 offset [Load n]" unfolding code_at_def
    using appended(1,3,4) by (intro conjI exI [of _ "chunk_code chunk"] exI [of _ "[]"]) (simp_all add: offset_def)
  then show "code_at chunk2 offset [Load n]" using ext by (rule code_at_grown)
  show "offset + length (encode_instr (Load n)) = length (chunk_code chunk1)" using appended(4) by (simp add: offset_def)
  have "prefix (chunk_constants chunk1) (chunk_constants chunk2)" "n < length (chunk_constants chunk1)"
    using ext appended(2) by (simp_all add: grown_to_def n_def)
  then have "chunk_constants chunk2 ! n = chunk_constants chunk1 ! n" by (rule nth_prefix)
  with appended(2) show "chunk_constants chunk2 ! n = v" by (simp add: n_def)
  have len: "length (debug_list (debug_info chunk)) = offset"
    using chunk_ok_lengths(1,2) [OF assms(1)] by (simp add: offset_def)
  have "debug_list (debug_info chunk1) ! offset = (line, column)"
    using appended(5) len encode_instr_nonempty [of "Load n"] by (simp add: nth_append del: encode_instr.simps)
  moreover have "offset < length (debug_list (debug_info chunk1))"
    using appended(5) len encode_instr_nonempty [of "Load n"] by (simp del: encode_instr.simps)
  ultimately show "debug_list (debug_info chunk2) ! offset = (line, column)"
    using ext by (auto simp: grown_to_def dest: nth_prefix)
qed

end
