(* ===== verification/Storage_Properties.thy ===== *)
theory Storage_Properties
  imports Assembly Reachability Persistence
begin

text \<open>
  The properties of the storage layer and of the virtual machine: growable arrays, debug
  information, chunks, the value stack, the disassembler and the interpreter loop.
\<close>

subsection \<open>Arrays of values\<close>

text \<open>C22: Appending the values \<open>vs\<close> one by one to a value array either exits with the message
  of \<open>error_not_enough_memory\<close>, which on a generous host takes more than \<open>2 ^ 57\<close> values, or
  leaves a well-formed array that holds the old values followed by \<open>vs\<close>; no other block of the
  heap is touched, freed twice or leaked.\<close>

theorem value_array_append:
  assumes "value_array_ok array" and "sane h" and "mset (live h) = value_blocks array + F"
  shows "case res_fold value_array_add vs (array, h) of
      Inl e \<Rightarrow> e = error_not_enough_memory
        \<and> (\<not> generous h \<or> 2 ^ 57 < length (value_list array) + length vs)
    | Inr (array', h') \<Rightarrow> value_array_ok array' \<and> value_list array' = value_list array @ vs
        \<and> host_grants h' = host_grants h \<and> mset (live h') = value_blocks array' + F"
proof (cases "res_fold value_array_add vs (array, h)")
  case (Inl e)
  with va.push_all_fault [OF assms Inl] va.push_all_room [OF assms(1,2) _ assms(3), of vs]
  show ?thesis by fastforce
next
  case (Inr r)
  then obtain array' h' where r: "res_fold value_array_add vs (array, h) = Inr (array', h')"
    by (cases r) auto
  from va.push_all_return [OF assms r] r show ?thesis by simp
qed

text \<open>Three values in an empty array on a generous host.\<close>

theorem value_array_append_witness:
  "\<exists>array h. res_fold value_array_add [make_value_int 1, make_value_real 2, make_value_int 3]
      (value_array_init, generous_heap) = Inr (array, h)
    \<and> value_list array = [make_value_int 1, make_value_real 2, make_value_int 3]"
  using value_array_append [of value_array_init generous_heap "{#}"
      "[make_value_int 1, make_value_real 2, make_value_int 3]"]
  by (auto split: sum.splits simp del: res_fold.simps)

subsection \<open>Debug information\<close>

text \<open>C18: After the positions \<open>ps\<close> have been recorded for consecutive bytes, reading the line and
  the column of every byte gives them back; the line of a byte that was not recorded is \<open>0\<close>.\<close>

theorem debug_info_read_back:
  assumes "debug_ok di" and "debug_list di = []" and "sane h" and "mset (live h) = debug_blocks di + F"
    and "res_fold (\<lambda>(line, column). debug_info_add line column) ps (di, h) = Inr (di', h')"
  shows "debug_info_read_line di' offset =
      Inr (if unat offset < length ps then fst (ps ! unat offset) else 0)
    \<and> (unat offset < length ps \<longrightarrow>
        debug_info_read_column di' offset = Inr (snd (ps ! unat offset)))"
proof -
  from debug.push_all_return [OF assms(1,3-5)] assms(2) have ok: "debug_ok di'" and list: "debug_list di' = ps"
    by simp_all
  from ok have "lines_ok di'" "columns_ok di'" by (simp_all add: debug_ok_def)
  moreover have "line_list di' = map fst ps" "column_list di' = map snd ps"
    using debug_list_nth(4,5) [OF ok] list by simp_all
  ultimately show ?thesis by (simp add: read_line_correct read_column_correct)
qed

text \<open>Two runs of lines; the byte at offset 2 is the first of the second run.\<close>

theorem debug_info_read_back_witness:
  "\<exists>di h. res_fold (\<lambda>(line, column). debug_info_add line column) [(3, 7), (3, 9), (4, 1)]
      (debug_info_init, generous_heap) = Inr (di, h)
    \<and> debug_info_read_line di 1 = Inr 3 \<and> debug_info_read_column di 1 = Inr 9
    \<and> debug_info_read_line di 2 = Inr 4 \<and> debug_info_read_column di 2 = Inr 1
    \<and> debug_info_read_line di 3 = Inr 0"
proof -
  let ?ps = "[(3, 7), (3, 9), (4, 1)] :: (size_t \<times> size_t) list"
  have "\<exists>t. res_fold (\<lambda>(line, column). debug_info_add line column) ?ps
      (debug_info_init, generous_heap) = Inr t"
    by (rule debug_add_all_room [where F = "{#}"]) (simp_all del: res_fold.simps)
  then obtain di h where run: "res_fold (\<lambda>(line, column). debug_info_add line column) ?ps
      (debug_info_init, generous_heap) = Inr (di, h)"
    by (auto simp del: res_fold.simps)
  note read_back = debug_info_read_back [OF _ _ _ _ run, of "{#}"]
  from run read_back [of 1] read_back [of 2] read_back [of 3] show ?thesis by (auto simp del: res_fold.simps)
qed

text \<open>C20: The line array is doubled at every new run of lines, not when it is full: from the 58th run
  of lines on every host that respects the limit of \<open>malloc\<close> refuses, and the program exits. With
  fewer runs a generous host takes up to \<open>2 ^ 57\<close> positions.\<close>

theorem line_runs_limit:
  assumes "sane h"
  shows "(58 \<le> length (remdups_adj (map fst ps)) \<longrightarrow>
      res_fold (\<lambda>(line, column). debug_info_add line column) ps (debug_info_init, h)
        = Inl error_not_enough_memory)
    \<and> (generous h \<and> length ps \<le> 2 ^ 57 \<and> length (remdups_adj (map fst ps)) < 58 \<longrightarrow>
      (\<exists>t. res_fold (\<lambda>(line, column). debug_info_add line column) ps (debug_info_init, h) = Inr t))"
proof (intro conjI impI)
  let ?run = "res_fold (\<lambda>(line, column). debug_info_add line column) ps (debug_info_init, h)"
  have init: "mset (live h) = debug_blocks debug_info_init + mset (live h)" by simp
  show "?run = Inl error_not_enough_memory" if many: "58 \<le> length (remdups_adj (map fst ps))"
  proof (cases ?run)
    case (Inl e)
    with debug.push_all_fault [OF _ assms init Inl] show ?thesis by simp
  next
    case (Inr r)
    then obtain di h' where r: "?run = Inr (di, h')" by (cases r) auto
    from debug.push_all_return [OF _ assms init r] have ok: "debug_ok di" and "debug_list di = ps" by simp_all
    then have "line_list di = map fst ps" using debug_list_nth(4) [OF ok] by simp
    with debug_runs_bound [OF ok] many show ?thesis by simp
  qed
  show "\<exists>t. ?run = Inr t"
    if "generous h \<and> length ps \<le> 2 ^ 57 \<and> length (remdups_adj (map fst ps)) < 58"
    using that by (intro debug_add_all_room [OF _ assms _ init]) simp_all
qed

text \<open>One position in each of 58 lines, on the most generous of hosts; and 57 of them.\<close>

theorem line_runs_limit_witness:
  "res_fold (\<lambda>(line, column). debug_info_add line column) (map (\<lambda>n. (word_of_nat n, 0)) [0..<58])
      (debug_info_init, generous_heap) = Inl error_not_enough_memory
    \<and> (\<exists>t. res_fold (\<lambda>(line, column). debug_info_add line column) (map (\<lambda>n. (word_of_nat n, 0)) [0..<57])
      (debug_info_init, generous_heap) = Inr t)"
  using line_runs_limit [of generous_heap "map (\<lambda>n. (word_of_nat n, 0)) [0..<58]"]
    line_runs_limit [of generous_heap "map (\<lambda>n. (word_of_nat n, 0)) [0..<57]"]
  by (simp add: upt_conv_Cons del: res_fold.simps)

subsection \<open>Chunks\<close>

text \<open>C23: Writing the bytes \<open>xs\<close> with their positions keeps code, lines and columns aligned: the code
  grows by exactly these bytes, the debug information by exactly their positions, the constants
  stay, and the only way to fail is the exit of \<open>error_not_enough_memory\<close>.\<close>

theorem chunk_write_bytes:
  assumes "chunk_ok chunk" and "sane h" and "mset (live h) = chunk_blocks chunk + F"
  shows "case res_fold (\<lambda>(b, line, column). chunk_write_byte b line column) xs (chunk, h) of
      Inl e \<Rightarrow> e = error_not_enough_memory
    | Inr (chunk', h') \<Rightarrow> chunk_ok chunk' \<and> chunk_code chunk' = chunk_code chunk @ map fst xs
        \<and> debug_list (debug_info chunk') = debug_list (debug_info chunk) @ map snd xs
        \<and> chunk_constants chunk' = chunk_constants chunk \<and> mset (live h') = chunk_blocks chunk' + F"
proof (cases "res_fold (\<lambda>(b, line, column). chunk_write_byte b line column) xs (chunk, h)")
  case (Inl e)
  with chunk.push_all_fault [OF assms Inl] show ?thesis by simp
next
  case (Inr r)
  then obtain chunk' h' where run: "res_fold (\<lambda>(b, line, column). chunk_write_byte b line column) xs
      (chunk, h) = Inr (chunk', h')" by (cases r) auto
  from chunk.push_all_return [OF assms run] have ok: "chunk_ok chunk'"
    and cells: "chunk_cells chunk' = chunk_cells chunk @ xs" and "mset (live h') = chunk_blocks chunk' + F"
    by simp_all
  with run chunk_ok_lengths(4,5) [OF ok] chunk_ok_lengths(4,5) [OF assms(1)]
    chunk_write_bytes_constants [OF run] show ?thesis by (simp add: chunk_constants_def)
qed

theorem chunk_write_bytes_witness:
  "\<exists>chunk h. res_fold (\<lambda>(b, line, column). chunk_write_byte b line column) [(1, 5, 2), (0, 6, 1)]
      (chunk_init, generous_heap) = Inr (chunk, h)
    \<and> chunk_code chunk = [1, 0] \<and> debug_list (debug_info chunk) = [(5, 2), (6, 1)]"
proof -
  have debug: "debug_info chunk_init = debug_info_init" by (simp add: chunk_init_def)
  have "\<exists>t. res_fold (\<lambda>(b, line, column). chunk_write_byte b line column) [(1, 5, 2), (0, 6, 1)]
      (chunk_init, generous_heap) = Inr t"
    by (rule chunk_write_all_room [where F = "{#}"]) (simp_all add: debug del: res_fold.simps)
  with chunk_write_bytes [of chunk_init generous_heap "{#}" "[(1, 5, 2), (0, 6, 1)]"] debug show ?thesis
    by (auto simp del: res_fold.simps)
qed

text \<open>C5: Writing a constant appends it to the constants and an instruction that loads it to the code,
  all of whose bytes have the given position: one byte of operand for the first 256 constants, three
  bytes, the lowest first, for the others. It fails without memory, and for the constant after the
  16777216th.\<close>

theorem chunk_write_op_constant_correct:
  assumes "chunk_ok chunk" and "sane h" and "mset (live h) = chunk_blocks chunk + F"
  defines "n \<equiv> length (chunk_constants chunk)"
  shows "case chunk_write_op_constant v line column (chunk, h) of
      Inl e \<Rightarrow> e = error_not_enough_memory \<or> e = error_too_many_constants_in_chunk \<and> 16777216 \<le> n
    | Inr (chunk', h') \<Rightarrow> chunk_ok chunk' \<and> n < 16777216
        \<and> chunk_constants chunk' = chunk_constants chunk @ [v]
        \<and> chunk_code chunk' = chunk_code chunk @
            (if n < 256 then [2, word_of_nat n]
             else [3, word_of_nat n, word_of_nat (n div 256), word_of_nat (n div 65536)])
        \<and> debug_list (debug_info chunk') =
            debug_list (debug_info chunk) @ replicate (if n < 256 then 2 else 4) (line, column)
        \<and> mset (live h') = chunk_blocks chunk' + F"
proof (cases "chunk_write_op_constant v line column (chunk, h)")
  case (Inl e)
  with write_op_constant_fault [OF assms(1-3) Inl] show ?thesis by (simp add: n_def)
next
  case (Inr r)
  then obtain chunk' h' where run: "chunk_write_op_constant v line column (chunk, h) = Inr (chunk', h')"
    by (cases r) auto
  from write_op_constant_return [OF assms(1-3) run] have ok: "chunk_ok chunk'" and n: "n < 16777216"
    and cells: "chunk_cells chunk' = chunk_cells chunk @
      map (\<lambda>b. (b, line, column)) (encode_constant (word_of_nat n))"
    and rest: "chunk_constants chunk' = chunk_constants chunk @ [v]"
      "mset (live h') = chunk_blocks chunk' + F" by (simp_all add: n_def)
  from cells chunk_ok_lengths(4,5) [OF ok] chunk_ok_lengths(4,5) [OF assms(1)]
  have "chunk_code chunk' = chunk_code chunk @ encode_constant (word_of_nat n)"
    "debug_list (debug_info chunk') = debug_list (debug_info chunk) @
      replicate (length (encode_constant (word_of_nat n))) (line, column)"
    by (simp_all add: comp_def map_replicate_const)
  with run ok n rest encode_constant_bytes [OF n] show ?thesis by simp
qed

theorem chunk_write_op_constant_correct_witness:
  "\<exists>chunk h. chunk_write_op_constant (make_value_int 7) 5 2 (chunk_init, generous_heap) = Inr (chunk, h)
    \<and> chunk_constants chunk = [make_value_int 7] \<and> chunk_code chunk = [2, 0]
    \<and> debug_list (debug_info chunk) = [(5, 2), (5, 2)]"
proof -
  have debug: "debug_info chunk_init = debug_info_init" by (simp add: chunk_init_def)
  have "\<exists>t. chunk_write_op_constant (make_value_int 7) 5 2 (chunk_init, generous_heap) = Inr t"
    by (rule write_op_constant_room [where F = "{#}"]) (simp_all add: debug)
  with chunk_write_op_constant_correct [of chunk_init generous_heap "{#}" "make_value_int 7" 5 2] debug
  show ?thesis by (auto simp: numeral_2_eq_2)
qed

text \<open>C35: A constant that has been written stays readable where it was written. However the chunk goes on - any
  bytes and any constants, at any positions - the machine in front of its offset pushes this constant
  and goes on behind its bytes, and the disassembler shows its row: offset, line and column it was written with,
  its index and its value, one byte of index or three. The chunk in front of it need not be a program.\<close>

theorem written_constant_stays:
  assumes "chunk_ok chunk" and "sane h" and "mset (live h) = chunk_blocks chunk + F"
    and "chunk_write_op_constant v line column (chunk, h) = Inr (chunk1, h1)"
    and "res_fold write_item ws (chunk1, h1) = Inr (chunk2, h2)"
    and "vm_chunk vm = chunk2" and "vm_ip vm = length (chunk_code chunk)"
  defines "n \<equiv> length (chunk_constants chunk)"
  shows "vm_step False (vm, h3) = res_bind (vm_stack_push v (vm_stack vm, h3)) (\<lambda>(stack, h4).
      Inr ([], None, vm\<lparr>vm_ip := length (chunk_code chunk1), vm_stack := stack\<rparr>, h4))
    \<and> disassemble_instruction chunk2 (length (chunk_code chunk)) =
      Inr (print_zu 6 (word_of_nat (length (chunk_code chunk))) @ '' | '' @ print_zu 6 line @ '' | '' @
          print_zu 6 column @ '' | '' @
          print_instruction_name (if n < 256 then ''OP_CONSTANT'' else ''OP_CONSTANT_LONG'') @
          print_zu 7 (word_of_nat n) @ '' | '' @ print_value v,
        length (chunk_code chunk1))"
proof
  note written = written_constant_at [OF assms(1-5), folded n_def]
  have "at_instr vm [Load n]" using written(1) assms(6,7) by (simp add: at_instr_def)
  from step_load [OF this, of h3] written(2,3) assms(6,7)
  show "vm_step False (vm, h3) = res_bind (vm_stack_push v (vm_stack vm, h3)) (\<lambda>(stack, h4).
      Inr ([], None, vm\<lparr>vm_ip := length (chunk_code chunk1), vm_stack := stack\<rparr>, h4))"
    by (simp del: encode_instr.simps)
  have "n \<le> 255 \<longleftrightarrow> n < 256" by auto
  with disassemble_instruction_at [OF written(1)] written(2-4)
  show "disassemble_instruction chunk2 (length (chunk_code chunk)) =
      Inr (print_zu 6 (word_of_nat (length (chunk_code chunk))) @ '' | '' @ print_zu 6 line @ '' | '' @
          print_zu 6 column @ '' | '' @
          print_instruction_name (if n < 256 then ''OP_CONSTANT'' else ''OP_CONSTANT_LONG'') @
          print_zu 7 (word_of_nat n) @ '' | '' @ print_value v,
        length (chunk_code chunk1))"
    by (simp add: line_text_def instr_text_def del: encode_instr.simps)
qed

text \<open>A constant behind a byte that is no operation, followed by another such byte.\<close>

theorem written_constant_stays_witness:
  "\<exists>chunk h chunk1 h1 chunk2 h2. chunk_write_byte 9 1 1 (chunk_init, generous_heap) = Inr (chunk, h)
    \<and> chunk_write_op_constant (make_value_int 7) 5 2 (chunk, h) = Inr (chunk1, h1)
    \<and> chunk_write_byte 200 6 1 (chunk1, h1) = Inr (chunk2, h2)
    \<and> disassemble_instruction chunk2 1 = Inr (''000001 | 000005 | 000002 | OP_CONSTANT      | 0000000 | 7'', 3)
    \<and> (\<forall>vm h3. vm_step False (vm\<lparr>vm_chunk := chunk2, vm_ip := 1\<rparr>, h3) =
        res_bind (vm_stack_push (make_value_int 7) (vm_stack vm, h3)) (\<lambda>(stack, h4).
          Inr ([], None, vm\<lparr>vm_chunk := chunk2, vm_ip := 3, vm_stack := stack\<rparr>, h4)))"
proof -
  let ?ws = "[(Inl 9, 1, 1), (Inr (make_value_int 7), 5, 2), (Inl 200, 6, 1)] :: ((byte + Value) \<times> size_t \<times> size_t) list"
  have live: "mset (live generous_heap) = chunk_blocks chunk_init + {#}" by simp
  obtain chunk2 h2 where "res_fold write_item ?ws (chunk_init, generous_heap) = Inr (chunk2, h2)"
    using write_items_room [OF chunk_init_ok(1) generous_heap(1,2) live, of ?ws] by auto
  then obtain chunk h chunk1 h1 where run: "chunk_write_byte 9 1 1 (chunk_init, generous_heap) = Inr (chunk, h)"
    and run1: "chunk_write_op_constant (make_value_int 7) 5 2 (chunk, h) = Inr (chunk1, h1)"
    and run2: "res_fold write_item [(Inl 200, 6, 1)] (chunk1, h1) = Inr (chunk2, h2)"
    by (auto elim!: res_bindE)
  note w = write_byte_appends [OF chunk_init_ok(1) generous_heap(1) live run]
  have host: "sane h" using w(5) generous_heap(1) by (simp add: sane_def)
  have offsets: "length (chunk_code chunk) = 1" "length (chunk_constants chunk) = 0" "length (chunk_code chunk1) = 3"
    using w(2,3) write_op_constant_appends(4) [OF w(1) host w(6) run1] by (simp_all add: encode_constant_def)
  note stays = written_constant_stays [OF w(1) host w(6) run1 run2, unfolded offsets]
  have step: "vm_step False (vm\<lparr>vm_chunk := chunk2, vm_ip := 1\<rparr>, h3) =
      res_bind (vm_stack_push (make_value_int 7) (vm_stack vm, h3)) (\<lambda>(stack, h4).
        Inr ([], None, vm\<lparr>vm_chunk := chunk2, vm_ip := 3, vm_stack := stack\<rparr>, h4))" for vm h3
    using stays [of "vm\<lparr>vm_chunk := chunk2, vm_ip := 1\<rparr>" h3] by simp
  have "disassemble_instruction chunk2 1 = Inr (''000001 | 000005 | 000002 | OP_CONSTANT      | 0000000 | 7'', 3)"
    using stays [of "vm\<lparr>vm_chunk := chunk2, vm_ip := 1\<rparr>" h for vm]
    by (simp add: print_instruction_name_def print_value_def make_value_int_def eval)
  with run run1 run2 step show ?thesis by (intro exI conjI allI) (assumption | simp)+
qed

text \<open>Freeing a chunk gives back its three blocks of memory and nothing else, and leaves it as
  \<open>chunk_init\<close> does.\<close>

theorem chunk_free_releases:
  assumes "mset (live h) = chunk_blocks chunk + F"
  shows "\<exists>h'. chunk_free chunk h = Inr (chunk_init, h') \<and> mset (live h') = F"
  using chunk_free_ok [OF assms] by blast

theorem chunk_free_releases_witness:
  "\<exists>chunk h h'. chunk_write_op_constant (make_value_int 7) 5 2 (chunk_init, generous_heap) = Inr (chunk, h)
    \<and> chunk_free chunk h = Inr (chunk_init, h') \<and> live h' = []"
proof -
  have debug: "debug_info chunk_init = debug_info_init" by (simp add: chunk_init_def)
  have "\<exists>t. chunk_write_op_constant (make_value_int 7) 5 2 (chunk_init, generous_heap) = Inr t"
    by (rule write_op_constant_room [where F = "{#}"]) (simp_all add: debug)
  then obtain chunk h where run:
    "chunk_write_op_constant (make_value_int 7) 5 2 (chunk_init, generous_heap) = Inr (chunk, h)" by auto
  have "mset (live h) = chunk_blocks chunk + {#}"
    using write_op_constant_return [OF _ _ _ run, of "{#}"] by simp
  from chunk_free_releases [OF this] run show ?thesis by auto
qed

text \<open>C9: What the writing functions produce is a program again: after a chunk that implements \<open>is\<close>,
  writing a constant appends the instruction that loads it, and writing the byte of \<open>OP_DUMP\<close> or
  \<open>OP_RETURN\<close> appends that instruction.\<close>

theorem writing_programs:
  assumes "implements chunk is" and "sane h" and "mset (live h) = chunk_blocks chunk + F"
  shows "(chunk_write_op_constant v line column (chunk, h) = Inr (chunk', h') \<longrightarrow>
      implements chunk' (is @ [Load (length (chunk_constants chunk))])
      \<and> chunk_constants chunk' = chunk_constants chunk @ [v])
    \<and> (chunk_write_byte (op_byte OP_DUMP) line column (chunk, h) = Inr (chunk', h') \<longrightarrow>
      implements chunk' (is @ [Dump]) \<and> chunk_constants chunk' = chunk_constants chunk)
    \<and> (chunk_write_byte (op_byte OP_RETURN) line column (chunk, h) = Inr (chunk', h') \<longrightarrow>
      implements chunk' (is @ [Return]) \<and> chunk_constants chunk' = chunk_constants chunk)"
  using implements_load_constant [OF assms] implements_write_byte [OF assms, of Dump]
    implements_write_byte [OF assms, of Return] by auto

theorem writing_programs_witness:
  "\<exists>chunk h. chunk_write_op_constant (make_value_int 7) 1 1 (chunk_init, generous_heap) = Inr (chunk, h)
    \<and> implements chunk [Load 0]"
proof -
  have live: "mset (live generous_heap) = chunk_blocks chunk_init + {#}" by simp
  have lines: "line_list (debug_info chunk_init) = []" by (simp add: chunk_init_def)
  have "\<exists>t. chunk_write_op_constant (make_value_int 7) 1 1 (chunk_init, generous_heap) = Inr t"
    by (rule write_op_constant_room [OF _ _ _ live]) (simp_all add: lines)
  then obtain chunk h where
    "chunk_write_op_constant (make_value_int 7) 1 1 (chunk_init, generous_heap) = Inr (chunk, h)" by auto
  with writing_programs [of chunk_init "[]" generous_heap "{#}" "make_value_int 7" 1 1 chunk h] show ?thesis
    by auto
qed

subsection \<open>The virtual machine\<close>

text \<open>C2: Running a chunk that implements a program on a well-formed stack does what the abstract stack
  machine \<open>exec\<close> does: it prints the dumped values, returns \<open>INTERPRETER_OK\<close> and leaves the stack of
  the abstract machine, unless it exits for lack of memory, which it does not on a generous host when the stack and the
  program stay within \<open>2 ^ 57\<close>. Only the stack's own block of memory
  changes.\<close>

theorem vm_run_correct:
  assumes "implements chunk is" and "stack_ok (vm_stack vm)" and "sane h"
    and "mset (live h) = stack_blocks (vm_stack vm) + F"
    and "exec (chunk_constants chunk) is (stack_list (vm_stack vm)) = Some (out, st)"
  shows "case vm_run False vm chunk h of
      Inl e \<Rightarrow> e = error_not_enough_memory
        \<and> \<not> (generous h \<and> length (stack_list (vm_stack vm)) + length is \<le> 2 ^ 57)
    | Inr (text, res, vm', h') \<Rightarrow>
        text = dump_text out \<and> res = INTERPRETER_OK \<and> vm_chunk vm' = chunk
        \<and> stack_ok (vm_stack vm') \<and> stack_list (vm_stack vm') = st
        \<and> mset (live h') = stack_blocks (vm_stack vm') + F"
proof -
  obtain ip where "run_post (length (stack_list (vm_stack vm)) + length is \<le> 2 ^ 57) F
      (vm\<lparr>vm_chunk := chunk, vm_ip := 0\<rparr>) h ip INTERPRETER_OK (out, st) (vm_run False vm chunk h)"
    using vm_run_refines [OF assms] by blast
  then show ?thesis by (auto simp: run_post_def split: sum.splits)
qed

text \<open>The machine before a run, with an empty stack, and the program of \<^verbatim>\<open>main.c\<close> on it.\<close>

theorem vm_run_correct_witness:
  "\<exists>chunk h. dump_program (make_value_int 7) generous_heap = Inr (chunk, h)
    \<and> (\<forall>vm. \<exists>vm' h'. vm_run False (vm_init vm) chunk h = Inr (''7'' @ [newline], INTERPRETER_OK, vm', h')
        \<and> stack_list (vm_stack vm') = [])"
proof -
  obtain chunk h where run: "dump_program (make_value_int 7) generous_heap = Inr (chunk, h)"
    and impl: "implements chunk [Load 0, Dump, Return]" and cs: "chunk_constants chunk = [make_value_int 7]"
    and info: "debug_list (debug_info chunk) = [(0, 0), (0, 0), (1, 0), (2, 0)]"
    and host: "sane h" "generous h" and live: "mset (live h) = chunk_blocks chunk"
    by (rule dump_program_generous)
  have shown: "dump_text [make_value_int 7] = ''7'' @ [newline]"
    by (simp add: dump_text_def print_value_def make_value_int_def eval)
  have "\<exists>vm' h'. vm_run False (vm_init vm) chunk h = Inr (''7'' @ [newline], INTERPRETER_OK, vm', h')
      \<and> stack_list (vm_stack vm') = []" for vm
    using vm_run_correct [OF impl _ host(1), of "vm_init vm" "chunk_blocks chunk" "[make_value_int 7]" "[]"]
      live cs shown host(2)
    by (auto simp: vm_init_def split: sum.splits)
  with run show ?thesis by blast
qed



text \<open>C11: In every state that the interpreter loop reaches on a program that ends in a return, the machine has its chunk,
  a well-formed stack, and its instruction pointer in front of an instruction of the program, never inside one
  or behind the last; the heap has changed by the stack's block alone. The next turn can fail in two ways only:
  no memory for a value that is loaded, or a dump from the empty stack.\<close>

theorem reached_states:
  assumes "implements chunk (is @ [Return])" and "stack_ok (vm_stack vm)" and "sane h"
    and "mset (live h) = stack_blocks (vm_stack vm) + F"
    and "vm_reaches (vm\<lparr>vm_chunk := chunk, vm_ip := 0\<rparr>, h) out (vm', h')"
  shows "vm_chunk vm' = chunk \<and> stack_ok (vm_stack vm') \<and> mset (live h') = stack_blocks (vm_stack vm') + F
    \<and> (\<exists>pre i post. is @ [Return] = pre @ i # post \<and> vm_ip vm' = length (encode_program pre)
      \<and> (case vm_step False (vm', h') of
          Inr t \<Rightarrow> True
        | Inl e \<Rightarrow> (\<exists>n. i = Load n) \<and> e = error_not_enough_memory
            \<or> i = Dump \<and> stack_list (vm_stack vm') = [] \<and> e = OutOfBounds))"
proof -
  obtain i post where "is @ [Return] = [] @ i # post" by (cases "is") auto
  then have "vm_inv chunk (is @ [Return]) F (vm\<lparr>vm_chunk := chunk, vm_ip := 0\<rparr>, h)"
    using assms(2-4) unfolding vm_inv_def by fastforce
  from vm_reaches_inv [OF assms(5,1) this] have inv: "vm_inv chunk (is @ [Return]) F (vm', h')" .
  then have state: "vm_chunk vm' = chunk" "stack_ok (vm_stack vm')" "sane h'"
    "mset (live h') = stack_blocks (vm_stack vm') + F" by (simp_all add: vm_inv_def)
  obtain pre i post where split: "is @ [Return] = pre @ i # post" and at: "at_instr vm' (i # post)"
    and ip: "vm_ip vm' = length (encode_program pre)"
    by (rule vm_inv_at [OF assms(1) inv])
  have "case vm_step False (vm', h') of Inr t \<Rightarrow> True
      | Inl e \<Rightarrow> (\<exists>n. i = Load n) \<and> e = error_not_enough_memory
          \<or> i = Dump \<and> stack_list (vm_stack vm') = [] \<and> e = OutOfBounds"
    using step_fault [OF at state(2-4)] by (auto split: sum.splits)
  with state split ip show ?thesis by blast
qed

text \<open>The program of \<^verbatim>\<open>main.c\<close> after its first turn.\<close>

theorem reached_states_witness:
  "\<exists>chunk h. dump_program (make_value_int 7) generous_heap = Inr (chunk, h)
    \<and> (\<forall>vm. \<exists>vm' h'. vm_reaches ((vm_init vm)\<lparr>vm_chunk := chunk, vm_ip := 0\<rparr>, h) [] (vm', h')
      \<and> vm_ip vm' = 2 \<and> stack_ok (vm_stack vm'))"
proof -
  obtain chunk h where run: "dump_program (make_value_int 7) generous_heap = Inr (chunk, h)"
    and impl: "implements chunk [Load 0, Dump, Return]" and cs: "chunk_constants chunk = [make_value_int 7]"
    and host: "sane h" "generous h" and live: "mset (live h) = chunk_blocks chunk"
    by (rule dump_program_generous)
  have "\<exists>t. vm_stack_push (make_value_int 7) (vm_stack_init, h) = Inr t"
    using stack.push_room [of vm_stack_init h "chunk_blocks chunk" "make_value_int 7"] host live by simp
  then obtain s h' where push: "vm_stack_push (make_value_int 7) (vm_stack_init, h) = Inr (s, h')" by auto
  have "\<exists>vm' h'. vm_reaches ((vm_init vm)\<lparr>vm_chunk := chunk, vm_ip := 0\<rparr>, h) [] (vm', h')
      \<and> vm_ip vm' = 2 \<and> stack_ok (vm_stack vm')" for vm
  proof -
    let ?vm = "(vm_init vm)\<lparr>vm_chunk := chunk, vm_ip := 0\<rparr>"
    from step_load [OF at_instr_start [OF impl], of "vm_init vm" h] cs push
    have "vm_step False (?vm, h) = Inr ([], None, ?vm\<lparr>vm_ip := 2, vm_stack := s\<rparr>, h')"
      by (simp add: encode_constant_def vm_init_def)
    from vm_reaches.turn [OF vm_reaches.start this]
    have reached: "vm_reaches (?vm, h) [] (?vm\<lparr>vm_ip := 2, vm_stack := s\<rparr>, h')" by simp
    have "implements chunk ([Load 0, Dump] @ [Return])" using impl by simp
    from reached_states [OF this _ host(1) _ reached, of "chunk_blocks chunk"] live
    have "stack_ok s" by (simp add: vm_init_def)
    with reached show ?thesis by (intro exI conjI) (assumption, simp_all)
  qed
  with run show ?thesis by blast
qed

text \<open>C32: The stack is not checked before a value is taken: a program that dumps more values than it has pushed never
  comes to a result. The machine reads in front of the stack, unless it exits for lack of memory before.\<close>

theorem stack_underflow:
  assumes "implements chunk is" and "stack_ok (vm_stack vm)" and "sane h"
    and "mset (live h) = stack_blocks (vm_stack vm) + F" and "underflows is (length (stack_list (vm_stack vm)))"
  shows "\<exists>e. vm_run False vm chunk h = Inl e \<and> (e = OutOfBounds \<or> e = error_not_enough_memory)
    \<and> (generous h \<and> length (stack_list (vm_stack vm)) + length is \<le> 2 ^ 57 \<longrightarrow> e = OutOfBounds)"
  using vm_loop_underflow [OF at_instr_start [OF assms(1)], of vm h F] assms by (simp add: vm_run_def)

text \<open>One value, dumped twice.\<close>

theorem stack_underflow_witness:
  "\<exists>chunk h. res_fold write_op [(Push (make_value_int 7), 1, 1), (Print, 1, 1), (Print, 2, 1)]
      (chunk_init, generous_heap) = Inr (chunk, h)
    \<and> (\<forall>vm. vm_run False (vm_init vm) chunk h = Inl OutOfBounds)"
proof -
  let ?xs = "[(Push (make_value_int 7), 1, 1), (Print, 1, 1), (Print, 2, 1)] :: (op \<times> size_t \<times> size_t) list"
  have "line_list (debug_info chunk_init) = []" by (simp add: chunk_init_def)
  with write_ops_room [OF implements_init generous_heap(1,2), of "{#}" ?xs]
  obtain chunk h where run: "res_fold write_op ?xs (chunk_init, generous_heap) = Inr (chunk, h)"
    and impl: "implements chunk [Load 0, Dump, Dump]" and grants: "host_grants h = host_grants generous_heap"
    and live: "mset (live h) = chunk_blocks chunk" by (auto simp del: res_fold.simps)
  have "sane h" "generous h" using grants generous_heap(1,2) by (simp_all add: sane_def generous_def)
  with stack_underflow [OF impl, of "vm_init vm" h "chunk_blocks chunk" for vm] live
  have "vm_run False (vm_init vm) chunk h = Inl OutOfBounds" for vm by (fastforce simp: vm_init_def)
  with run show ?thesis by blast
qed

text \<open>The value pushed last is the value popped first, and the rest of the stack is as before;
  popping moves no memory.\<close>

theorem stack_last_in_first_out:
  assumes "stack_ok stack" and "sane h" and "mset (live h) = stack_blocks stack + F"
    and "vm_stack_push v (stack, h) = Inr (stack', h')"
  shows "\<exists>stack''. vm_stack_pop stack' = Inr (v, stack'') \<and> stack_ok stack''
    \<and> stack_list stack'' = stack_list stack \<and> mset (live h') = stack_blocks stack'' + F"
  using stack.push_return [OF assms] stack.pop_last [of stack'] by auto

theorem stack_last_in_first_out_witness:
  "\<exists>stack h stack'. vm_stack_push (make_value_int 7) (vm_stack_init, generous_heap) = Inr (stack, h)
    \<and> vm_stack_pop stack = Inr (make_value_int 7, stack') \<and> stack_list stack' = []"
proof -
  have "\<exists>t. vm_stack_push (make_value_int 7) (vm_stack_init, generous_heap) = Inr t"
    by (rule stack.push_room [where F = "{#}"]) simp_all
  then obtain stack h where run: "vm_stack_push (make_value_int 7) (vm_stack_init, generous_heap) = Inr (stack, h)"
    by auto
  from stack_last_in_first_out [OF _ _ _ run, of "{#}"] run show ?thesis by auto
qed

text \<open>In particular, a program whose first instruction is \<open>OP_DUMP\<close> makes the
  machine read in front of an empty stack.\<close>

theorem dump_on_empty_stack:
  assumes "implements chunk (Dump # is)" and "stack_ok (vm_stack vm)" and "stack_list (vm_stack vm) = []"
  shows "vm_run False vm chunk h = Inl OutOfBounds"
  using step_dump [OF at_instr_start [OF assms(1)], of vm h] stack.pop_empty [OF assms(2,3)]
  by (simp add: vm_run_def vm_loop.simps)

theorem dump_on_empty_stack_witness:
  "\<exists>chunk h. chunk_write_byte (op_byte OP_DUMP) 1 0 (chunk_init, generous_heap) = Inr (chunk, h)
    \<and> (\<forall>vm. vm_run False (vm_init vm) chunk h = Inl OutOfBounds)"
proof -
  have live: "mset (live generous_heap) = chunk_blocks chunk_init + {#}" by simp
  have lines: "line_list (debug_info chunk_init) = []" by (simp add: chunk_init_def)
  have "\<exists>t. chunk_write_byte (op_byte OP_DUMP) 1 0 (chunk_init, generous_heap) = Inr t"
    by (rule chunk_write_byte_room [OF _ _ _ live]) (simp_all add: lines)
  then obtain chunk h where
    run: "chunk_write_byte (op_byte OP_DUMP) 1 0 (chunk_init, generous_heap) = Inr (chunk, h)" by auto
  from implements_write_byte [OF implements_init _ live _ _ this, of Dump] have "implements chunk [Dump]"
    by simp
  then have "vm_run False (vm_init vm) chunk h = Inl OutOfBounds" for vm
    by (rule dump_on_empty_stack) (simp_all add: vm_init_def)
  with run show ?thesis by blast
qed

text \<open>C36: A byte that is no operation code, wherever it stands behind instructions without a return and whatever
  follows it, ends the run with \<open>INTERPRETER_NOK_RUNTIME\<close> when the machine comes to it: the instructions in front of
  it have been executed, with their output, their stack and their effect on the heap, and the instruction
  pointer is behind the byte. The only other outcome is the exit for lack of memory in one of these instructions.\<close>

theorem unknown_operation:
  assumes "chunk_ok chunk" and "chunk_code chunk = encode_program is @ b # bs"
    and "list_all (instr_ok (length (chunk_constants chunk))) is" and "3 < b" and "Return \<notin> set is"
    and "stack_ok (vm_stack vm)" and "sane h" and "mset (live h) = stack_blocks (vm_stack vm) + F"
    and "exec (chunk_constants chunk) (is @ [Return]) (stack_list (vm_stack vm)) = Some (out, st)"
  shows "case vm_run False vm chunk h of
      Inl e \<Rightarrow> e = error_not_enough_memory
        \<and> \<not> (generous h \<and> length (stack_list (vm_stack vm)) + length is \<le> 2 ^ 57)
    | Inr (text, res, vm', h') \<Rightarrow>
        text = dump_text out \<and> res = INTERPRETER_NOK_RUNTIME \<and> vm_chunk vm' = chunk
        \<and> vm_ip vm' = length (encode_program is) + 1
        \<and> stack_ok (vm_stack vm') \<and> stack_list (vm_stack vm') = st
        \<and> mset (live h') = stack_blocks (vm_stack vm') + F"
  using vm_run_unknown [OF assms] by (auto simp: run_post_def split: sum.splits)

text \<open>The byte 9 behind two values of which the second is printed, and in front of a return.\<close>

theorem unknown_operation_witness:
  "\<exists>chunk h. res_fold write_item [(Inr (make_value_int 7), 1, 1), (Inr (make_value_int 8), 1, 4), (Inl 1, 2, 1),
        (Inl 9, 3, 1), (Inl 0, 4, 1)] (chunk_init, generous_heap) = Inr (chunk, h)
    \<and> (\<forall>vm. \<exists>vm' h'. vm_run False (vm_init vm) chunk h
        = Inr (''8'' @ [newline], INTERPRETER_NOK_RUNTIME, vm', h') \<and> vm_ip vm' = 6
      \<and> stack_list (vm_stack vm') = [make_value_int 7])"
proof -
  let ?ws = "[(Inr (make_value_int 7), 1, 1), (Inr (make_value_int 8), 1, 4), (Inl 1, 2, 1), (Inl 9, 3, 1), (Inl 0, 4, 1)]
      :: ((byte + Value) \<times> size_t \<times> size_t) list"
  let ?is = "[Load 0, Load 1, Dump]"
  have live: "mset (live generous_heap) = chunk_blocks chunk_init + {#}" by simp
  obtain chunk h where run: "res_fold write_item ?ws (chunk_init, generous_heap) = Inr (chunk, h)"
    using write_items_room [OF chunk_init_ok(1) generous_heap(1,2) live, of ?ws] by (auto simp del: res_fold.simps)
  note ret = write_items_return [OF chunk_init_ok(1) generous_heap(1) live run]
  have bytes: "encode_program ?is = [2, 0, 2, 1, 1]" by (simp add: encode_constant_def)
  have ok: "chunk_ok chunk" and cs: "chunk_constants chunk = [make_value_int 7, make_value_int 8]"
    and code: "chunk_code chunk = encode_program ?is @ 9 # [0]"
    using ret write_items_code(1) [OF chunk_init_ok(1), of chunk] bytes by (simp_all add: encode_constant_def)
  have host: "sane h" "generous h" using ret generous_heap(1,2) by (simp_all add: sane_def generous_def)
  have shows_8: "dump_text [make_value_int 8] = ''8'' @ [newline]"
    by (simp add: dump_text_def print_value_def make_value_int_def eval)
  have "\<exists>vm' h'. vm_run False (vm_init vm) chunk h = Inr (''8'' @ [newline], INTERPRETER_NOK_RUNTIME, vm', h')
      \<and> vm_ip vm' = 6 \<and> stack_list (vm_stack vm') = [make_value_int 7]" for vm
    using unknown_operation [OF ok code _ _ _ _ host(1), of "vm_init vm" "mset (live h)" "[make_value_int 8]" "[make_value_int 7]"]
      cs shows_8 host(2)
    by (auto simp: vm_init_def encode_constant_def split: sum.splits)
  with run show ?thesis by blast
qed

text \<open>C28: Tracing (\<open>SKARD_DEBUG_TRACE\<close>) of a program that ends in a return: the turns of the program say what
  both runs print. Without tracing, the output is what the instructions print, turn by turn; with
  tracing, each turn first shows the stack, from bottom to top, and the disassembler's row of the instruction it is
  about to execute, and nothing else is added, lost or moved. The result, the machine and the memory are the same, and a
  fault is the same fault.\<close>

theorem tracing_shows_turns:
  assumes "implements chunk (is @ [Return])" and "stack_ok (vm_stack vm)" and "sane h"
    and "mset (live h) = stack_blocks (vm_stack vm) + F"
  defines "ts \<equiv> turns chunk 0 (is @ [Return]) (stack_list (vm_stack vm))"
  shows "case vm_run False vm chunk h of
      Inl e \<Rightarrow> vm_run True vm chunk h = Inl e
    | Inr (text, res, t) \<Rightarrow> text = concat (map snd ts)
        \<and> vm_run True vm chunk h = Inr (concat (map (\<lambda>(shows, prints). shows @ prints) ts), res, t)"
proof -
  have "explains ts (vm_run False vm chunk h) (vm_run True vm chunk h)"
    using vm_loop_traced [OF at_instr_start [OF assms(1)], of vm h F] assms(2-4) by (simp add: vm_run_def ts_def)
  then show ?thesis by (cases "vm_run False vm chunk h") (simp_all add: explains_def split: prod.splits)
qed

text \<open>The program of \<^verbatim>\<open>main.c\<close>, traced.\<close>

theorem tracing_shows_turns_witness:
  "\<exists>chunk h. dump_program (make_value_int 7) generous_heap = Inr (chunk, h)
    \<and> (\<forall>vm. \<exists>t. vm_run False (vm_init vm) chunk h = Inr (''7'' @ [newline], t)
      \<and> vm_run True (vm_init vm) chunk h =
        Inr (''{  }'' @ [newline] @
            ''000000 | 000000 | 000000 | OP_CONSTANT      | 0000000 | 7'' @ [newline] @
            ''{ [ 7 ] }'' @ [newline] @
            ''000002 | 000001 | 000000 | OP_DUMP          | '' @ [newline] @ ''7'' @ [newline] @
            ''{  }'' @ [newline] @
            ''000003 | 000002 | 000000 | OP_RETURN        | '' @ [newline], t))"
proof -
  obtain chunk h where run: "dump_program (make_value_int 7) generous_heap = Inr (chunk, h)"
    and impl: "implements chunk [Load 0, Dump, Return]" and cs: "chunk_constants chunk = [make_value_int 7]"
    and info: "debug_list (debug_info chunk) = [(0, 0), (0, 0), (1, 0), (2, 0)]"
    and host: "sane h" "generous h" and live: "mset (live h) = chunk_blocks chunk"
    by (rule dump_program_generous)
  have load: "encode_instr (Load 0) = [2, 0]" by (simp add: encode_constant_def)
  let ?is = "[Load 0, Dump] @ [Return]"
  have impl': "implements chunk ?is" using impl by simp
  have shown_turns: "turns chunk 0 ?is [] =
     [(''{  }'' @ [newline] @ ''000000 | 000000 | 000000 | OP_CONSTANT      | 0000000 | 7'' @ [newline], []),
      (''{ [ 7 ] }'' @ [newline] @ ''000002 | 000001 | 000000 | OP_DUMP          | '' @ [newline], ''7'' @ [newline]),
      (''{  }'' @ [newline] @ ''000003 | 000002 | 000000 | OP_RETURN        | '' @ [newline], [])]"
    using load by (simp add: shown_def stack_text_def line_text_def instr_text_def info cs print_instruction_name_def
        print_value_def make_value_int_def eval del: encode_instr.simps(3))
  have "\<exists>t. vm_run False (vm_init vm) chunk h = Inr (''7'' @ [newline], t)
      \<and> vm_run True (vm_init vm) chunk h = Inr (concat (map (\<lambda>(shows, prints). shows @ prints) (turns chunk 0 ?is [])), t)" for vm
  proof -
    have "\<exists>t. vm_run False (vm_init vm) chunk h = Inr t"
      using vm_run_refines [OF impl _ host(1), of "vm_init vm" "chunk_blocks chunk" "[make_value_int 7]" "[]"] live cs host(2)
      by (cases "vm_run False (vm_init vm) chunk h") (auto simp: vm_init_def run_post_def)
    then obtain out res t where plain: "vm_run False (vm_init vm) chunk h = Inr (out, res, t)" by auto
    have empty: "stack_list (vm_stack (vm_init vm)) = []" "stack_ok (vm_stack (vm_init vm))"
      "mset (live h) = stack_blocks (vm_stack (vm_init vm)) + chunk_blocks chunk"
      using live by (simp_all add: vm_init_def)
    have "concat (map snd (turns chunk 0 ?is [])) = ''7'' @ [newline]" unfolding shown_turns by simp
    with tracing_shows_turns [OF impl' empty(2) host(1) empty(3), unfolded empty(1) plain] plain
    show ?thesis by (intro exI [of _ "(res, t)"]) simp
  qed
  then show ?thesis using run unfolding shown_turns by (intro exI conjI) (assumption, simp)
qed

subsection \<open>The disassembler\<close>

text \<open>C29: Disassembling a chunk that implements a program prints one row for every instruction, with its
  offset, line, column, name, and the index and value of the constant it loads, between the title
  and a closing rule; it never reads outside the chunk.\<close>

theorem disassembly:
  assumes "implements chunk is"
  shows "disassemble_chunk chunk name =
    Inr (''DISASSEMBLING CHUNK: '' @ name @ [newline] @
         ''OFFSET |  LINE  | COLUMN |      OPCODE      | OPERAND | VALUE'' @ [newline] @
         disassemble_rule @ listing chunk 0 is @ disassemble_rule)"
  by (rule disassemble_chunk_text [OF assms])

theorem disassembly_witness:
  "\<exists>chunk h text. dump_program (make_value_int 7) generous_heap = Inr (chunk, h)
    \<and> disassemble_chunk chunk ''TEST'' = Inr text
    \<and> listing chunk 0 [Load 0, Dump, Return] =
      ''000000 | 000000 | 000000 | OP_CONSTANT      | 0000000 | 7'' @ [newline] @
      ''000002 | 000001 | 000000 | OP_DUMP          | '' @ [newline] @
      ''000003 | 000002 | 000000 | OP_RETURN        | '' @ [newline]"
proof -
  obtain chunk h where run: "dump_program (make_value_int 7) generous_heap = Inr (chunk, h)"
    and impl: "implements chunk [Load 0, Dump, Return]" and cs: "chunk_constants chunk = [make_value_int 7]"
    and info: "debug_list (debug_info chunk) = [(0, 0), (0, 0), (1, 0), (2, 0)]"
    and host: "sane h" "generous h" and live: "mset (live h) = chunk_blocks chunk"
    by (rule dump_program_generous)
  have load: "encode_instr (Load 0) = [2, 0]" by (simp add: encode_constant_def)
  have "listing chunk 0 [Load 0, Dump, Return] =
      ''000000 | 000000 | 000000 | OP_CONSTANT      | 0000000 | 7'' @ [newline] @
      ''000002 | 000001 | 000000 | OP_DUMP          | '' @ [newline] @
      ''000003 | 000002 | 000000 | OP_RETURN        | '' @ [newline]"
    using load by (simp add: line_text_def instr_text_def info cs print_instruction_name_def print_value_def
        make_value_int_def eval del: encode_instr.simps(3))
  with run disassembly [OF impl, of "''TEST''"] show ?thesis by blast
qed

end
