(* ===== verification/Tokens.thy ===== *)
theory Tokens
  imports Memory Stdlib
begin

text \<open>
  \<^verbatim>\<open>skard-lib/src/lexer.h\<close>: token types, tokens and the state of the lexer, and the access
  to C strings that the lexer and the parser share.
\<close>

subsection \<open>Token types\<close>

datatype TokenType =
    TOKEN_EOF | TOKEN_EOL | TOKEN_ERROR | TOKEN_LEFT_PAREN | TOKEN_RIGHT_PAREN
  | TOKEN_LEFT_BRACE | TOKEN_RIGHT_BRACE | TOKEN_LEFT_BRACKET | TOKEN_RIGHT_BRACKET | TOKEN_DOT
  | TOKEN_COMMA | TOKEN_COLON | TOKEN_PLUS | TOKEN_PLUS_ASSIGN | TOKEN_MINUS
  | TOKEN_MINUS_ASSIGN | TOKEN_RIGHT_ARROW | TOKEN_STAR | TOKEN_STAR_ASSIGN | TOKEN_SLASH
  | TOKEN_SLASH_ASSIGN | TOKEN_AT | TOKEN_NOT | TOKEN_NOT_EQUAL | TOKEN_ASSIGN | TOKEN_EQUAL
  | TOKEN_GREATER | TOKEN_GREATER_EQUAL | TOKEN_LESS | TOKEN_LESS_EQUAL | TOKEN_DIV
  | TOKEN_PIPE | TOKEN_OR | TOKEN_AND | TOKEN_KEY_PACKAGE | TOKEN_KEY_IMPORT | TOKEN_KEY_STRUCT
  | TOKEN_KEY_SELF | TOKEN_KEY_LET | TOKEN_KEY_NIL | TOKEN_KEY_FN | TOKEN_KEY_RETURN
  | TOKEN_KEY_IF | TOKEN_KEY_ELSE | TOKEN_KEY_WHILE | TOKEN_KEY_FOR | TOKEN_KEY_TRUE
  | TOKEN_KEY_FALSE | TOKEN_KEY_MATCH | TOKEN_KEY_WITH | TOKEN_KEY_DUMP | TOKEN_IDENTIFIER
  | TOKEN_LIT_STRING | TOKEN_LIT_REAL | TOKEN_LIT_INT | COUNT_TOKENS

definition translate_token_type :: "TokenType \<Rightarrow> string" where
  "translate_token_type type =
     (case type of
        TOKEN_EOF \<Rightarrow> ''TOKEN_EOF''
      | TOKEN_ERROR \<Rightarrow> ''TOKEN_ERROR''
      | TOKEN_EOL \<Rightarrow> ''TOKEN_EOL''
      | TOKEN_LEFT_PAREN \<Rightarrow> ''TOKEN_LEFT_PAREN''
      | TOKEN_RIGHT_PAREN \<Rightarrow> ''TOKEN_RIGHT_PAREN''
      | TOKEN_LEFT_BRACE \<Rightarrow> ''TOKEN_LEFT_BRACE''
      | TOKEN_RIGHT_BRACE \<Rightarrow> ''TOKEN_RIGHT_BRACE''
      | TOKEN_LEFT_BRACKET \<Rightarrow> ''TOKEN_LEFT_BRACKET''
      | TOKEN_RIGHT_BRACKET \<Rightarrow> ''TOKEN_RIGHT_BRACKET''
      | TOKEN_DOT \<Rightarrow> ''TOKEN_DOT''
      | TOKEN_COMMA \<Rightarrow> ''TOKEN_COMMA''
      | TOKEN_COLON \<Rightarrow> ''TOKEN_COLON''
      | TOKEN_PLUS \<Rightarrow> ''TOKEN_PLUS''
      | TOKEN_PLUS_ASSIGN \<Rightarrow> ''TOKEN_PLUS_ASSIGN''
      | TOKEN_MINUS \<Rightarrow> ''TOKEN_MINUS''
      | TOKEN_MINUS_ASSIGN \<Rightarrow> ''TOKEN_MINUS_ASSIGN''
      | TOKEN_RIGHT_ARROW \<Rightarrow> ''TOKEN_RIGHT_ARROW''
      | TOKEN_STAR \<Rightarrow> ''TOKEN_STAR''
      | TOKEN_STAR_ASSIGN \<Rightarrow> ''TOKEN_STAR_ASSIGN''
      | TOKEN_SLASH \<Rightarrow> ''TOKEN_SLASH''
      | TOKEN_SLASH_ASSIGN \<Rightarrow> ''TOKEN_SLASH_ASSIGN''
      | TOKEN_AT \<Rightarrow> ''TOKEN_AT''
      | TOKEN_NOT \<Rightarrow> ''TOKEN_NOT''
      | TOKEN_NOT_EQUAL \<Rightarrow> ''TOKEN_NOT_EQUAL''
      | TOKEN_ASSIGN \<Rightarrow> ''TOKEN_ASSIGN''
      | TOKEN_EQUAL \<Rightarrow> ''TOKEN_EQUAL''
      | TOKEN_GREATER \<Rightarrow> ''TOKEN_GREATER''
      | TOKEN_GREATER_EQUAL \<Rightarrow> ''TOKEN_GREATER_EQUAL''
      | TOKEN_LESS \<Rightarrow> ''TOKEN_LESS''
      | TOKEN_LESS_EQUAL \<Rightarrow> ''TOKEN_LESS_EQUAL''
      | TOKEN_DIV \<Rightarrow> ''TOKEN_DIV''
      | TOKEN_PIPE \<Rightarrow> ''TOKEN_PIPE''
      | TOKEN_OR \<Rightarrow> ''TOKEN_OR''
      | TOKEN_AND \<Rightarrow> ''TOKEN_AND''
      | TOKEN_KEY_PACKAGE \<Rightarrow> ''TOKEN_KEY_PACKAGE''
      | TOKEN_KEY_IMPORT \<Rightarrow> ''TOKEN_KEY_IMPORT''
      | TOKEN_KEY_STRUCT \<Rightarrow> ''TOKEN_KEY_STRUCT''
      | TOKEN_KEY_SELF \<Rightarrow> ''TOKEN_KEY_SELF''
      | TOKEN_KEY_LET \<Rightarrow> ''TOKEN_KEY_LET''
      | TOKEN_KEY_NIL \<Rightarrow> ''TOKEN_KEY_NIL''
      | TOKEN_KEY_FN \<Rightarrow> ''TOKEN_KEY_FN''
      | TOKEN_KEY_RETURN \<Rightarrow> ''TOKEN_KEY_RETURN''
      | TOKEN_KEY_IF \<Rightarrow> ''TOKEN_KEY_IF''
      | TOKEN_KEY_ELSE \<Rightarrow> ''TOKEN_KEY_ELSE''
      | TOKEN_KEY_WHILE \<Rightarrow> ''TOKEN_KEY_WHILE''
      | TOKEN_KEY_FOR \<Rightarrow> ''TOKEN_KEY_FOR''
      | TOKEN_KEY_TRUE \<Rightarrow> ''TOKEN_KEY_TRUE''
      | TOKEN_KEY_FALSE \<Rightarrow> ''TOKEN_KEY_FALSE''
      | TOKEN_KEY_MATCH \<Rightarrow> ''TOKEN_KEY_MATCH''
      | TOKEN_KEY_WITH \<Rightarrow> ''TOKEN_KEY_WITH''
      | TOKEN_KEY_DUMP \<Rightarrow> ''TOKEN_KEY_DUMP''
      | TOKEN_IDENTIFIER \<Rightarrow> ''TOKEN_IDENTIFIER''
      | TOKEN_LIT_STRING \<Rightarrow> ''TOKEN_LIT_STRING''
      | TOKEN_LIT_REAL \<Rightarrow> ''TOKEN_LIT_REAL''
      | TOKEN_LIT_INT \<Rightarrow> ''TOKEN_LIT_INT''
      | COUNT_TOKENS \<Rightarrow> ''UNKNOWN_TOKEN'')"

subsection \<open>Text\<close>

text \<open>
  A pointer to text is a position of the source buffer or a string literal of the program
  (the message of an error token).
\<close>

datatype text_ref = In_source nat | Message string

record Token =
  token_type :: TokenType
  token_start :: text_ref
  token_length :: size_t
  token_line :: size_t
  token_column :: size_t

text \<open>The pointers \<open>start\<close> and \<open>current\<close> are distances from \<open>source\<close>.\<close>

record Lexer =
  lexer_source :: "char buffer"
  lexer_start :: nat
  lexer_current :: nat
  lexer_line :: size_t
  lexer_column :: size_t

text \<open>
  Reading text: \<open>n\<close> bytes, at most \<open>n\<close> bytes up to the terminator, and all up to the
  terminator, which leaves the block when there is none.
\<close>

fun read_bytes :: "char buffer \<Rightarrow> nat \<Rightarrow> nat \<Rightarrow> string result" where
  "read_bytes p i 0 = Inr []"
| "read_bytes p i (Suc n) =
     res_bind (buffer_read p i) (\<lambda>c. res_bind (read_bytes p (i + 1) n) (\<lambda>s. Inr (c # s)))"

fun read_upto :: "char buffer \<Rightarrow> nat \<Rightarrow> nat \<Rightarrow> string result" where
  "read_upto p i 0 = Inr []"
| "read_upto p i (Suc n) =
     res_bind (buffer_read p i) (\<lambda>c.
       if c = NUL then Inr [] else res_bind (read_upto p (i + 1) n) (\<lambda>s. Inr (c # s)))"

definition read_c_string :: "char buffer \<Rightarrow> nat \<Rightarrow> string result" where
  "read_c_string p i = read_upto p i (Suc (length (cells p)))"

text \<open>\<open>%.*s\<close> of a token: the precision is \<open>(int) length\<close>, and a negative one counts as none.\<close>

definition print_token_text :: "char buffer \<Rightarrow> Token \<Rightarrow> string result" where
  "print_token_text source token =
     (let p = sint (ucast (token_length token) :: 32 word)
      in case token_start token of
        Message s \<Rightarrow> Inr (if p < 0 then s else take (nat p) s)
      | In_source i \<Rightarrow> if p < 0 then read_c_string source i else read_upto source i (nat p))"

subsection \<open>Texts in memory\<close>

text \<open>\<open>holds_text p s\<close>: the block \<open>p\<close> holds exactly the characters \<open>s\<close>.\<close>

definition holds_text :: "char buffer \<Rightarrow> string \<Rightarrow> bool" where
  "holds_text p s \<longleftrightarrow> p \<noteq> Null \<and> cells p = map Some s"

lemma holds_text_read:
  "holds_text p s \<Longrightarrow> i < length s \<Longrightarrow> buffer_read p i = Inr (s ! i)"
  by (cases p) (auto simp: holds_text_def buffer_read_def)

lemma holds_text_read_drop:
  "holds_text p s \<Longrightarrow> drop i s = c # r \<Longrightarrow> buffer_read p i = Inr c"
  by (metis holds_text_read hd_drop_conv_nth list.sel(1) not_less drop_all list.distinct(1))

lemma drop_Suc_tl: "drop i s = c # r \<Longrightarrow> drop (Suc i) s = r"
  by (metis drop_Suc list.sel(3) tl_drop)

lemma read_bytes_text:
  "holds_text p s \<Longrightarrow> i + n \<le> length s \<Longrightarrow> read_bytes p i n = Inr (take n (drop i s))"
proof (induction n arbitrary: i)
  case 0
  then show ?case by simp
next
  case (Suc n)
  then obtain c r where r: "drop i s = c # r" by (cases "drop i s") auto
  from Suc.IH [of "Suc i"] Suc.prems r show ?case
    by (simp add: holds_text_read_drop drop_Suc_tl)
qed

lemma read_upto_text:
  "holds_text p s \<Longrightarrow> NUL \<in> set (drop i s) \<Longrightarrow>
    read_upto p i n = Inr (take n (takeWhile (\<lambda>c. c \<noteq> NUL) (drop i s)))"
proof (induction n arbitrary: i)
  case 0
  then show ?case by simp
next
  case (Suc n)
  then obtain c r where r: "drop i s = c # r" by (cases "drop i s") auto
  with Suc show ?case
    by (auto simp: holds_text_read_drop drop_Suc_tl)
qed

lemma read_c_string_text:
  assumes "holds_text p s" and "NUL \<in> set (drop i s)"
  shows "read_c_string p i = Inr (takeWhile (\<lambda>c. c \<noteq> NUL) (drop i s))"
proof -
  have "length (takeWhile (\<lambda>c. c \<noteq> NUL) (drop i s)) \<le> length (drop i s)" by (rule length_takeWhile_le)
  also have "\<dots> \<le> Suc (length (cells p))" using assms(1) by (simp add: holds_text_def)
  finally show ?thesis using read_upto_text [OF assms] by (simp add: read_c_string_def del: read_upto.simps)
qed

end
