(* ===== verification/Lexer.thy ===== *)
theory Lexer
  imports Tokens
begin

text \<open>
  \<^verbatim>\<open>skard-lib/src/lexer.c\<close>: scanning a source text into tokens. Every function takes the
  lexer and returns it changed; reading outside the source buffer is a fault.
\<close>

definition lexer_init :: "char buffer \<Rightarrow> Lexer" where
  "lexer_init source =
     \<lparr>lexer_source = source, lexer_start = 0, lexer_current = 0, lexer_line = 1, lexer_column = 0\<rparr>"

definition lexer_reset :: "Lexer \<Rightarrow> Lexer" where
  "lexer_reset lexer =
     lexer\<lparr>lexer_start := 0, lexer_current := 0, lexer_line := 1, lexer_column := 0\<rparr>"

subsection \<open>Making tokens\<close>

definition lexer_make_token :: "Lexer \<Rightarrow> TokenType \<Rightarrow> Token" where
  "lexer_make_token lexer type =
     (let len = word_of_nat (lexer_current lexer) - word_of_nat (lexer_start lexer)
      in \<lparr>token_type = type, token_start = In_source (lexer_start lexer), token_length = len,
          token_line = lexer_line lexer, token_column = lexer_column lexer - len + 1\<rparr>)"

definition lexer_make_eof_token :: "Lexer \<Rightarrow> Token \<times> Lexer" where
  "lexer_make_eof_token lexer =
     (let lexer = lexer\<lparr>lexer_column := lexer_column lexer + 1\<rparr>
      in (lexer_make_token lexer TOKEN_EOF, lexer))"

definition lexer_make_eol_token :: "Lexer \<Rightarrow> Token \<times> Lexer" where
  "lexer_make_eol_token lexer =
     (let lexer = lexer\<lparr>lexer_line := lexer_line lexer + 1\<rparr>
      in (lexer_make_token lexer TOKEN_EOL, lexer))"

definition lexer_make_error_token :: "Lexer \<Rightarrow> string \<Rightarrow> Token" where
  "lexer_make_error_token lexer message =
     \<lparr>token_type = TOKEN_ERROR, token_start = Message message,
      token_length = word_of_nat (length message),
      token_line = lexer_line lexer, token_column = lexer_column lexer\<rparr>"

subsection \<open>Looking at and taking characters\<close>

definition lexer_peek :: "Lexer \<Rightarrow> char result" where
  "lexer_peek lexer = buffer_read (lexer_source lexer) (lexer_current lexer)"

definition lexer_is_at_end_of_file :: "Lexer \<Rightarrow> bool result" where
  "lexer_is_at_end_of_file lexer =
     res_bind (buffer_read (lexer_source lexer) (lexer_current lexer)) (\<lambda>c. Inr (c = NUL))"

definition lexer_is_at_end_of_line :: "Lexer \<Rightarrow> bool result" where
  "lexer_is_at_end_of_line lexer =
     res_bind (buffer_read (lexer_source lexer) (lexer_current lexer)) (\<lambda>c. Inr (c = newline))"

definition lexer_advance :: "Lexer \<Rightarrow> (char \<times> Lexer) result" where
  "lexer_advance lexer =
     (let lexer = lexer\<lparr>lexer_current := lexer_current lexer + 1,
                        lexer_column := lexer_column lexer + 1\<rparr>
      in res_bind (buffer_read (lexer_source lexer) (lexer_current lexer - 1)) (\<lambda>c. Inr (c, lexer)))"

definition lexer_peek_next :: "Lexer \<Rightarrow> char result" where
  "lexer_peek_next lexer =
     res_bind (lexer_is_at_end_of_file lexer) (\<lambda>eof.
       if eof then Inr NUL else buffer_read (lexer_source lexer) (lexer_current lexer + 1))"

definition lexer_match_next :: "Lexer \<Rightarrow> char \<Rightarrow> (bool \<times> Lexer) result" where
  "lexer_match_next lexer expected =
     res_bind (lexer_is_at_end_of_file lexer) (\<lambda>eof.
     res_bind (lexer_peek lexer) (\<lambda>c.
       if eof \<or> c \<noteq> expected then Inr (False, lexer)
       else res_bind (lexer_advance lexer) (\<lambda>(_, lexer). Inr (True, lexer))))"

definition is_alpha :: "char \<Rightarrow> bool" where
  "is_alpha c \<longleftrightarrow> (CHR ''a'' \<le> c \<and> c \<le> CHR ''z'') \<or> (CHR ''A'' \<le> c \<and> c \<le> CHR ''Z'') \<or> c = CHR ''_''"

definition is_insignificant_whitespace :: "char \<Rightarrow> bool" where
  "is_insignificant_whitespace c \<longleftrightarrow> c = CHR '' '' \<or> c = CHR 0x0D \<or> c = CHR 0x09"

subsection \<open>Progress\<close>

text \<open>How far the buffer extends beyond the current character; every loop consumes some of it.\<close>

definition room :: "Lexer \<Rightarrow> nat" where
  "room lexer = length (cells (lexer_source lexer)) - lexer_current lexer"

lemma buffer_read_bound: "buffer_read p i = Inr x \<Longrightarrow> i < length (cells p)"
  by (auto simp: buffer_read_def split: buffer.splits if_splits)

lemma lexer_advance_room: "lexer_advance lexer = Inr (c, lexer') \<Longrightarrow> room lexer' < room lexer"
  by (auto simp: lexer_advance_def room_def Let_def elim!: res_bindE dest: buffer_read_bound)

lemma lexer_match_next_room:
  "lexer_match_next lexer expected = Inr (b, lexer') \<Longrightarrow> room lexer' \<le> room lexer"
  by (auto simp: lexer_match_next_def elim!: res_bindE split: if_splits
      dest!: lexer_advance_room)

subsection \<open>Skipping comments and white space\<close>

function lexer_skip_single_line_comment :: "Lexer \<Rightarrow> Lexer result" where
  "lexer_skip_single_line_comment lexer =
     res_bind (lexer_peek lexer) (\<lambda>c.
     res_bind (lexer_is_at_end_of_file lexer) (\<lambda>eof.
       if c \<noteq> newline \<and> \<not> eof
       then res_bind (lexer_advance lexer) (\<lambda>(_, lexer). lexer_skip_single_line_comment lexer)
       else Inr lexer))"
  by pat_completeness auto
termination by (relation "measure room") (auto dest: lexer_advance_room)

declare lexer_skip_single_line_comment.simps [simp del]

function lexer_skip_multi_line_comment :: "Lexer \<Rightarrow> Lexer result" where
  "lexer_skip_multi_line_comment lexer =
     res_bind (lexer_is_at_end_of_file lexer) (\<lambda>eof.
       if eof then Inr lexer
       else res_bind (lexer_advance lexer) (\<lambda>(c, lexer).
         if c = CHR ''*''
         then res_bind (lexer_peek lexer) (\<lambda>d.
           if d = CHR ''/'' then res_bind (lexer_advance lexer) (\<lambda>(_, lexer). Inr lexer)
           else lexer_skip_multi_line_comment lexer)
         else lexer_skip_multi_line_comment lexer))"
  by pat_completeness auto
termination by (relation "measure room") (auto dest: lexer_advance_room)

declare lexer_skip_multi_line_comment.simps [simp del]

lemma lexer_skip_single_room:
  "lexer_skip_single_line_comment lexer = Inr lexer' \<Longrightarrow> room lexer' \<le> room lexer"
proof (induction lexer rule: lexer_skip_single_line_comment.induct)
  case (1 lexer)
  from "1.prems" obtain c eof where
    c: "lexer_peek lexer = Inr c" and eof: "lexer_is_at_end_of_file lexer = Inr eof"
    by (subst (asm) lexer_skip_single_line_comment.simps) (auto elim!: res_bindE)
  show ?case
  proof (cases "c \<noteq> newline \<and> \<not> eof")
    case True
    with "1.prems" c eof obtain d lexer1 where
      adv: "lexer_advance lexer = Inr (d, lexer1)"
      and rec: "lexer_skip_single_line_comment lexer1 = Inr lexer'"
      by (subst (asm) lexer_skip_single_line_comment.simps) (auto elim!: res_bindE)
    from "1.IH" [OF c eof True adv refl] rec have "room lexer' \<le> room lexer1" by simp
    with lexer_advance_room [OF adv] show ?thesis by simp
  next
    case False
    with "1.prems" c eof show ?thesis
      by (subst (asm) lexer_skip_single_line_comment.simps) auto
  qed
qed

lemma lexer_skip_single_progress:
  assumes "lexer_skip_single_line_comment lexer = Inr lexer'"
    and "lexer_peek lexer = Inr c" and "c \<noteq> newline" and "c \<noteq> NUL"
  shows "room lexer' < room lexer"
proof -
  from assms obtain d lexer1 where
    adv: "lexer_advance lexer = Inr (d, lexer1)"
    and rec: "lexer_skip_single_line_comment lexer1 = Inr lexer'"
    by (subst (asm) lexer_skip_single_line_comment.simps)
      (auto elim!: res_bindE simp: lexer_is_at_end_of_file_def lexer_peek_def)
  from lexer_advance_room [OF adv] lexer_skip_single_room [OF rec] show ?thesis by simp
qed

lemma lexer_skip_multi_room:
  "lexer_skip_multi_line_comment lexer = Inr lexer' \<Longrightarrow> room lexer' \<le> room lexer"
proof (induction lexer rule: lexer_skip_multi_line_comment.induct)
  case (1 lexer)
  from "1.prems" obtain eof where eof: "lexer_is_at_end_of_file lexer = Inr eof"
    by (subst (asm) lexer_skip_multi_line_comment.simps) (auto elim!: res_bindE)
  show ?case
  proof (cases eof)
    case False
    with "1.prems" eof obtain c lexer1 where adv: "lexer_advance lexer = Inr (c, lexer1)"
      by (subst (asm) lexer_skip_multi_line_comment.simps) (auto elim!: res_bindE)
    note less = lexer_advance_room [OF adv]
    show ?thesis
    proof (cases "c = CHR ''*''")
      case True
      with "1.prems" eof False adv obtain d where d: "lexer_peek lexer1 = Inr d"
        by (subst (asm) lexer_skip_multi_line_comment.simps) (auto elim!: res_bindE)
      show ?thesis
      proof (cases "d = CHR ''/''")
        case True
        with "1.prems" eof False adv \<open>c = CHR ''*''\<close> d obtain e where
          "lexer_advance lexer1 = Inr (e, lexer')"
          by (subst (asm) lexer_skip_multi_line_comment.simps) (auto elim!: res_bindE)
        from lexer_advance_room [OF this] less show ?thesis by simp
      next
        case False
        with "1.prems" eof \<open>\<not> eof\<close> adv \<open>c = CHR ''*''\<close> d
        have "lexer_skip_multi_line_comment lexer1 = Inr lexer'"
          by (subst (asm) lexer_skip_multi_line_comment.simps) auto
        from "1.IH" (1) [OF eof \<open>\<not> eof\<close> adv refl \<open>c = CHR ''*''\<close> d False this] less
        show ?thesis by simp
      qed
    next
      case no_star: False
      with "1.prems" eof \<open>\<not> eof\<close> adv have "lexer_skip_multi_line_comment lexer1 = Inr lexer'"
        by (subst (asm) lexer_skip_multi_line_comment.simps) auto
      from "1.IH" (2) [OF eof \<open>\<not> eof\<close> adv refl no_star this] less show ?thesis by simp
    qed
  next
    case True
    with "1.prems" eof show ?thesis by (subst (asm) lexer_skip_multi_line_comment.simps) auto
  qed
qed

lemma lexer_skip_multi_progress:
  assumes "lexer_skip_multi_line_comment lexer = Inr lexer'"
    and "lexer_peek lexer = Inr c" and "c \<noteq> NUL"
  shows "room lexer' < room lexer"
proof -
  from assms obtain d lexer1 where
    adv: "lexer_advance lexer = Inr (d, lexer1)"
    and rec: "lexer' = lexer1 \<or> lexer_skip_multi_line_comment lexer1 = Inr lexer'
      \<or> (\<exists>e. lexer_advance lexer1 = Inr (e, lexer'))"
    by (subst (asm) lexer_skip_multi_line_comment.simps)
      (auto elim!: res_bindE simp: lexer_is_at_end_of_file_def lexer_peek_def split: if_splits)
  with lexer_advance_room [OF adv] show ?thesis
    by (auto dest: lexer_skip_multi_room lexer_advance_room)
qed

function lexer_skip_insignificant :: "Lexer \<Rightarrow> Lexer result" where
  "lexer_skip_insignificant lexer =
     res_bind (lexer_peek lexer) (\<lambda>c.
       if \<not> is_insignificant_whitespace c
       then res_bind (if c = CHR ''/'' then lexer_peek_next lexer else Inr c) (\<lambda>d.
         if c = CHR ''/'' \<and> d = CHR ''/''
         then res_bind (lexer_skip_single_line_comment lexer) lexer_skip_insignificant
         else if c = CHR ''/'' \<and> d = CHR ''*''
         then res_bind (lexer_skip_multi_line_comment lexer) lexer_skip_insignificant
         else Inr lexer)
       else res_bind (lexer_advance lexer) (\<lambda>(_, lexer). lexer_skip_insignificant lexer))"
  by pat_completeness auto
termination
  by (relation "measure room")
    (auto dest: lexer_advance_room lexer_skip_single_progress lexer_skip_multi_progress)

declare lexer_skip_insignificant.simps [simp del]

subsection \<open>Keywords\<close>

definition lexer_check_keyword ::
    "Lexer \<Rightarrow> size_t \<Rightarrow> string \<Rightarrow> TokenType \<Rightarrow> TokenType result" where
  "lexer_check_keyword lexer start rest type =
     (let len = (word_of_nat (length rest) :: size_t)
      in if word_of_nat (lexer_current lexer) - word_of_nat (lexer_start lexer) = start + len
      then res_bind (read_bytes (lexer_source lexer) (lexer_start lexer + unat start) (unat len)) (\<lambda>s.
        Inr (if s = rest then type else TOKEN_IDENTIFIER))
      else Inr TOKEN_IDENTIFIER)"

definition lexer_determine_identifier_type :: "Lexer \<Rightarrow> TokenType result" where
  "lexer_determine_identifier_type lexer =
     (let check = lexer_check_keyword lexer; source = lexer_source lexer; start = lexer_start lexer;
          more = (start + 1 < lexer_current lexer)
      in res_bind (buffer_read source start) (\<lambda>c.
        if c = CHR ''d'' then check 1 ''ump'' TOKEN_KEY_DUMP
        else if c = CHR ''e'' then check 1 ''lse'' TOKEN_KEY_ELSE
        else if c = CHR ''f'' then
          if more then res_bind (buffer_read source (start + 1)) (\<lambda>d.
            if d = CHR ''a'' then check 2 ''lse'' TOKEN_KEY_FALSE
            else if d = CHR ''n'' then check 2 '''' TOKEN_KEY_FN
            else if d = CHR ''o'' then check 2 ''r'' TOKEN_KEY_FOR
            else Inr TOKEN_IDENTIFIER)
          else Inr TOKEN_IDENTIFIER
        else if c = CHR ''i'' then
          if more then res_bind (buffer_read source (start + 1)) (\<lambda>d.
            if d = CHR ''f'' then check 2 '''' TOKEN_KEY_IF
            else if d = CHR ''m'' then check 2 ''port'' TOKEN_KEY_IMPORT
            else Inr TOKEN_IDENTIFIER)
          else Inr TOKEN_IDENTIFIER
        else if c = CHR ''l'' then check 1 ''et'' TOKEN_KEY_LET
        else if c = CHR ''m'' then check 1 ''atch'' TOKEN_KEY_MATCH
        else if c = CHR ''n'' then check 1 ''il'' TOKEN_KEY_NIL
        else if c = CHR ''p'' then check 1 ''ackage'' TOKEN_KEY_PACKAGE
        else if c = CHR ''r'' then check 1 ''eturn'' TOKEN_KEY_RETURN
        else if c = CHR ''s'' then
          if more then res_bind (buffer_read source (start + 1)) (\<lambda>d.
            if d = CHR ''e'' then check 2 ''lf'' TOKEN_KEY_SELF
            else if d = CHR ''t'' then check 2 ''ruct'' TOKEN_KEY_STRUCT
            else Inr TOKEN_IDENTIFIER)
          else Inr TOKEN_IDENTIFIER
        else if c = CHR ''t'' then check 1 ''rue'' TOKEN_KEY_TRUE
        else if c = CHR ''w'' then
          if more then res_bind (buffer_read source (start + 1)) (\<lambda>d.
            if d = CHR ''h'' then check 2 ''ile'' TOKEN_KEY_WHILE
            else if d = CHR ''i'' then check 2 ''th'' TOKEN_KEY_WITH
            else Inr TOKEN_IDENTIFIER)
          else Inr TOKEN_IDENTIFIER
        else Inr TOKEN_IDENTIFIER))"

subsection \<open>Scanning tokens\<close>

text \<open>The loop of \<open>lexer_scan_string\<close>, with its condition as it is written.\<close>

function lexer_scan_string_loop :: "Lexer \<Rightarrow> Lexer result" where
  "lexer_scan_string_loop lexer =
     res_bind (lexer_peek lexer) (\<lambda>c.
     res_bind (lexer_is_at_end_of_line lexer) (\<lambda>eol.
     res_bind (lexer_is_at_end_of_file lexer) (\<lambda>eof.
       if c \<noteq> quote \<and> \<not> eol \<and> eof
       then res_bind (lexer_advance lexer) (\<lambda>(_, lexer). lexer_scan_string_loop lexer)
       else Inr lexer)))"
  by pat_completeness auto
termination by (relation "measure room") (auto dest: lexer_advance_room)

declare lexer_scan_string_loop.simps [simp del]

definition lexer_scan_string :: "Lexer \<Rightarrow> (Token \<times> Lexer) result" where
  "lexer_scan_string lexer =
     res_bind (lexer_scan_string_loop lexer) (\<lambda>lexer.
     res_bind (lexer_is_at_end_of_file lexer) (\<lambda>eof.
     res_bind (lexer_is_at_end_of_line lexer) (\<lambda>eol.
       if eof \<or> eol
       then Inr (lexer_make_error_token lexer ''Unterminated string literal'', lexer)
       else res_bind (lexer_advance lexer) (\<lambda>(_, lexer).
         Inr (lexer_make_token lexer TOKEN_LIT_STRING, lexer)))))"

text \<open>The loops of numbers and identifiers: advance while the character satisfies \<open>p\<close>.\<close>

function lexer_scan_while :: "(char \<Rightarrow> bool) \<Rightarrow> Lexer \<Rightarrow> Lexer result" where
  "lexer_scan_while p lexer =
     res_bind (lexer_peek lexer) (\<lambda>c.
       if p c then res_bind (lexer_advance lexer) (\<lambda>(_, lexer). lexer_scan_while p lexer)
       else Inr lexer)"
  by pat_completeness auto
termination by (relation "measure (room \<circ> snd)") (auto dest: lexer_advance_room)

declare lexer_scan_while.simps [simp del]

definition lexer_scan_number :: "Lexer \<Rightarrow> (Token \<times> Lexer) result" where
  "lexer_scan_number lexer =
     res_bind (lexer_scan_while is_digit lexer) (\<lambda>lexer.
     res_bind (lexer_peek lexer) (\<lambda>c.
       if c = CHR ''.''
       then res_bind (lexer_advance lexer) (\<lambda>(_, lexer).
            res_bind (lexer_scan_while is_digit lexer) (\<lambda>lexer.
              Inr (lexer_make_token lexer TOKEN_LIT_REAL, lexer)))
       else Inr (lexer_make_token lexer TOKEN_LIT_INT, lexer)))"

definition lexer_scan_identifier :: "Lexer \<Rightarrow> (Token \<times> Lexer) result" where
  "lexer_scan_identifier lexer =
     res_bind (lexer_scan_while (\<lambda>c. is_alpha c \<or> is_digit c) lexer) (\<lambda>lexer.
     res_bind (lexer_determine_identifier_type lexer) (\<lambda>type.
       Inr (lexer_make_token lexer type, lexer)))"

text \<open>
  A chain of conditional expressions \<open>match_next (lexer, c) ? type : \<dots>\<close> as the argument of
  \<open>lexer_make_token\<close>: the first character that matches decides the type.
\<close>

fun lexer_scan_operator ::
    "(char \<times> TokenType) list \<Rightarrow> TokenType \<Rightarrow> Lexer \<Rightarrow> (Token \<times> Lexer) result" where
  "lexer_scan_operator [] type lexer = Inr (lexer_make_token lexer type, lexer)"
| "lexer_scan_operator ((expected, longer) # alternatives) type lexer =
     res_bind (lexer_match_next lexer expected) (\<lambda>(matched, lexer).
       if matched then Inr (lexer_make_token lexer longer, lexer)
       else lexer_scan_operator alternatives type lexer)"

text \<open>The \<open>switch\<close> of \<open>lexer_scan_token\<close>, after the character \<open>c\<close> has been taken.\<close>

definition lexer_scan_symbol :: "char \<Rightarrow> Lexer \<Rightarrow> (Token \<times> Lexer) result" where
  "lexer_scan_symbol c lexer =
     (let simple = (\<lambda>type. Inr (lexer_make_token lexer type, lexer));
          operator = (\<lambda>alternatives type. lexer_scan_operator alternatives type lexer);
          unexpected = (\<lambda>lexer. lexer_make_error_token lexer ''Unexpected character'')
      in if c = CHR ''('' then simple TOKEN_LEFT_PAREN
       else if c = CHR '')'' then simple TOKEN_RIGHT_PAREN
       else if c = CHR ''{'' then simple TOKEN_LEFT_BRACE
       else if c = CHR ''}'' then simple TOKEN_RIGHT_BRACE
       else if c = CHR ''['' then simple TOKEN_LEFT_BRACKET
       else if c = CHR '']'' then simple TOKEN_RIGHT_BRACKET
       else if c = CHR ''.'' then simple TOKEN_DOT
       else if c = CHR '','' then simple TOKEN_COMMA
       else if c = CHR '':'' then simple TOKEN_COLON
       else if c = CHR ''+'' then operator [(CHR ''='', TOKEN_PLUS_ASSIGN)] TOKEN_PLUS
       else if c = CHR ''-'' then
         operator [(CHR ''='', TOKEN_STAR_ASSIGN), (CHR ''>'', TOKEN_RIGHT_ARROW)] TOKEN_MINUS
       else if c = CHR ''*'' then operator [(CHR ''='', TOKEN_STAR_ASSIGN)] TOKEN_STAR
       else if c = CHR ''/'' then operator [(CHR ''='', TOKEN_SLASH_ASSIGN)] TOKEN_SLASH
       else if c = CHR ''@'' then simple TOKEN_AT
       else if c = CHR ''!'' then operator [(CHR ''='', TOKEN_NOT_EQUAL)] TOKEN_NOT
       else if c = CHR ''='' then operator [(CHR ''='', TOKEN_EQUAL)] TOKEN_ASSIGN
       else if c = CHR ''>'' then operator [(CHR ''='', TOKEN_GREATER_EQUAL)] TOKEN_GREATER
       else if c = CHR ''<'' then operator [(CHR ''='', TOKEN_LESS_EQUAL)] TOKEN_LESS
       else if c = CHR ''|'' then
         operator [(CHR ''>'', TOKEN_PIPE), (CHR ''|'', TOKEN_OR)] TOKEN_DIV
       else if c = CHR ''&'' then
         res_bind (lexer_match_next lexer (CHR ''&'')) (\<lambda>(matched, lexer).
           Inr (if matched then lexer_make_token lexer TOKEN_AND else unexpected lexer, lexer))
       else if c = quote then lexer_scan_string lexer
       else Inr (unexpected lexer, lexer))"

definition lexer_scan_token :: "Lexer \<Rightarrow> (Token \<times> Lexer) result" where
  "lexer_scan_token lexer =
     res_bind (lexer_skip_insignificant lexer) (\<lambda>lexer.
     let lexer = lexer\<lparr>lexer_start := lexer_current lexer\<rparr> in
     res_bind (lexer_is_at_end_of_file lexer) (\<lambda>eof.
     if eof then Inr (lexer_make_eof_token lexer)
     else res_bind (lexer_is_at_end_of_line lexer) (\<lambda>eol.
     if eol then res_bind (lexer_advance lexer) (\<lambda>(_, lexer). Inr (lexer_make_eol_token lexer))
     else res_bind (lexer_advance lexer) (\<lambda>(c, lexer).
       if is_alpha c then lexer_scan_identifier lexer
       else if is_digit c then lexer_scan_number lexer
       else lexer_scan_symbol c lexer))))"

subsection \<open>Every token but the last consumes text\<close>

lemma lexer_scan_string_loop_room:
  "lexer_scan_string_loop lexer = Inr lexer' \<Longrightarrow> room lexer' \<le> room lexer"
proof (induction lexer rule: lexer_scan_string_loop.induct)
  case (1 lexer)
  from "1.prems" obtain c eol eof where
    c: "lexer_peek lexer = Inr c" and eol: "lexer_is_at_end_of_line lexer = Inr eol"
    and eof: "lexer_is_at_end_of_file lexer = Inr eof"
    by (subst (asm) lexer_scan_string_loop.simps) (auto elim!: res_bindE)
  show ?case
  proof (cases "c \<noteq> quote \<and> \<not> eol \<and> eof")
    case True
    with "1.prems" c eol eof obtain d lexer1 where
      adv: "lexer_advance lexer = Inr (d, lexer1)"
      and rec: "lexer_scan_string_loop lexer1 = Inr lexer'"
      by (subst (asm) lexer_scan_string_loop.simps) (auto elim!: res_bindE)
    from "1.IH" [OF c eol eof True adv refl rec] lexer_advance_room [OF adv] show ?thesis by simp
  next
    case False
    with "1.prems" c eol eof show ?thesis by (subst (asm) lexer_scan_string_loop.simps) auto
  qed
qed

lemma lexer_scan_while_room:
  "lexer_scan_while p lexer = Inr lexer' \<Longrightarrow> room lexer' \<le> room lexer"
proof (induction p lexer rule: lexer_scan_while.induct)
  case (1 p lexer)
  from "1.prems" obtain c where c: "lexer_peek lexer = Inr c"
    by (subst (asm) lexer_scan_while.simps) (auto elim!: res_bindE)
  show ?case
  proof (cases "p c")
    case True
    with "1.prems" c obtain d lexer1 where
      adv: "lexer_advance lexer = Inr (d, lexer1)"
      and rec: "lexer_scan_while p lexer1 = Inr lexer'"
      by (subst (asm) lexer_scan_while.simps) (auto elim!: res_bindE)
    from "1.IH" [OF c True adv refl rec] lexer_advance_room [OF adv] show ?thesis by simp
  next
    case False
    with "1.prems" c show ?thesis by (subst (asm) lexer_scan_while.simps) auto
  qed
qed

lemma lexer_scan_operator_room:
  "lexer_scan_operator alternatives type lexer = Inr (token, lexer') \<Longrightarrow> room lexer' \<le> room lexer"
proof (induction alternatives type lexer rule: lexer_scan_operator.induct)
  case (2 expected longer alternatives type lexer)
  from "2.prems" obtain matched lexer1 where m: "lexer_match_next lexer expected = Inr (matched, lexer1)"
    by (auto elim!: res_bindE)
  with "2.prems" "2.IH" [OF m refl] lexer_match_next_room [OF m] show ?case
    by (auto split: if_splits)
qed simp

lemma lexer_skip_insignificant_room:
  "lexer_skip_insignificant lexer = Inr lexer' \<Longrightarrow> room lexer' \<le> room lexer"
proof (induction lexer rule: lexer_skip_insignificant.induct)
  case (1 lexer)
  from "1.prems" obtain c where c: "lexer_peek lexer = Inr c"
    by (subst (asm) lexer_skip_insignificant.simps) (auto elim!: res_bindE)
  show ?case
  proof (cases "is_insignificant_whitespace c")
    case True
    with "1.prems" c obtain d lexer1 where
      adv: "lexer_advance lexer = Inr (d, lexer1)"
      and rec: "lexer_skip_insignificant lexer1 = Inr lexer'"
      by (subst (asm) lexer_skip_insignificant.simps) (auto elim!: res_bindE)
    from "1.IH" (3) [OF c _ adv refl rec] True lexer_advance_room [OF adv] show ?thesis by simp
  next
    case False
    with "1.prems" c obtain d where
      d: "(if c = CHR ''/'' then lexer_peek_next lexer else Inr c) = Inr d"
      by (subst (asm) lexer_skip_insignificant.simps) (auto elim!: res_bindE split: if_splits)
    consider (line) "c = CHR ''/'' \<and> d = CHR ''/''" | (block) "c = CHR ''/'' \<and> d = CHR ''*''"
      | (none) "\<not> (c = CHR ''/'' \<and> d = CHR ''/'')" "\<not> (c = CHR ''/'' \<and> d = CHR ''*'')"
      by blast
    then show ?thesis
    proof cases
      case line
      with "1.prems" c False d obtain lexer1 where
        skip: "lexer_skip_single_line_comment lexer = Inr lexer1"
        and rec: "lexer_skip_insignificant lexer1 = Inr lexer'"
        by (subst (asm) lexer_skip_insignificant.simps) (auto elim!: res_bindE)
      from "1.IH" (1) [OF c False d line skip rec] lexer_skip_single_room [OF skip] show ?thesis
        by simp
    next
      case block
      with "1.prems" c False d obtain lexer1 where
        skip: "lexer_skip_multi_line_comment lexer = Inr lexer1"
        and rec: "lexer_skip_insignificant lexer1 = Inr lexer'"
        by (subst (asm) lexer_skip_insignificant.simps) (auto elim!: res_bindE)
      have "\<not> (c = CHR ''/'' \<and> d = CHR ''/'')" using block by simp
      from "1.IH" (2) [OF c False d this block skip rec] lexer_skip_multi_room [OF skip]
      show ?thesis by simp
    next
      case none
      with "1.prems" c False d show ?thesis
        by (subst (asm) lexer_skip_insignificant.simps) auto
    qed
  qed
qed

lemma lexer_scan_string_room:
  "lexer_scan_string lexer = Inr (token, lexer') \<Longrightarrow> room lexer' \<le> room lexer"
  by (auto simp: lexer_scan_string_def elim!: res_bindE split: if_splits
      dest!: lexer_scan_string_loop_room lexer_advance_room)

lemma lexer_scan_number_room:
  "lexer_scan_number lexer = Inr (token, lexer') \<Longrightarrow> room lexer' \<le> room lexer"
  by (auto simp: lexer_scan_number_def elim!: res_bindE split: if_splits
      dest!: lexer_scan_while_room lexer_advance_room)

lemma lexer_scan_identifier_room:
  "lexer_scan_identifier lexer = Inr (token, lexer') \<Longrightarrow> room lexer' \<le> room lexer"
  by (auto simp: lexer_scan_identifier_def elim!: res_bindE dest!: lexer_scan_while_room)

lemma lexer_scan_symbol_room:
  "lexer_scan_symbol c lexer = Inr (token, lexer') \<Longrightarrow> room lexer' \<le> room lexer"
  by (auto simp: lexer_scan_symbol_def Let_def elim!: res_bindE split: if_splits
      simp del: lexer_scan_operator.simps
      dest!: lexer_scan_operator_room lexer_scan_string_room lexer_match_next_room)

lemma room_start [simp]: "room (lexer\<lparr>lexer_start := i\<rparr>) = room lexer"
  by (simp add: room_def)

lemma room_line [simp]: "room (lexer\<lparr>lexer_line := n\<rparr>) = room lexer"
  by (simp add: room_def)

lemma lexer_scan_token_room:
  assumes scan: "lexer_scan_token lexer = Inr (token, lexer')" and type: "token_type token \<noteq> TOKEN_EOF"
  shows "room lexer' < room lexer"
proof -
  from scan type obtain lexer1 c lexer2 where
    skip: "lexer_skip_insignificant lexer = Inr lexer1"
    and adv: "lexer_advance (lexer1\<lparr>lexer_start := lexer_current lexer1\<rparr>) = Inr (c, lexer2)"
    and rest: "room lexer' = room lexer2 \<or> lexer_scan_identifier lexer2 = Inr (token, lexer')
      \<or> lexer_scan_number lexer2 = Inr (token, lexer') \<or> lexer_scan_symbol c lexer2 = Inr (token, lexer')"
    by (auto simp: lexer_scan_token_def Let_def lexer_make_eof_token_def lexer_make_eol_token_def
        lexer_make_token_def elim!: res_bindE split: if_splits)
  from rest have "room lexer' \<le> room lexer2"
    by (auto dest: lexer_scan_identifier_room lexer_scan_number_room lexer_scan_symbol_room)
  with lexer_skip_insignificant_room [OF skip] lexer_advance_room [OF adv] show ?thesis by simp
qed

lemma room_column [simp]: "room (lexer\<lparr>lexer_column := n\<rparr>) = room lexer"
  by (simp add: room_def)

lemma lexer_scan_token_room_le:
  assumes scan: "lexer_scan_token lexer = Inr (token, lexer')"
  shows "room lexer' \<le> room lexer"
proof (cases "token_type token = TOKEN_EOF")
  case False
  from lexer_scan_token_room [OF scan False] show ?thesis by simp
next
  case True
  from scan obtain lexer1 where skip: "lexer_skip_insignificant lexer = Inr lexer1"
    and rest: "room lexer' = room lexer1 \<or> (\<exists>c lexer2.
      lexer_advance (lexer1\<lparr>lexer_start := lexer_current lexer1\<rparr>) = Inr (c, lexer2)
      \<and> (room lexer' = room lexer2 \<or> lexer_scan_identifier lexer2 = Inr (token, lexer')
        \<or> lexer_scan_number lexer2 = Inr (token, lexer') \<or> lexer_scan_symbol c lexer2 = Inr (token, lexer')))"
    by (auto simp: lexer_scan_token_def Let_def lexer_make_eof_token_def lexer_make_eol_token_def
        elim!: res_bindE split: if_splits)
  from rest have "room lexer' \<le> room lexer1"
    by (auto dest!: lexer_scan_identifier_room lexer_scan_number_room lexer_scan_symbol_room
        lexer_advance_room)
  with lexer_skip_insignificant_room [OF skip] show ?thesis by simp
qed

subsection \<open>Printing the tokens\<close>

definition print_token :: "char buffer \<Rightarrow> Token \<Rightarrow> string result" where
  "print_token source token =
     (let place = print_zu 6 (token_line token) @ '' | '' @ print_zu 4 (token_column token) @ '' | ''
            @ pad_right 24 (translate_token_type (token_type token)) @ '' | ''
      in if token_type token = TOKEN_EOF then Inr (place @ [CHR 0x5C, CHR ''0'', newline])
         else if token_type token = TOKEN_EOL then Inr (place @ [CHR 0x5C, CHR ''n'', newline])
         else res_bind (print_token_text source token) (\<lambda>s. Inr (place @ s @ [newline])))"

function lexer_print :: "Lexer \<Rightarrow> (string \<times> Lexer) result" where
  "lexer_print lexer =
     res_bind (lexer_scan_token lexer) (\<lambda>(token, lexer).
     res_bind (print_token (lexer_source lexer) token) (\<lambda>text.
       if token_type token = TOKEN_EOF then Inr (text, lexer)
       else res_bind (lexer_print lexer) (\<lambda>(more, lexer). Inr (text @ more, lexer))))"
  by pat_completeness auto
termination by (relation "measure room") (auto dest: lexer_scan_token_room)

declare lexer_print.simps [simp del]

end
