(* ===== verification/Scanning.thy ===== *)
theory Scanning
  imports Lexer
begin

text \<open>
  What the lexer computes, stated on texts: how much is skipped, which lexeme begins a text,
  and the stream of tokens of a whole source. The functions of \<^verbatim>\<open>lexer.c\<close> are shown to
  compute these on every terminated buffer.
\<close>

subsection \<open>A lexer in front of a text\<close>

text \<open>
  \<open>reads lexer r\<close>: the source is in memory and \<open>r\<close> is what remains of it from the current
  character on. No object of an LP64 host is as large as \<open>2 ^ 63\<close> bytes.
\<close>

definition reads :: "Lexer \<Rightarrow> string \<Rightarrow> bool" where
  "reads lexer r \<longleftrightarrow>
     (\<exists>s. holds_text (lexer_source lexer) s \<and> lexer_current lexer + length r = length s
        \<and> drop (lexer_current lexer) s = r \<and> length s < 2 ^ 63)"

definition moved :: "nat \<Rightarrow> Lexer \<Rightarrow> Lexer" where
  "moved n lexer =
     lexer\<lparr>lexer_current := lexer_current lexer + n,
           lexer_column := lexer_column lexer + word_of_nat n\<rparr>"

lemma moved_0 [simp]: "moved 0 lexer = lexer"
  by (simp add: moved_def)

lemma moved_moved [simp]: "moved m (moved n lexer) = moved (n + m) lexer"
  by (simp add: moved_def ac_simps)

lemma moved_select [simp]:
  "lexer_source (moved n lexer) = lexer_source lexer"
  "lexer_start (moved n lexer) = lexer_start lexer"
  "lexer_current (moved n lexer) = lexer_current lexer + n"
  "lexer_line (moved n lexer) = lexer_line lexer"
  "lexer_column (moved n lexer) = lexer_column lexer + word_of_nat n"
  by (simp_all add: moved_def)

lemma moved_start: "(moved n lexer)\<lparr>lexer_start := i\<rparr> = moved n (lexer\<lparr>lexer_start := i\<rparr>)"
  by (simp add: moved_def)

lemma reads_start [simp]: "reads (lexer\<lparr>lexer_start := i\<rparr>) r = reads lexer r"
  by (simp add: reads_def)

lemma reads_moved: "reads lexer r \<Longrightarrow> n \<le> length r \<Longrightarrow> reads (moved n lexer) (drop n r)"
  by (auto simp: reads_def add.commute)

lemma reads_moved_1: "reads lexer (c # r) \<Longrightarrow> reads (moved 1 lexer) r"
  using reads_moved [of lexer "c # r" 1] by simp

lemma reads_peek: "reads lexer (c # r) \<Longrightarrow> lexer_peek lexer = Inr c"
  by (auto simp: reads_def lexer_peek_def intro: holds_text_read_drop)

lemma reads_eof: "reads lexer (c # r) \<Longrightarrow> lexer_is_at_end_of_file lexer = Inr (c = NUL)"
  using reads_peek [of lexer c r] by (simp add: lexer_is_at_end_of_file_def lexer_peek_def)

lemma reads_eol: "reads lexer (c # r) \<Longrightarrow> lexer_is_at_end_of_line lexer = Inr (c = newline)"
  using reads_peek [of lexer c r] by (simp add: lexer_is_at_end_of_line_def lexer_peek_def)

lemma reads_advance: "reads lexer (c # r) \<Longrightarrow> lexer_advance lexer = Inr (c, moved 1 lexer)"
  using reads_peek [of lexer c r]
  by (simp add: lexer_advance_def lexer_peek_def moved_def Let_def)

lemma reads_peek_next:
  "reads lexer (c # d # r) \<Longrightarrow> c \<noteq> NUL \<Longrightarrow> lexer_peek_next lexer = Inr d"
  using reads_eof [of lexer c "d # r"] reads_peek [OF reads_moved_1, of lexer c d r]
  by (simp add: lexer_peek_next_def lexer_peek_def)

lemma reads_match_next:
  assumes "reads lexer (c # r)" and "expected \<noteq> NUL"
  shows "lexer_match_next lexer expected =
    Inr (if c = expected then (True, moved 1 lexer) else (False, lexer))"
  using assms reads_eof [OF assms(1)] reads_peek [OF assms(1)] reads_advance [OF assms(1)]
  by (auto simp: lexer_match_next_def)

lemmas reads_simps =
  reads_peek reads_eof reads_eol reads_advance reads_peek_next reads_match_next

subsection \<open>Skipping\<close>

lemma skip_single_reads:
  "reads lexer r \<Longrightarrow> NUL \<in> set r \<Longrightarrow>
    lexer_skip_single_line_comment lexer =
      Inr (moved (length (takeWhile (\<lambda>c. c \<noteq> newline \<and> c \<noteq> NUL) r)) lexer)"
proof (induction r arbitrary: lexer)
  case (Cons c r)
  then show ?case
    using reads_moved_1 [OF Cons.prems(1)] Cons.IH [of "moved 1 lexer"]
    by (subst lexer_skip_single_line_comment.simps) (auto simp: reads_simps)
qed simp

text \<open>How much of a text a multi-line comment skips, its opening character included.\<close>

fun block_length :: "string \<Rightarrow> nat" where
  "block_length [] = 0"
| "block_length (c # r) =
     (if c = NUL then 0
      else if c = CHR ''*'' \<and> r \<noteq> [] \<and> hd r = CHR ''/'' then 2
      else Suc (block_length r))"

lemma skip_multi_reads:
  "reads lexer r \<Longrightarrow> NUL \<in> set r \<Longrightarrow>
    lexer_skip_multi_line_comment lexer = Inr (moved (block_length r) lexer)"
proof (induction r arbitrary: lexer)
  case (Cons c r)
  note moved1 = reads_moved_1 [OF Cons.prems(1)]
  show ?case
  proof (cases "c = NUL")
    case True
    with Cons.prems show ?thesis
      by (subst lexer_skip_multi_line_comment.simps) (simp add: reads_simps)
  next
    case False
    with Cons.prems(2) obtain d r' where r: "r = d # r'" by (cases r) auto
    with False Cons.prems Cons.IH [OF moved1] reads_peek [of "moved 1 lexer" d r'] moved1
    show ?thesis
      by (subst lexer_skip_multi_line_comment.simps) (auto simp: reads_simps)
  qed
qed simp

lemma block_length_le: "block_length r \<le> length r"
  by (induction r rule: block_length.induct) (auto simp: neq_Nil_conv)

text \<open>
  \<open>skip_length r\<close> is the number of insignificant characters \<open>r\<close> begins with: white space and
  comments. A block comment starts at its \<open>/\<close>, so the \<open>*\<close> that opens it may also close it.
\<close>

function skip_length :: "string \<Rightarrow> nat" where
  "skip_length r =
     (case r of
        [] \<Rightarrow> 0
      | c # r' \<Rightarrow>
          if is_insignificant_whitespace c then Suc (skip_length r')
          else if c = CHR ''/'' \<and> take 1 r' = ''/'' then
            (let n = length (takeWhile (\<lambda>c. c \<noteq> newline \<and> c \<noteq> NUL) r)
             in n + skip_length (drop n r))
          else if c = CHR ''/'' \<and> take 1 r' = ''*'' then
            (let n = block_length r in n + skip_length (drop n r))
          else 0)"
  by pat_completeness auto
termination by (relation "measure length") auto

declare skip_length.simps [simp del]

lemma NUL_after_line:
  "NUL \<in> set r \<Longrightarrow> NUL \<in> set (drop (length (takeWhile (\<lambda>c. c \<noteq> newline \<and> c \<noteq> NUL) r)) r)"
  by (induction r) auto

lemma NUL_after_block: "NUL \<in> set r \<Longrightarrow> NUL \<in> set (drop (block_length r) r)"
  by (induction r rule: block_length.induct) (auto simp: neq_Nil_conv)

lemma NUL_after_skip: "NUL \<in> set r \<Longrightarrow> NUL \<in> set (drop (skip_length r) r)"
proof (induction r rule: skip_length.induct)
  case (1 r)
  from "1.prems" obtain c r' where r: "r = c # r'" by (cases r) auto
  let ?line = "length (takeWhile (\<lambda>c. c \<noteq> newline \<and> c \<noteq> NUL) r)"
  consider (blank) "is_insignificant_whitespace c"
    | (line) "\<not> is_insignificant_whitespace c" "c = CHR ''/'' \<and> take 1 r' = ''/''"
    | (block) "\<not> is_insignificant_whitespace c" "\<not> (c = CHR ''/'' \<and> take 1 r' = ''/'')"
        "c = CHR ''/'' \<and> take 1 r' = ''*''"
    | (none) "skip_length r = 0"
    using r skip_length.simps [of r] by (auto split: if_splits)
  then show ?case
  proof cases
    case blank
    with "1.IH" (1) [OF r] "1.prems" r show ?thesis
      by (subst skip_length.simps) (auto simp: is_insignificant_whitespace_def)
  next
    case line
    with "1.IH" (2) [OF r line refl NUL_after_line [OF "1.prems"]] r show ?thesis
      by (subst skip_length.simps) (simp add: Let_def add.commute)
  next
    case block
    with "1.IH" (3) [OF r block refl NUL_after_block [OF "1.prems"]] r show ?thesis
      by (subst skip_length.simps) (simp add: Let_def add.commute)
  next
    case none
    with "1.prems" show ?thesis by simp
  qed
qed

lemma skip_length_less: "NUL \<in> set r \<Longrightarrow> skip_length r < length r"
  using NUL_after_skip [of r] by (cases "skip_length r < length r") auto

lemma skip_insignificant_reads:
  "reads lexer r \<Longrightarrow> NUL \<in> set r \<Longrightarrow>
    lexer_skip_insignificant lexer = Inr (moved (skip_length r) lexer)"
proof (induction r arbitrary: lexer rule: skip_length.induct)
  case (1 r)
  from "1.prems" obtain c r' where r: "r = c # r'" by (cases r) auto
  let ?line = "length (takeWhile (\<lambda>c. c \<noteq> newline \<and> c \<noteq> NUL) r)"
  have peek: "lexer_peek lexer = Inr c" using "1.prems" r by (simp add: reads_simps)
  have next_char: "lexer_peek_next lexer = Inr (hd r')" and "r' \<noteq> []" if "c = CHR ''/''"
    using that "1.prems" r by (cases r'; simp add: reads_simps)+
  consider (blank) "is_insignificant_whitespace c"
    | (line) "\<not> is_insignificant_whitespace c" "c = CHR ''/'' \<and> take 1 r' = ''/''"
    | (block) "\<not> is_insignificant_whitespace c" "\<not> (c = CHR ''/'' \<and> take 1 r' = ''/'')"
        "c = CHR ''/'' \<and> take 1 r' = ''*''"
    | (none) "\<not> is_insignificant_whitespace c" "\<not> (c = CHR ''/'' \<and> take 1 r' = ''/'')"
        "\<not> (c = CHR ''/'' \<and> take 1 r' = ''*'')"
    by blast
  then show ?case
  proof cases
    case blank
    then have "NUL \<in> set r'" using "1.prems" r by (auto simp: is_insignificant_whitespace_def)
    moreover have moved1: "reads (moved 1 lexer) r'" using "1.prems" r reads_moved_1 by blast
    ultimately show ?thesis
      using blank "1.IH" (1) [OF r blank moved1] "1.prems" r
      by (subst lexer_skip_insignificant.simps, subst skip_length.simps) (simp add: reads_simps)
  next
    case line
    have len: "skip_length r = ?line + skip_length (drop ?line r)"
      using line r by (subst skip_length.simps) (simp add: Let_def)
    from line next_char have "hd r' = CHR ''/''" by (cases r') auto
    with line next_char peek skip_single_reads [OF "1.prems"]
      "1.IH" (2) [OF r line refl reads_moved [OF "1.prems"(1)] NUL_after_line [OF "1.prems"(2)]]
    show ?thesis
      unfolding len by (subst lexer_skip_insignificant.simps) (simp add: length_takeWhile_le)
  next
    case block
    have len: "skip_length r = block_length r + skip_length (drop (block_length r) r)"
      using block r by (subst skip_length.simps) (simp add: Let_def)
    from block next_char have "hd r' = CHR ''*''" by (cases r') auto
    with block next_char peek skip_multi_reads [OF "1.prems"]
      "1.IH" (3) [OF r block refl reads_moved [OF "1.prems"(1)] NUL_after_block [OF "1.prems"(2)]]
    show ?thesis
      unfolding len by (subst lexer_skip_insignificant.simps) (simp add: block_length_le)
  next
    case none
    have "skip_length r = 0" using none r by (subst skip_length.simps) simp
    moreover have "hd r' \<noteq> CHR ''/'' \<and> hd r' \<noteq> CHR ''*''" if "c = CHR ''/''"
      using none that \<open>c = CHR ''/'' \<Longrightarrow> r' \<noteq> []\<close> by (cases r') auto
    ultimately show ?thesis
      using none next_char peek by (subst lexer_skip_insignificant.simps) auto
  qed
qed

subsection \<open>Keywords\<close>

definition keyword_table :: "(string \<times> TokenType) list" where
  "keyword_table =
     [(''dump'', TOKEN_KEY_DUMP), (''else'', TOKEN_KEY_ELSE), (''false'', TOKEN_KEY_FALSE),
      (''fn'', TOKEN_KEY_FN), (''for'', TOKEN_KEY_FOR), (''if'', TOKEN_KEY_IF),
      (''import'', TOKEN_KEY_IMPORT), (''let'', TOKEN_KEY_LET), (''match'', TOKEN_KEY_MATCH),
      (''nil'', TOKEN_KEY_NIL), (''package'', TOKEN_KEY_PACKAGE), (''return'', TOKEN_KEY_RETURN),
      (''self'', TOKEN_KEY_SELF), (''struct'', TOKEN_KEY_STRUCT), (''true'', TOKEN_KEY_TRUE),
      (''while'', TOKEN_KEY_WHILE), (''with'', TOKEN_KEY_WITH)]"

definition word_type :: "string \<Rightarrow> TokenType" where
  "word_type w = (case map_of keyword_table w of Some type \<Rightarrow> type | None \<Rightarrow> TOKEN_IDENTIFIER)"

text \<open>The lexer has just taken the word \<open>w\<close>.\<close>

definition took :: "string \<Rightarrow> Lexer \<Rightarrow> bool" where
  "took w lexer \<longleftrightarrow> lexer_current lexer = lexer_start lexer + length w
     \<and> (\<exists>r. reads (lexer\<lparr>lexer_current := lexer_start lexer\<rparr>) (w @ r))"

lemma took_read: "took w lexer \<Longrightarrow> i < length w \<Longrightarrow>
    buffer_read (lexer_source lexer) (lexer_start lexer + i) = Inr (w ! i)"
  by (auto simp: took_def reads_def holds_text_read nth_append
      dest!: arg_cong [of "drop _ _" _ "\<lambda>xs. xs ! i"])

lemma took_length: "took w lexer \<Longrightarrow> length w < 2 ^ 63"
  by (auto simp: took_def reads_def)

lemma took_bytes:
  assumes "took w lexer" and "k + n \<le> length w"
  shows "read_bytes (lexer_source lexer) (lexer_start lexer + k) n = Inr (take n (drop k w))"
proof -
  from assms(1) obtain s r where s: "holds_text (lexer_source lexer) s"
    and d: "drop (lexer_start lexer) s = w @ r" and l: "lexer_start lexer + length (w @ r) = length s"
    by (auto simp: took_def reads_def)
  have "drop (lexer_start lexer + k) s = drop k (w @ r)"
    by (simp add: d [symmetric] add.commute)
  with read_bytes_text [OF s, of "lexer_start lexer + k" n] assms(2) l show ?thesis by simp
qed

lemma check_keyword_took:
  assumes took: "took w lexer" and k: "unat k \<le> length w" and n: "unat k + length name < 2 ^ 63"
  shows "lexer_check_keyword lexer k name type =
    Inr (if drop (unat k) w = name then type else TOKEN_IDENTIFIER)"
proof -
  have len: "unat (word_of_nat (length name) :: size_t) = length name"
    using n by (intro unat_size_of_nat) simp
  have sum: "unat (k + word_of_nat (length name)) = unat k + length name"
    using len n by (subst unat_size_add) auto
  have "word_of_nat (lexer_current lexer) - word_of_nat (lexer_start lexer) = (word_of_nat (length w) :: size_t)"
    using took by (simp add: took_def)
  moreover have "unat (word_of_nat (length w) :: size_t) = length w"
    using took_length [OF took] by (intro unat_size_of_nat) simp
  ultimately have eq: "word_of_nat (lexer_current lexer) - word_of_nat (lexer_start lexer)
      = k + word_of_nat (length name) \<longleftrightarrow> length w = unat k + length name"
    using sum by (simp add: word_unat_eq_iff)
  show ?thesis
  proof (cases "length w = unat k + length name")
    case True
    with took_bytes [OF took, of "unat k" "length name"] eq len show ?thesis
      by (simp add: lexer_check_keyword_def Let_def)
  next
    case False
    moreover from False k have "drop (unat k) w \<noteq> name" by auto
    ultimately show ?thesis using eq by (simp add: lexer_check_keyword_def Let_def)
  qed
qed

lemma identifier_type_took:
  assumes took: "took w lexer" and w: "w \<noteq> []"
  shows "lexer_determine_identifier_type lexer = Inr (word_type w)"
proof -
  obtain c w' where cw: "w = c # w'" using w by (cases w) auto
  have first: "buffer_read (lexer_source lexer) (lexer_start lexer) = Inr c"
    using took_read [OF took, of 0] cw by simp
  have more: "lexer_start lexer + 1 < lexer_current lexer \<longleftrightarrow> w' \<noteq> []"
    using took cw by (auto simp: took_def)
  have one: "lexer_check_keyword lexer 1 name type = Inr (if w' = name then type else TOKEN_IDENTIFIER)"
    if "length name < 10" for name type
    using check_keyword_took [OF took, of 1 name type] cw that by simp
  have second: "buffer_read (lexer_source lexer) (lexer_start lexer + 1) = Inr d"
    if "w' = d # v" for d v
    using took_read [OF took, of 1] cw that by simp
  have two: "lexer_check_keyword lexer 2 name type = Inr (if v = name then type else TOKEN_IDENTIFIER)"
    if "w' = d # v" "length name < 10" for d v name type
    using check_keyword_took [OF took, of 2 name type] cw that by simp
  note evaluate = lexer_determine_identifier_type_def Let_def first more [simplified] one cw
    word_type_def keyword_table_def
  show ?thesis
  proof (cases w')
    case Nil
    then show ?thesis by (simp add: evaluate)
  next
    case (Cons d v)
    then show ?thesis by (simp add: evaluate second [simplified] two)
  qed
qed

subsection \<open>Lexemes\<close>

lemma scan_while_reads:
  "reads lexer r \<Longrightarrow> \<not> p NUL \<Longrightarrow> NUL \<in> set r \<Longrightarrow>
    lexer_scan_while p lexer = Inr (moved (length (takeWhile p r)) lexer)"
proof (induction r arbitrary: lexer)
  case (Cons c r)
  then show ?case
    using reads_moved_1 [OF Cons.prems(1)] Cons.IH [of "moved 1 lexer"]
    by (subst lexer_scan_while.simps) (auto simp: reads_simps)
qed simp

text \<open>
  \<open>operator_table\<close> is what the lexer recognises; the type of \<open>-=\<close> is the one it reports.
\<close>

definition operator_table :: "(string \<times> TokenType) list" where
  "operator_table =
     [(''('', TOKEN_LEFT_PAREN), ('')'', TOKEN_RIGHT_PAREN), (''{'', TOKEN_LEFT_BRACE),
      (''}'', TOKEN_RIGHT_BRACE), (''['', TOKEN_LEFT_BRACKET), ('']'', TOKEN_RIGHT_BRACKET),
      (''.'', TOKEN_DOT), ('','', TOKEN_COMMA), ('':'', TOKEN_COLON), (''+'', TOKEN_PLUS),
      (''+='', TOKEN_PLUS_ASSIGN), (''-'', TOKEN_MINUS), (''-='', TOKEN_STAR_ASSIGN),
      (''->'', TOKEN_RIGHT_ARROW), (''*'', TOKEN_STAR), (''*='', TOKEN_STAR_ASSIGN),
      (''/'', TOKEN_SLASH), (''/='', TOKEN_SLASH_ASSIGN), (''@'', TOKEN_AT), (''!'', TOKEN_NOT),
      (''!='', TOKEN_NOT_EQUAL), (''='', TOKEN_ASSIGN), (''=='', TOKEN_EQUAL),
      (''>'', TOKEN_GREATER), (''>='', TOKEN_GREATER_EQUAL), (''<'', TOKEN_LESS),
      (''<='', TOKEN_LESS_EQUAL), (''|'', TOKEN_DIV), (''|>'', TOKEN_PIPE), (''||'', TOKEN_OR),
      (''&&'', TOKEN_AND)]"

text \<open>The longest operator a text begins with: two characters if possible, else one.\<close>

definition operator_at :: "string \<Rightarrow> (TokenType \<times> nat) option" where
  "operator_at text =
     (case map_of operator_table (take 2 text) of
        Some type \<Rightarrow> Some (type, length (take 2 text))
      | None \<Rightarrow> map_option (\<lambda>type. (type, 1)) (map_of operator_table (take 1 text)))"

text \<open>
  What a text begins with that starts with neither white space nor a terminator: a lexeme of
  a type and a length, an error with its message and the characters taken, or a quotation
  mark in front of the terminator, from where the lexer leaves the buffer.
\<close>

datatype lexeme = Lexeme TokenType nat | Bad string nat | Runaway

definition is_word :: "char \<Rightarrow> bool" where
  "is_word c \<longleftrightarrow> is_alpha c \<or> is_digit c"

definition number_at :: "string \<Rightarrow> lexeme" where
  "number_at text =
     (let n = length (takeWhile is_digit text)
      in if take 1 (drop n text) = ''.''
         then Lexeme TOKEN_LIT_REAL (n + 1 + length (takeWhile is_digit (drop (n + 1) text)))
         else Lexeme TOKEN_LIT_INT n)"

definition lexeme_at :: "string \<Rightarrow> lexeme" where
  "lexeme_at text =
     (let c = hd text
      in if c = newline then Lexeme TOKEN_EOL 1
         else if is_alpha c then
           (let w = takeWhile is_word text in Lexeme (word_type w) (length w))
         else if is_digit c then number_at text
         else if c = quote then
           (if hd (tl text) = NUL then Runaway
            else if hd (tl text) = newline then Bad ''Unterminated string literal'' 1
            else Lexeme TOKEN_LIT_STRING 2)
         else case operator_at text of
             Some (type, n) \<Rightarrow> Lexeme type n
           | None \<Rightarrow> Bad ''Unexpected character'' 1)"

subsection \<open>The token of a lexeme\<close>

text \<open>\<open>lexer\<close> is in front of a lexeme of \<open>n\<close> characters.\<close>

definition token_at :: "Lexer \<Rightarrow> TokenType \<Rightarrow> nat \<Rightarrow> Token" where
  "token_at lexer type n =
     \<lparr>token_type = type, token_start = In_source (lexer_current lexer), token_length = word_of_nat n,
      token_line = lexer_line lexer, token_column = lexer_column lexer + 1\<rparr>"

lemma make_token_moved:
  "lexer_start lexer = lexer_current lexer \<Longrightarrow>
    lexer_make_token (moved n lexer) type = token_at lexer type n"
  by (simp add: lexer_make_token_def token_at_def Let_def)

text \<open>The result of scanning a lexeme in front of \<open>lexer\<close>, whose \<open>start\<close> is here.\<close>

fun scanned :: "Lexer \<Rightarrow> lexeme \<Rightarrow> (Token \<times> Lexer) result" where
  "scanned lexer (Lexeme type n) = Inr (token_at lexer type n, moved n lexer)"
| "scanned lexer (Bad message n) =
     Inr (lexer_make_error_token (moved n lexer) message, moved n lexer)"
| "scanned lexer Runaway = Inl OutOfBounds"

lemma scan_identifier_reads:
  assumes r: "reads lexer (c # r)" and "NUL \<in> set r" and start: "lexer_start lexer = lexer_current lexer"
    and c: "is_alpha c"
  shows "lexer_scan_identifier (moved 1 lexer) = scanned lexer
    (let w = takeWhile is_word (c # r) in Lexeme (word_type w) (length w))"
proof -
  let ?w = "takeWhile is_word (c # r)"
  have w: "?w = c # takeWhile is_word r" using c by (simp add: is_word_def)
  have "\<not> is_word NUL" by (simp add: is_word_def is_alpha_def is_digit_def)
  with assms have while: "lexer_scan_while is_word (moved 1 lexer) = Inr (moved (length ?w) lexer)"
    using scan_while_reads [OF reads_moved_1 [OF r], of is_word] w by simp
  have "reads ((moved (length ?w) lexer)\<lparr>lexer_current := lexer_start lexer\<rparr>) (c # r)"
    using r start by (simp add: reads_def moved_def)
  then have "reads ((moved (length ?w) lexer)\<lparr>lexer_current := lexer_start lexer\<rparr>)
      (?w @ dropWhile is_word (c # r))"
    by (simp only: takeWhile_dropWhile_id)
  then have "took ?w (moved (length ?w) lexer)"
    using start by (simp only: took_def moved_select) blast
  with identifier_type_took have "lexer_determine_identifier_type (moved (length ?w) lexer) = Inr (word_type ?w)"
    using w by simp
  with while start show ?thesis
    unfolding lexer_scan_identifier_def is_word_def [abs_def, symmetric]
    by (simp add: make_token_moved Let_def)
qed

lemma scan_number_reads:
  assumes r: "reads lexer (c # r)" and nul: "NUL \<in> set r" and start: "lexer_start lexer = lexer_current lexer"
    and c: "is_digit c"
  shows "lexer_scan_number (moved 1 lexer) = scanned lexer (number_at (c # r))"
proof -
  let ?n = "length (takeWhile is_digit (c # r))"
  have zero: "\<not> is_digit NUL" by (simp add: is_digit_def)
  have while: "lexer_scan_while is_digit (moved 1 lexer) = Inr (moved ?n lexer)"
    using scan_while_reads [of _ _ is_digit, OF reads_moved_1 [OF r] zero nul] c by simp
  have here: "reads (moved ?n lexer) (drop ?n (c # r))"
    by (rule reads_moved [OF r]) (rule length_takeWhile_le)
  have "drop ?n (c # r) = dropWhile is_digit (c # r)" by (simp add: dropWhile_eq_drop)
  moreover have "NUL \<in> set (dropWhile is_digit r)" using nul zero by (metis dropWhile_append2 UnE set_append set_takeWhileD takeWhile_dropWhile_id)
  ultimately have "NUL \<in> set (drop ?n (c # r))" using c by simp
  then obtain d r' where d: "drop ?n (c # r) = d # r'" and nul': "NUL \<in> set (d # r')"
    by (cases "drop ?n (c # r)") (simp_all only: list.set empty_iff)
  have r': "drop (?n + 1) (c # r) = r'"
    unfolding Suc_eq_plus1 [symmetric] by (rule drop_Suc_tl [OF d])
  show ?thesis
  proof (cases "d = CHR ''.''")
    case True
    with nul' have "NUL \<in> set r'" by simp
    from scan_while_reads [of _ _ is_digit, OF reads_moved_1 [OF here [unfolded d]] zero this]
    show ?thesis
      using while here d r' True start
      by (simp add: lexer_scan_number_def number_at_def reads_simps make_token_moved Let_def)
  next
    case False
    with while here d start show ?thesis
      by (simp add: lexer_scan_number_def number_at_def reads_simps make_token_moved Let_def)
  qed
qed

lemma scan_operator_reads:
  assumes r: "reads lexer (c # d # r)" and start: "lexer_start lexer = lexer_current lexer"
    and alternatives: "\<forall>(e, type) \<in> set alternatives. e \<noteq> NUL"
  shows "lexer_scan_operator alternatives type (moved 1 lexer) =
    scanned lexer (case map_of alternatives d of Some t \<Rightarrow> Lexeme t 2 | None \<Rightarrow> Lexeme type 1)"
  using alternatives
proof (induction alternatives)
  case Nil
  then show ?case using start by (simp add: make_token_moved)
next
  case (Cons a alternatives)
  obtain e t where a: "a = (e, t)" by (cases a)
  with Cons.prems reads_match_next [OF reads_moved_1 [OF r], of e] Cons start show ?case
    by (auto simp: make_token_moved numeral_2_eq_2)
qed

lemma scan_string_reads:
  assumes r: "reads lexer (quote # d # r)" and start: "lexer_start lexer = lexer_current lexer"
    and safe: "d = NUL \<Longrightarrow> r = []"
  shows "lexer_scan_string (moved 1 lexer) = scanned lexer
    (if d = NUL then Runaway
     else if d = newline then Bad ''Unterminated string literal'' 1
     else Lexeme TOKEN_LIT_STRING 2)"
proof (cases "d = NUL")
  case True
  note here = reads_moved_1 [OF r]
  from True safe here have "reads (moved 1 (moved 1 lexer)) []" using reads_moved_1 by blast
  then have "buffer_read (lexer_source lexer) (lexer_current lexer + 2) = Inl OutOfBounds"
    by (auto simp: reads_def holds_text_def buffer_read_def split: buffer.splits)
  then have "lexer_scan_string_loop (moved 2 lexer) = Inl OutOfBounds"
    by (subst lexer_scan_string_loop.simps) (simp add: lexer_peek_def)
  with here True have "lexer_scan_string_loop (moved 1 lexer) = Inl OutOfBounds"
    by (subst lexer_scan_string_loop.simps) (simp add: reads_simps numeral_2_eq_2)
  with True show ?thesis by (simp add: lexer_scan_string_def)
next
  case False
  note here = reads_moved_1 [OF r]
  from here False have "lexer_scan_string_loop (moved 1 lexer) = Inr (moved 1 lexer)"
    by (subst lexer_scan_string_loop.simps) (simp add: reads_simps)
  with here False start show ?thesis
    by (simp add: lexer_scan_string_def reads_simps make_token_moved numeral_2_eq_2)
qed

text \<open>The characters the \<open>switch\<close> of \<open>lexer_scan_token\<close> has a case for.\<close>

definition symbol_chars :: string where
  "symbol_chars = ''(){}[].,:+-*/@!=><|&'' @ [quote]"

lemma scan_symbol_known:
  assumes r: "reads lexer (c # d # r)" and start: "lexer_start lexer = lexer_current lexer"
    and c: "c \<noteq> newline" "\<not> is_alpha c" "\<not> is_digit c" and safe: "d = NUL \<Longrightarrow> r = []"
    and known: "c \<in> set symbol_chars"
  shows "lexer_scan_symbol c (moved 1 lexer) = scanned lexer (lexeme_at (c # d # r))"
proof -
  note operator = scan_operator_reads [OF r start, simplified One_nat_def]
  have amp: "lexer_match_next (moved (Suc 0) lexer) (CHR ''&'') =
      Inr (if d = CHR ''&'' then (True, moved 2 lexer) else (False, moved (Suc 0) lexer))"
    using reads_match_next [OF reads_moved_1 [OF r]] by (simp add: numeral_2_eq_2)
  note unfold = lexer_scan_symbol_def Let_def lexeme_at_def operator_at_def operator_table_def
  from known show ?thesis
    unfolding symbol_chars_def append.simps list.set insert_iff empty_iff
    apply (elim disjE)
    using c amp scan_string_reads [of lexer d r, OF _ start safe] r start
    by (simp_all add: unfold operator make_token_moved numeral_2_eq_2 del: lexer_scan_operator.simps)
qed

lemma scan_symbol_unknown:
  assumes c: "c \<noteq> newline" "\<not> is_alpha c" "\<not> is_digit c" and unknown: "c \<notin> set symbol_chars"
  shows "lexer_scan_symbol c (moved 1 lexer) = scanned lexer (lexeme_at (c # d # r))"
  using assms
  by (simp add: lexer_scan_symbol_def Let_def lexeme_at_def operator_at_def operator_table_def
      symbol_chars_def numeral_2_eq_2)

text \<open>A source text: its only terminator is its last character.\<close>

definition terminated :: "string \<Rightarrow> bool" where
  "terminated r \<longleftrightarrow> (\<exists>u. r = u @ [NUL] \<and> NUL \<notin> set u)"

lemma terminated_NUL: "terminated r \<Longrightarrow> NUL \<in> set r"
  by (auto simp: terminated_def)

lemma terminated_Cons: "terminated (c # r) \<longleftrightarrow> (if c = NUL then r = [] else terminated r)"
proof (cases "c = NUL")
  case True
  then show ?thesis by (auto simp: terminated_def Cons_eq_append_conv)
next
  case False
  then show ?thesis
    by (auto simp: terminated_def Cons_eq_append_conv intro: exI [of _ "c # _"])
qed

lemma terminated_drop: "terminated r \<Longrightarrow> n < length r \<Longrightarrow> terminated (drop n r)"
proof (induction n arbitrary: r)
  case (Suc n)
  then show ?case by (cases r) (auto simp: terminated_Cons split: if_splits)
qed simp

lemma terminated_Nil [simp]: "\<not> terminated []"
  by (simp add: terminated_def)

lemma terminated_cases:
  assumes "terminated r"
  obtains "r = [NUL]" | c r' where "r = c # r'" "c \<noteq> NUL" "terminated r'"
proof (cases r)
  case Nil
  with assms show thesis by (simp add: terminated_def)
next
  case (Cons c r')
  with assms that show thesis by (simp add: terminated_Cons split: if_splits)
qed

text \<open>In front of a line break the lexer counts the line before it makes the token.\<close>

definition at_lexeme :: "string \<Rightarrow> Lexer \<Rightarrow> Lexer" where
  "at_lexeme t lexer =
     (if hd t = NUL then lexer\<lparr>lexer_column := lexer_column lexer + 1\<rparr>
      else if hd t = newline then lexer\<lparr>lexer_line := lexer_line lexer + 1\<rparr>
      else lexer)"

definition lexeme_of :: "string \<Rightarrow> lexeme" where
  "lexeme_of t = (if hd t = NUL then Lexeme TOKEN_EOF 0 else lexeme_at t)"

definition after_skip :: "string \<Rightarrow> Lexer \<Rightarrow> Lexer" where
  "after_skip text lexer =
     (let lexer = moved (skip_length text) lexer in lexer\<lparr>lexer_start := lexer_current lexer\<rparr>)"

lemma reads_after_skip:
  assumes "reads lexer text" and "terminated text"
  shows "reads (after_skip text lexer) (drop (skip_length text) text)"
  using reads_moved [OF assms(1)] skip_length_less [OF terminated_NUL [OF assms(2)]]
  by (simp add: after_skip_def Let_def)

lemma scan_token_reads:
  assumes r: "reads lexer text" and t: "terminated text"
  defines "rest \<equiv> drop (skip_length text) text"
  shows "lexer_scan_token lexer =
    scanned (at_lexeme rest (after_skip text lexer)) (lexeme_of rest)"
proof -
  let ?here = "after_skip text lexer"
  have skip: "lexer_skip_insignificant lexer = Inr (moved (skip_length text) lexer)"
    by (rule skip_insignificant_reads [OF r terminated_NUL [OF t]])
  have here: "reads ?here rest" unfolding rest_def by (rule reads_after_skip [OF r t])
  have start: "lexer_start ?here = lexer_current ?here" by (simp add: after_skip_def Let_def)
  have rest: "terminated rest"
    unfolding rest_def by (intro terminated_drop [OF t] skip_length_less terminated_NUL [OF t])
  have scan: "lexer_scan_token lexer =
      res_bind (lexer_is_at_end_of_file ?here) (\<lambda>eof.
      if eof then Inr (lexer_make_eof_token ?here)
      else res_bind (lexer_is_at_end_of_line ?here) (\<lambda>eol.
      if eol then res_bind (lexer_advance ?here) (\<lambda>(_, lexer). Inr (lexer_make_eol_token lexer))
      else res_bind (lexer_advance ?here) (\<lambda>(c, lexer).
        if is_alpha c then lexer_scan_identifier lexer
        else if is_digit c then lexer_scan_number lexer
        else lexer_scan_symbol c lexer)))"
    by (simp only: lexer_scan_token_def skip after_skip_def Let_def res_bind_simps)
  from rest show ?thesis
  proof (cases rule: terminated_cases)
    case 1
    with here start show ?thesis
      by (simp add: scan reads_simps lexer_make_eof_token_def lexer_make_token_def token_at_def
          at_lexeme_def lexeme_of_def Let_def)
  next
    case (2 c r')
    note here' = here [unfolded 2]
    consider (eol) "c = newline" | (alpha) "c \<noteq> newline" "is_alpha c"
      | (digit) "c \<noteq> newline" "\<not> is_alpha c" "is_digit c"
      | (symbol) "c \<noteq> newline" "\<not> is_alpha c" "\<not> is_digit c" by blast
    then show ?thesis
    proof cases
      case eol
      then show ?thesis using here' 2 start
        by (simp add: scan reads_simps lexer_make_eol_token_def lexer_make_token_def token_at_def
            at_lexeme_def lexeme_of_def lexeme_at_def moved_def Let_def)
    next
      case alpha
      then show ?thesis
        using here' 2 scan_identifier_reads [OF here' terminated_NUL start]
        by (simp add: scan reads_simps at_lexeme_def lexeme_of_def lexeme_at_def del: takeWhile.simps)
    next
      case digit
      then show ?thesis
        using here' 2 scan_number_reads [OF here' terminated_NUL start]
        by (simp add: scan reads_simps at_lexeme_def lexeme_of_def lexeme_at_def)
    next
      case symbol
      from 2 obtain d r'' where r': "r' = d # r''" by (cases r') (auto simp: terminated_def)
      have safe: "d = NUL \<Longrightarrow> r'' = []" using 2 r' by (simp add: terminated_Cons)
      have "lexer_scan_symbol c (moved 1 ?here) = scanned ?here (lexeme_at (c # d # r''))"
        using scan_symbol_known [OF here' [unfolded r'] start symbol safe]
          scan_symbol_unknown [OF symbol] by blast
      with symbol here' 2 r' show ?thesis
        by (simp add: scan reads_simps at_lexeme_def lexeme_of_def)
    qed
  qed
qed

subsection \<open>The size of a lexeme\<close>

fun lexeme_size :: "lexeme \<Rightarrow> nat" where
  "lexeme_size (Lexeme type n) = n"
| "lexeme_size (Bad message n) = n"
| "lexeme_size Runaway = 0"

lemma takeWhile_terminated:
  "terminated t \<Longrightarrow> \<not> p NUL \<Longrightarrow> length (takeWhile p t) < length t"
  by (auto simp: terminated_def takeWhile_tail less_Suc_eq_le length_takeWhile_le)

lemma number_at_size:
  assumes t: "terminated t" and d: "is_digit (hd t)"
  shows "0 < lexeme_size (number_at t) \<and> lexeme_size (number_at t) < length t"
proof -
  let ?n = "length (takeWhile is_digit t)"
  have zero: "\<not> is_digit NUL" by (simp add: is_digit_def)
  have n: "0 < ?n" "?n < length t"
    using t d takeWhile_terminated [of _ is_digit, OF t zero] by (cases t; simp add: terminated_def)+
  show ?thesis
  proof (cases "take 1 (drop ?n t) = ''.''")
    case True
    with n obtain r where r: "drop ?n t = CHR ''.'' # r" by (cases "drop ?n t") auto
    from terminated_drop [OF t n(2)] have "terminated r" unfolding r by (simp add: terminated_Cons)
    from takeWhile_terminated [of _ is_digit, OF this zero]
    have "length (takeWhile is_digit (drop (?n + 1) t)) < length t - (?n + 1)"
      using drop_Suc_tl [OF r] by (simp flip: length_drop)
    with True n show ?thesis by (simp add: number_at_def Let_def)
  next
    case False
    with n show ?thesis by (simp add: number_at_def Let_def)
  qed
qed

lemma operator_tableD:
  assumes "map_of operator_table s = Some type"
  shows "type \<noteq> TOKEN_EOF \<and> NUL \<notin> set s \<and> 0 < length s"
proof -
  have "\<forall>(s, type) \<in> set operator_table. type \<noteq> TOKEN_EOF \<and> NUL \<notin> set s \<and> 0 < length s"
    by (simp add: operator_table_def)
  with map_of_SomeD [OF assms] show ?thesis by blast
qed

lemma operator_at_size:
  assumes "operator_at t = Some (type, n)"
  shows "0 < n \<and> n \<le> length t \<and> type \<noteq> TOKEN_EOF \<and> n \<le> 2 \<and> NUL \<notin> set (take n t)"
proof -
  show ?thesis
  proof (cases "map_of operator_table (take 2 t)")
    case (Some u)
    with assms have "u = type" and n: "n = length (take 2 t)" by (simp_all add: operator_at_def)
    with Some operator_tableD [of "take 2 t" type] show ?thesis by (cases t) (auto simp: min_def)
  next
    case None
    with assms have "map_of operator_table (take 1 t) = Some type" and n: "n = 1"
      by (auto simp: operator_at_def simp del: One_nat_def)
    with operator_tableD [of "take 1 t" type] show ?thesis by (cases t) auto
  qed
qed

lemma word_type_not_EOF: "word_type w \<noteq> TOKEN_EOF"
  by (auto simp: word_type_def keyword_table_def)

lemma number_at_type: "\<exists>type. number_at t = Lexeme type (lexeme_size (number_at t)) \<and> type \<noteq> TOKEN_EOF"
  by (auto simp: number_at_def Let_def)

lemma lexeme_at_size:
  assumes t: "terminated t" and c: "hd t \<noteq> NUL" and safe: "lexeme_at t \<noteq> Runaway"
  shows "0 < lexeme_size (lexeme_at t) \<and> lexeme_size (lexeme_at t) < length t"
proof -
  from t c obtain c r where cr: "t = c # r" and r: "terminated r"
    by (cases rule: terminated_cases) auto
  from r obtain d r' where d: "r = d # r'" by (cases r) auto
  have word: "length (takeWhile is_word t) < length t"
    by (rule takeWhile_terminated [OF t]) (simp add: is_word_def is_alpha_def is_digit_def)
  consider (eol) "c = newline" | (alpha) "c \<noteq> newline" "is_alpha c"
    | (digit) "c \<noteq> newline" "\<not> is_alpha c" "is_digit c"
    | (str) "c \<noteq> newline" "\<not> is_alpha c" "\<not> is_digit c" "c = quote"
    | (other) "c \<noteq> newline" "\<not> is_alpha c" "\<not> is_digit c" "c \<noteq> quote" by blast
  then show ?thesis
  proof cases
    case eol
    then show ?thesis using cr d by (simp add: lexeme_at_def)
  next
    case alpha
    then show ?thesis using cr word by (simp add: lexeme_at_def Let_def is_word_def)
  next
    case digit
    then show ?thesis using cr number_at_size [OF t] by (simp add: lexeme_at_def)
  next
    case str
    then have d': "d \<noteq> NUL" using cr d safe by (auto simp: lexeme_at_def Let_def)
    then have "r' \<noteq> []" using r d by (auto simp: terminated_Cons)
    with d' show ?thesis using str cr d by (cases r') (auto simp: lexeme_at_def Let_def)
  next
    case other
    show ?thesis
    proof (cases "operator_at t")
      case None
      then show ?thesis using other cr d by (simp add: lexeme_at_def)
    next
      case (Some p)
      obtain type n where p: "p = (type, n)" by (cases p)
      note size = operator_at_size [OF Some [unfolded p]]
      from size t have "n < length t" by (auto simp: terminated_def dest: le_neq_implies_less)
      with size other cr Some p show ?thesis by (simp add: lexeme_at_def)
    qed
  qed
qed

lemma lexeme_at_type: "hd t \<noteq> NUL \<Longrightarrow> lexeme_at t = Lexeme type n \<Longrightarrow> type \<noteq> TOKEN_EOF"
  using number_at_type [of t] operator_at_size [of t] word_type_not_EOF
  by (fastforce simp: lexeme_at_def Let_def split: if_splits option.splits)

end
