(* ===== verification/Token_Streams.thy ===== *)
theory Token_Streams
  imports Scanning
begin

text \<open>
  The tokens of a whole source: the stream the lexer delivers, what printing it shows, where
  its tokens lie in the source, and the sources whose tokens are known in advance.
\<close>

subsection \<open>The tokens of a source\<close>

text \<open>
  The lexer delivers a list of tokens that ends with the first \<open>TOKEN_EOF\<close>, and is then in
  the state \<open>final\<close>.
\<close>

inductive delivers :: "Lexer \<Rightarrow> Token list \<Rightarrow> Lexer \<Rightarrow> bool" where
  last: "lexer_scan_token lexer = Inr (token, final) \<Longrightarrow> token_type token = TOKEN_EOF
    \<Longrightarrow> delivers lexer [token] final"
| more: "lexer_scan_token lexer = Inr (token, lexer') \<Longrightarrow> token_type token \<noteq> TOKEN_EOF
    \<Longrightarrow> delivers lexer' tokens final \<Longrightarrow> delivers lexer (token # tokens) final"

inductive_cases deliversE: "delivers lexer tokens final"

text \<open>
  The same from the text alone: \<open>text\<close> is what remains at the distance \<open>position\<close> in line
  \<open>line\<close>; \<open>None\<close> says that the lexer leaves the buffer. The column of a token counts from the
  beginning of the source, not of its line, and is two more than its position for \<open>TOKEN_EOF\<close>.
\<close>

definition stream_token :: "size_t \<Rightarrow> nat \<Rightarrow> lexeme \<Rightarrow> Token" where
  "stream_token line position lexeme =
     (case lexeme of
        Lexeme type n \<Rightarrow>
          \<lparr>token_type = type, token_start = In_source position, token_length = word_of_nat n,
           token_line = line,
           token_column = word_of_nat position + (if type = TOKEN_EOF then 2 else 1)\<rparr>
      | Bad message n \<Rightarrow>
          \<lparr>token_type = TOKEN_ERROR, token_start = Message message,
           token_length = word_of_nat (length message), token_line = line,
           token_column = word_of_nat (position + n)\<rparr>
      | Runaway \<Rightarrow> undefined)"

function token_stream :: "size_t \<Rightarrow> nat \<Rightarrow> string \<Rightarrow> Token list option" where
  "token_stream line position text =
     (let rest = drop (skip_length text) text;
          here = position + skip_length text;
          line = (if rest \<noteq> [] \<and> hd rest = newline then line + 1 else line);
          n = lexeme_size (lexeme_of rest)
      in if lexeme_of rest = Runaway then None
         else if n = 0 \<or> rest = [] then Some [stream_token line here (lexeme_of rest)]
         else map_option (Cons (stream_token line here (lexeme_of rest)))
                (token_stream line (here + n) (drop n rest)))"
  by pat_completeness auto
termination by (relation "measure (\<lambda>(line, position, text). length text)") auto

declare token_stream.simps [simp del]

text \<open>In a source text the lexeme is never empty before the end.\<close>

lemma token_stream_terminated:
  assumes t: "terminated text"
  defines "rest \<equiv> drop (skip_length text) text"
  obtains
    (eof) "rest = [NUL]" "token_stream line position text =
       Some [stream_token line (position + skip_length text) (Lexeme TOKEN_EOF 0)]"
  | (runaway) "hd rest \<noteq> NUL" "lexeme_at rest = Runaway" "token_stream line position text = None"
  | (lexeme) n line' where "hd rest \<noteq> NUL" "lexeme_at rest \<noteq> Runaway" "n = lexeme_size (lexeme_at rest)"
      "0 < n" "terminated (drop n rest)"
      "line' = (if hd rest = newline then line + 1 else line)"
      "token_stream line position text =
         map_option (Cons (stream_token line' (position + skip_length text) (lexeme_at rest)))
           (token_stream line' (position + skip_length text + n) (drop n rest))"
proof -
  have rest: "terminated rest"
    unfolding rest_def by (intro terminated_drop [OF t] skip_length_less terminated_NUL [OF t])
  note step_eq = token_stream.simps [of line position "text", folded rest_def, unfolded Let_def]
  show thesis
  proof (cases "hd rest = NUL")
    case True
    with rest have "rest = [NUL]" by (cases rule: terminated_cases) auto
    with step_eq show thesis by (intro eof) (simp_all add: lexeme_of_def)
  next
    case False
    show thesis
    proof (cases "lexeme_at rest = Runaway")
      case True
      with False step_eq show thesis by (intro runaway) (simp_all add: lexeme_of_def)
    next
      case safe: False
      note size = lexeme_at_size [OF rest False safe]
      from rest have "rest \<noteq> []" by auto
      with False safe size step_eq terminated_drop [OF rest] show thesis
        by (intro lexeme [OF False safe refl]) (simp_all add: lexeme_of_def)
    qed
  qed
qed

lemma scanned_stream_token:
  assumes "lexer_column lexer = word_of_nat (lexer_current lexer)" and "lexeme \<noteq> Runaway"
    and "\<And>n. lexeme = Lexeme TOKEN_EOF n \<Longrightarrow> False"
  shows "scanned lexer lexeme =
    Inr (stream_token (lexer_line lexer) (lexer_current lexer) lexeme, moved (lexeme_size lexeme) lexer)"
  using assms by (cases lexeme) (auto simp: stream_token_def token_at_def lexer_make_error_token_def)

lemma token_stream_delivers:
  assumes "reads lexer text" and "terminated text"
    and "lexer_column lexer = word_of_nat (lexer_current lexer)"
    and "token_stream (lexer_line lexer) (lexer_current lexer) text = Some tokens"
  shows "\<exists>final. delivers lexer tokens final \<and> lexer_source final = lexer_source lexer"
  using assms
proof (induction "length text" arbitrary: "text" lexer tokens rule: less_induct)
  case less
  let ?rest = "drop (skip_length text) text"
  let ?here = "at_lexeme ?rest (after_skip text lexer)"
  note scan = scan_token_reads [OF less.prems(1,2)]
  note here = reads_after_skip [OF less.prems(1,2)]
  have column: "lexer_column (after_skip text lexer) = word_of_nat (lexer_current (after_skip text lexer))"
    and current: "lexer_current (after_skip text lexer) = lexer_current lexer + skip_length text"
    and source: "lexer_source ?here = lexer_source lexer"
    and line: "lexer_line (after_skip text lexer) = lexer_line lexer"
    using less.prems(3) by (simp_all add: after_skip_def at_lexeme_def Let_def)
  note stream_cases = token_stream_terminated [of "text" "lexer_line lexer" "lexer_current lexer"]
  from less.prems(2) show ?case
  proof (cases rule: stream_cases)
    case eof
    let ?token = "stream_token (lexer_line lexer) (lexer_current lexer + skip_length text) (Lexeme TOKEN_EOF 0)"
    have "lexer_scan_token lexer = Inr (?token, ?here)"
      using scan eof(1) column current line
      by (simp add: lexeme_of_def at_lexeme_def token_at_def stream_token_def)
    moreover have "tokens = [?token]" using eof(2) less.prems(4) by simp
    ultimately show ?thesis
      using source by (auto simp: stream_token_def intro!: exI delivers.last)
  next
    case runaway
    with less.prems(4) show ?thesis by simp
  next
    case (lexeme n line')
    let ?token = "stream_token line' (lexer_current lexer + skip_length text) (lexeme_at ?rest)"
    obtain tokens' where tokens: "tokens = ?token # tokens'"
      and tail: "token_stream line' (lexer_current lexer + skip_length text + n) (drop n ?rest) = Some tokens'"
      using less.prems(4) [unfolded lexeme(7)] by (auto simp: map_option_eq_Some)
    have fields: "lexer_column ?here = word_of_nat (lexer_current ?here)"
      "lexer_current ?here = lexer_current lexer + skip_length text" "lexer_line ?here = line'"
      using column current line lexeme(1,6) by (simp_all add: at_lexeme_def)
    have type: "token_type ?token \<noteq> TOKEN_EOF"
      using lexeme_at_type [OF lexeme(1)] lexeme(2)
      by (cases "lexeme_at ?rest") (auto simp: stream_token_def)
    have scan': "lexer_scan_token lexer = Inr (?token, moved n ?here)"
      using scan lexeme(1-3) fields scanned_stream_token [of ?here "lexeme_at ?rest"]
        lexeme_at_type [OF lexeme(1)] by (auto simp: lexeme_of_def)
    have rest_less: "n \<le> length ?rest" using lexeme(4,5) by (cases "n \<le> length ?rest") auto
    have "reads ?here ?rest" using here by (simp add: at_lexeme_def reads_def)
    then have reads: "reads (moved n ?here) (drop n ?rest)" by (rule reads_moved [OF _ rest_less])
    have shorter: "length (drop n ?rest) < length text"
      using lexeme(4) rest_less by (cases "?rest = []") auto
    from less.hyps [OF shorter reads lexeme(5), of tokens'] tail fields
    obtain final where "delivers (moved n ?here) tokens' final" "lexer_source final = lexer_source ?here"
      by auto
    with scan' type tokens source show ?thesis by (auto intro!: exI delivers.more)
  qed
qed

subsection \<open>Printing the tokens of a source\<close>

definition token_text :: "string \<Rightarrow> Token \<Rightarrow> string" where
  "token_text s token =
     (case token_start token of
        In_source i \<Rightarrow> take (unat (token_length token)) (drop i s)
      | Message m \<Rightarrow> m)"

definition token_row :: "string \<Rightarrow> Token \<Rightarrow> string" where
  "token_row s token =
     print_zu 6 (token_line token) @ '' | '' @ print_zu 4 (token_column token) @ '' | ''
     @ pad_right 24 (translate_token_type (token_type token)) @ '' | ''
     @ (if token_type token = TOKEN_EOF then [CHR 0x5C, CHR ''0'']
        else if token_type token = TOKEN_EOL then [CHR 0x5C, CHR ''n'']
        else token_text s token) @ [newline]"

text \<open>A token that lies in front of the terminator of \<open>s\<close>, or has its text of its own.\<close>

definition token_within :: "nat \<Rightarrow> nat \<Rightarrow> Token \<Rightarrow> bool" where
  "token_within begin_at end_at token \<longleftrightarrow>
     (case token_start token of
        In_source i \<Rightarrow> begin_at \<le> i \<and> i + unat (token_length token) < end_at
      | Message m \<Rightarrow> token_length token = word_of_nat (length m) \<and> length m < 100)"

lemma sint_small: "n < 2 ^ 31 \<Longrightarrow> sint (ucast (word_of_nat n :: size_t) :: 32 word) = int n"
  by (simp add: unsigned_of_nat take_bit_nat_eq_self signed_of_nat signed_take_bit_int_eq_self)

lemma print_token_row:
  assumes p: "holds_text p s" and t: "terminated s" and short: "length s < 2 ^ 31"
    and within: "token_within begin_at (length s) token"
  shows "print_token p token = Inr (token_row s token)"
proof (cases "token_start token")
  case (In_source i)
  let ?n = "unat (token_length token)"
  from within In_source have i: "i + ?n < length s" by (simp add: token_within_def)
  then have n: "?n < 2 ^ 31" using short by simp
  have len: "token_length token = word_of_nat ?n" by simp
  have p_sint: "sint (ucast (token_length token) :: 32 word) = int ?n"
    by (subst len) (rule sint_small [OF n])
  from t obtain u where s: "s = u @ [NUL]" "NUL \<notin> set u" by (auto simp: terminated_def)
  have "NUL \<in> set (drop i s)" using i s by auto
  from read_upto_text [OF p this, of ?n]
  have "read_upto p i ?n = Inr (take ?n (takeWhile (\<lambda>c. c \<noteq> NUL) (drop i s)))" .
  moreover have "takeWhile (\<lambda>c. c \<noteq> NUL) (drop i s) = drop i u"
    using s i by (auto simp: takeWhile_tail dest: in_set_dropD)
  moreover have "take ?n (drop i u) = take ?n (drop i s)" using s i by simp
  ultimately have "print_token_text p token = Inr (token_text s token)"
    by (simp add: print_token_text_def p_sint In_source token_text_def)
  then show ?thesis by (simp add: print_token_def token_row_def Let_def)
next
  case (Message m)
  with within have m: "token_length token = word_of_nat (length m)" "length m < 100"
    by (simp_all add: token_within_def)
  have "print_token_text p token = Inr m"
    unfolding print_token_text_def m(1) using sint_small [of "length m"] m(2) Message by simp
  with Message show ?thesis by (simp add: print_token_def token_row_def token_text_def Let_def)
qed

lemma lexeme_at_message: "lexeme_at t = Bad message n \<Longrightarrow> length message < 100 \<and> n = 1"
  by (auto simp: lexeme_at_def number_at_def Let_def split: if_splits option.splits)

lemma token_stream_print:
  assumes "reads lexer text" and "terminated text"
    and "lexer_column lexer = word_of_nat (lexer_current lexer)"
    and p: "holds_text (lexer_source lexer) s" and s: "terminated s" "length s < 2 ^ 31"
  shows "case token_stream (lexer_line lexer) (lexer_current lexer) text of
      None \<Rightarrow> lexer_print lexer = Inl OutOfBounds
    | Some tokens \<Rightarrow> (\<exists>final. lexer_print lexer = Inr (concat (map (token_row s) tokens), final)
        \<and> lexer_source final = lexer_source lexer)"
  using assms
proof (induction "length text" arbitrary: "text" lexer rule: less_induct)
  case less
  let ?rest = "drop (skip_length text) text"
  let ?here = "at_lexeme ?rest (after_skip text lexer)"
  note scan = scan_token_reads [OF less.prems(1,2)]
  note here = reads_after_skip [OF less.prems(1,2)]
  have column: "lexer_column (after_skip text lexer) = word_of_nat (lexer_current (after_skip text lexer))"
    and current: "lexer_current (after_skip text lexer) = lexer_current lexer + skip_length text"
    and source: "lexer_source ?here = lexer_source lexer"
    and line: "lexer_line (after_skip text lexer) = lexer_line lexer"
    using less.prems(3) by (simp_all add: after_skip_def at_lexeme_def Let_def)
  note row = print_token_row [OF less.prems(4,5,6)]
  have len: "lexer_current lexer + length text = length s"
    using less.prems(1,4) by (auto simp: reads_def holds_text_def dest: map_injective)
  note stream_cases = token_stream_terminated [of "text" "lexer_line lexer" "lexer_current lexer"]
  from less.prems(2) show ?case
  proof (cases rule: stream_cases)
    case eof
    let ?token = "stream_token (lexer_line lexer) (lexer_current lexer + skip_length text) (Lexeme TOKEN_EOF 0)"
    have scan': "lexer_scan_token lexer = Inr (?token, ?here)"
      using scan eof(1) column current line
      by (simp add: lexeme_of_def at_lexeme_def token_at_def stream_token_def)
    have "length ?rest = 1" using eof(1) by simp
    then have "token_within 0 (length s) ?token"
      using len by (simp add: token_within_def stream_token_def)
    from row [OF this] scan' eof(2) source show ?thesis
      by (subst lexer_print.simps) (simp add: stream_token_def)
  next
    case runaway
    with scan show ?thesis
      by (subst lexer_print.simps) (simp add: lexeme_of_def)
  next
    case (lexeme n line')
    let ?token = "stream_token line' (lexer_current lexer + skip_length text) (lexeme_at ?rest)"
    have fields: "lexer_column ?here = word_of_nat (lexer_current ?here)"
      "lexer_current ?here = lexer_current lexer + skip_length text" "lexer_line ?here = line'"
      using column current line lexeme(1,6) by (simp_all add: at_lexeme_def)
    have type: "token_type ?token \<noteq> TOKEN_EOF"
      using lexeme_at_type [OF lexeme(1)] lexeme(2)
      by (cases "lexeme_at ?rest") (auto simp: stream_token_def)
    have scan': "lexer_scan_token lexer = Inr (?token, moved n ?here)"
      using scan lexeme(1-3) fields scanned_stream_token [of ?here "lexeme_at ?rest"]
        lexeme_at_type [OF lexeme(1)] by (auto simp: lexeme_of_def)
    have rest_less: "n < length ?rest" using lexeme(5) by (cases "n < length ?rest") auto
    then have small: "unat (word_of_nat n :: size_t) = n"
      using len less.prems(6) by (intro unat_size_of_nat) simp
    have "token_within 0 (length s) ?token"
      using lexeme(2,3) rest_less len small lexeme_at_message [of ?rest]
      by (cases "lexeme_at ?rest") (auto simp: token_within_def stream_token_def)
    note print = row [OF this]
    have "reads ?here ?rest" using here by (simp add: at_lexeme_def reads_def)
    then have reads: "reads (moved n ?here) (drop n ?rest)"
      by (rule reads_moved [OF _ less_imp_le [OF rest_less]])
    have shorter: "length (drop n ?rest) < length text"
      using lexeme(4) rest_less by (cases "?rest = []") auto
    from less.hyps [OF shorter reads lexeme(5)] fields less.prems(4-6) source
    have tail: "case token_stream line' (lexer_current lexer + skip_length text + n) (drop n ?rest) of
        None \<Rightarrow> lexer_print (moved n ?here) = Inl OutOfBounds
      | Some tokens \<Rightarrow>
          (\<exists>final. lexer_print (moved n ?here) = Inr (concat (map (token_row s) tokens), final)
            \<and> lexer_source final = lexer_source lexer)"
      by (simp cong: option.case_cong)
    have "lexer_print lexer = res_bind (lexer_print (moved n ?here))
        (\<lambda>(more, lexer). Inr (token_row s ?token @ more, lexer))"
      using type scan' print source by (subst lexer_print.simps) simp
    with tail show ?thesis
      unfolding lexeme(7) by (auto split: option.splits)
  qed
qed

subsection \<open>Where the tokens lie\<close>

text \<open>
  \<open>in_order first last tokens\<close>: the tokens taken from the source follow one another between
  \<open>first\<close> and \<open>last\<close> without overlapping, and each knows its place.
\<close>

fun in_order :: "nat \<Rightarrow> nat \<Rightarrow> Token list \<Rightarrow> bool" where
  "in_order begin_at end_at [] \<longleftrightarrow> True"
| "in_order begin_at end_at (token # tokens) \<longleftrightarrow>
     (case token_start token of
        In_source i \<Rightarrow>
          begin_at \<le> i \<and> i + unat (token_length token) < end_at
          \<and> token_column token = word_of_nat i + (if token_type token = TOKEN_EOF then 2 else 1)
          \<and> in_order (i + unat (token_length token)) end_at tokens
      | Message m \<Rightarrow> token_type token = TOKEN_ERROR \<and> in_order begin_at end_at tokens)"

lemma in_order_mono: "in_order b e tokens \<Longrightarrow> b' \<le> b \<Longrightarrow> in_order b' e tokens"
  by (induction tokens arbitrary: b b') (auto split: text_ref.splits)

lemma token_stream_in_order:
  "terminated text \<Longrightarrow> position + length text < 2 ^ 63 \<Longrightarrow>
    token_stream line position text = Some tokens \<Longrightarrow>
    in_order position (position + length text) tokens
    \<and> token_type (last tokens) = TOKEN_EOF \<and> tokens \<noteq> []
    \<and> (\<forall>token \<in> set (butlast tokens). token_type token \<noteq> TOKEN_EOF)"
proof (induction "length text" arbitrary: "text" line position tokens rule: less_induct)
  case less
  let ?rest = "drop (skip_length text) text"
  note stream_cases = token_stream_terminated [of "text" line position]
  from less.prems(1) show ?case
  proof (cases rule: stream_cases)
    case eof
    have "length ?rest = 1" using eof(1) by simp
    then have "skip_length text < length text" by simp
    with eof less.prems(3) show ?thesis by (auto simp: stream_token_def)
  next
    case runaway
    with less.prems(3) show ?thesis by simp
  next
    case (lexeme n line')
    let ?token = "stream_token line' (position + skip_length text) (lexeme_at ?rest)"
    obtain tokens' where tokens: "tokens = ?token # tokens'"
      and tail: "token_stream line' (position + skip_length text + n) (drop n ?rest) = Some tokens'"
      using less.prems(3) [unfolded lexeme(7)] by (auto simp: map_option_eq_Some)
    have rest_less: "n < length ?rest" using lexeme(5) by (cases "n < length ?rest") auto
    then have small: "unat (word_of_nat n :: size_t) = n"
      using less.prems(2) by (intro unat_size_of_nat) simp
    have shorter: "length (drop n ?rest) < length text"
      using lexeme(4) rest_less by (cases "?rest = []") auto
    have e: "position + skip_length text + n + length (drop n ?rest) = position + length text"
      using rest_less by simp
    from less.hyps [OF shorter lexeme(5) _ tail] e less.prems(2)
    have IH: "in_order (position + skip_length text + n) (position + length text) tokens'"
      "token_type (last tokens') = TOKEN_EOF" "tokens' \<noteq> []"
      "\<forall>token \<in> set (butlast tokens'). token_type token \<noteq> TOKEN_EOF"
      by simp_all
    have type: "token_type ?token \<noteq> TOKEN_EOF"
      using lexeme_at_type [OF lexeme(1)] lexeme(2)
      by (cases "lexeme_at ?rest") (auto simp: stream_token_def)
    have "in_order position (position + length text) tokens"
      unfolding tokens using lexeme(2,3) IH(1) rest_less small type in_order_mono [OF IH(1)]
      by (cases "lexeme_at ?rest") (auto simp: stream_token_def)
    with IH type tokens show ?thesis by simp
  qed
qed

subsection \<open>Lexemes separated by blanks\<close>

definition spells :: "string \<Rightarrow> TokenType \<Rightarrow> bool" where
  "spells w type \<longleftrightarrow>
     map_of operator_table w = Some type
     \<or> w \<noteq> [] \<and> is_alpha (hd w) \<and> list_all is_word w \<and> type = word_type w
     \<or> w \<noteq> [] \<and> list_all is_digit w \<and> type = TOKEN_LIT_INT
     \<or> (\<exists>i f. w = i @ CHR ''.'' # f \<and> i \<noteq> [] \<and> list_all is_digit i \<and> list_all is_digit f
          \<and> type = TOKEN_LIT_REAL)"

lemma takeWhile_all: "list_all p w \<Longrightarrow> \<not> p c \<Longrightarrow> takeWhile p (w @ c # r) = w"
  by (induction w) auto

lemma is_alpha_not_digit: "is_digit c \<Longrightarrow> \<not> is_alpha c \<and> c \<noteq> newline"
  by (auto simp: is_alpha_def is_digit_def less_eq_char_def)

lemma is_alpha_not_newline: "is_alpha c \<Longrightarrow> c \<noteq> newline"
  by (auto simp: is_alpha_def less_eq_char_def)

lemma blank_ends: "\<not> is_word (CHR '' '')" "\<not> is_digit (CHR '' '')"
  by (simp_all add: is_word_def is_alpha_def is_digit_def less_eq_char_def)

lemma spells_operator:
  assumes "map_of operator_table w = Some type"
  shows "lexeme_at (w @ CHR '' '' # r) = Lexeme type (length w)"
proof -
  have "\<forall>(w, type) \<in> set operator_table. lexeme_at (w @ CHR '' '' # r) = Lexeme type (length w)"
    by (simp add: operator_table_def lexeme_at_def operator_at_def is_alpha_def is_digit_def
        less_eq_char_def)
  with map_of_SomeD [OF assms] show ?thesis by blast
qed

lemma spells_lexeme:
  assumes "spells w type"
  shows "lexeme_at (w @ CHR '' '' # r) = Lexeme type (length w)"
  using assms unfolding spells_def
proof (elim disjE exE conjE)
  assume "map_of operator_table w = Some type"
  then show ?thesis by (rule spells_operator)
next
  assume w: "w \<noteq> []" "is_alpha (hd w)" "list_all is_word w" "type = word_type w"
  with takeWhile_all [OF w(3) blank_ends(1), of r] show ?thesis
    by (simp add: lexeme_at_def Let_def is_alpha_not_newline)
next
  assume w: "w \<noteq> []" "list_all is_digit w" "type = TOKEN_LIT_INT"
  then have "is_digit (hd w)" by (cases w) auto
  with w takeWhile_all [OF w(2) blank_ends(2), of r] show ?thesis
    by (simp add: lexeme_at_def number_at_def Let_def is_alpha_not_digit)
next
  fix i f
  assume w: "w = i @ CHR ''.'' # f" "i \<noteq> []" "list_all is_digit i" "list_all is_digit f"
    "type = TOKEN_LIT_REAL"
  then have "is_digit (hd w)" by (cases i) auto
  moreover have "\<not> is_digit (CHR ''.'')" by (simp add: is_digit_def less_eq_char_def)
  ultimately show ?thesis
    using w takeWhile_all [OF w(3), of "CHR ''.''" "f @ CHR '' '' # r"]
      takeWhile_all [OF w(4) blank_ends(2), of r]
    by (simp add: lexeme_at_def number_at_def Let_def is_alpha_not_digit)
qed

text \<open>Words with a blank in front of each and behind the last.\<close>

fun spaced :: "string list \<Rightarrow> string" where
  "spaced [] = [CHR '' '', NUL]"
| "spaced (w # ws) = CHR '' '' # w @ spaced ws"

lemma spaced_blank: "\<exists>r. spaced ws = CHR '' '' # r"
  by (cases ws) auto

lemma spells_word_char:
  assumes "is_word c"
  shows "\<not> is_insignificant_whitespace c \<and> c \<noteq> CHR ''/'' \<and> c \<noteq> NUL"
proof -
  have "\<forall>c \<in> set [CHR '' '', CHR 0x0D, CHR 0x09, CHR ''/'', NUL]. \<not> is_word c"
    by (simp add: is_word_def is_alpha_def is_digit_def less_eq_char_def)
  with assms show ?thesis by (auto simp: is_insignificant_whitespace_def)
qed

lemma spells_not_skipped:
  assumes "spells w type"
  shows "skip_length (w @ CHR '' '' # r) = 0 \<and> NUL \<notin> set w \<and> w \<noteq> []"
proof (cases "map_of operator_table w = Some type")
  case True
  have "\<forall>(w, type) \<in> set operator_table. skip_length (w @ CHR '' '' # r) = 0 \<and> NUL \<notin> set w \<and> w \<noteq> []"
    by (simp add: operator_table_def skip_length.simps [of "_ # _"] is_insignificant_whitespace_def)
  with map_of_SomeD [OF True] show ?thesis by blast
next
  case False
  have dot: "\<not> is_insignificant_whitespace (CHR ''.'')" by (simp add: is_insignificant_whitespace_def)
  from assms False have w: "w \<noteq> []" "is_word (hd w)" "\<forall>c \<in> set w. is_word c \<or> c = CHR ''.''"
    by (auto simp: spells_def is_word_def list_all_iff hd_append)
  then have "NUL \<notin> set w" using spells_word_char by auto
  moreover from w obtain c w' where "w = c # w'" by (cases w) auto
  ultimately show ?thesis
    using w spells_word_char [of "hd w"] by (simp add: skip_length.simps [of "_ # _"])
qed

lemma spaced_terminated: "list_all2 spells ws types \<Longrightarrow> terminated (spaced ws)"
proof (induction rule: list_all2_induct)
  case Nil
  show ?case by (auto simp: terminated_def intro: exI [of _ "[CHR '' '']"])
next
  case (Cons w ws type types)
  then obtain u where u: "spaced ws = u @ [NUL]" "NUL \<notin> set u" by (auto simp: terminated_def)
  with spells_not_skipped [OF Cons.hyps(1)] show ?case
    by (auto simp: terminated_def intro!: exI [of _ "CHR '' '' # w @ u"])
qed

text \<open>The token of the word \<open>w\<close>, which a blank follows.\<close>

definition placed :: "string \<Rightarrow> Token \<Rightarrow> string \<times> TokenType \<Rightarrow> bool" where
  "placed s token = (\<lambda>(w, type). token_type token = type \<and> token_length token = word_of_nat (length w)
     \<and> (\<exists>i r. token_start token = In_source i \<and> drop i s = w @ CHR '' '' # r))"

lemma placed_text: "placed s token (w, type) \<Longrightarrow> length w < 2 ^ 64 \<Longrightarrow> token_text s token = w"
  by (auto simp: placed_def token_text_def unat_size_of_nat)

lemma token_stream_spaced:
  "list_all2 spells ws types \<Longrightarrow> drop position s = spaced ws \<Longrightarrow>
    \<exists>tokens eof. token_stream line position (spaced ws) = Some (tokens @ [eof])
      \<and> list_all2 (placed s) tokens (zip ws types) \<and> token_type eof = TOKEN_EOF
      \<and> list_all (\<lambda>t. token_line t = line) tokens"
proof (induction arbitrary: position rule: list_all2_induct)
  case Nil
  have "skip_length [CHR '' '', NUL] = 1"
    by (simp add: skip_length.simps [of "_ # _"] is_insignificant_whitespace_def)
  then have "token_stream line position (spaced []) =
      Some ([] @ [stream_token line (position + 1) (Lexeme TOKEN_EOF 0)])"
    by (subst token_stream.simps) (simp add: Let_def lexeme_of_def)
  then show ?case by (fastforce simp: stream_token_def)
next
  case (Cons w ws type types)
  obtain r where r: "spaced ws = CHR '' '' # r" using spaced_blank by blast
  note word = spells_not_skipped [OF Cons.hyps(1), of r, folded r]
  have "skip_length (spaced (w # ws)) = Suc (skip_length (w @ spaced ws))"
    by (simp add: skip_length.simps [of "_ # _"] is_insignificant_whitespace_def)
  with word have skip: "skip_length (spaced (w # ws)) = 1" by simp
  have rest: "drop 1 (spaced (w # ws)) = w @ spaced ws" by simp
  have hd: "hd (w @ spaced ws) = hd w" and "hd w \<noteq> NUL" using word by (cases w; auto)+
  have lexeme: "lexeme_at (w @ spaced ws) = Lexeme type (length w)"
    using spells_lexeme [OF Cons.hyps(1), of r] r by simp
  have line_break: "hd w \<noteq> newline"
  proof
    assume "hd w = newline"
    then have "lexeme_at (w @ spaced ws) = Lexeme TOKEN_EOL 1" using hd by (simp add: lexeme_at_def)
    with lexeme have "length w = 1" "type = TOKEN_EOL" by auto
    with \<open>hd w = newline\<close> Cons.hyps(1) show False
      by (auto simp: spells_def operator_table_def word_type_def keyword_table_def split: if_splits)
  qed
  have type: "type \<noteq> TOKEN_EOF" using lexeme_at_type [OF _ lexeme] hd \<open>hd w \<noteq> NUL\<close> by simp
  have here: "drop (position + 1) s = w @ spaced ws"
    using Cons.prems by (metis drop_drop rest add.commute)
  then have "drop (position + 1 + length w) s = spaced ws"
    by (metis append_eq_conv_conj drop_drop add.commute)
  from Cons.IH [OF this] obtain tokens eof where
    tokens: "token_stream line (position + 1 + length w) (spaced ws) = Some (tokens @ [eof])"
    "list_all2 (placed s) tokens (zip ws types)" "token_type eof = TOKEN_EOF"
    "list_all (\<lambda>t. token_line t = line) tokens" by blast
  let ?token = "stream_token line (position + 1) (Lexeme type (length w))"
  have "placed s ?token (w, type)"
    using here r by (auto simp: placed_def stream_token_def)
  moreover have "token_stream line position (spaced (w # ws)) = Some ((?token # tokens) @ [eof])"
    unfolding token_stream.simps [of line position "spaced (w # ws)"] skip rest Let_def
    using tokens(1) lexeme hd word \<open>hd w \<noteq> NUL\<close> line_break by (simp add: lexeme_of_def)
  moreover have "token_line ?token = line" by (simp add: stream_token_def)
  ultimately show ?case
    using tokens(2-4) by (intro exI [of _ "?token # tokens"] exI [of _ eof]) simp
qed

end
