(* ===== verification/Sources.thy ===== *)
theory Sources
  imports Token_Streams
begin

text \<open>
  Whole sources: a source text in memory, which tokens it can have, and the two kinds of source
  the program cannot handle.
\<close>

subsection \<open>Lexemes a source can have\<close>

text \<open>
  The lexer leaves a source that ends with a quotation mark, and the parser calls a null
  pointer at a token \<open>+=\<close> or \<open>->\<close>.
\<close>

definition ends_in_quote :: "string \<Rightarrow> bool" where
  "ends_in_quote s \<longleftrightarrow> (\<exists>u. s = u @ [quote, NUL])"

definition has_null_rule :: "string \<Rightarrow> bool" where
  "has_null_rule s \<longleftrightarrow> (\<exists>i. take 2 (drop i s) = ''+='' \<or> take 2 (drop i s) = ''->'')"

lemma lexeme_at_types:
  assumes "lexeme_at t = Lexeme type n"
  shows "type \<noteq> COUNT_TOKENS \<and> type \<noteq> TOKEN_MINUS_ASSIGN \<and> type \<noteq> TOKEN_ERROR"
proof -
  have table: "\<forall>(w, type) \<in> set (operator_table @ keyword_table).
      type \<noteq> COUNT_TOKENS \<and> type \<noteq> TOKEN_MINUS_ASSIGN \<and> type \<noteq> TOKEN_ERROR"
    by (simp add: operator_table_def keyword_table_def)
  have operator: "type \<noteq> COUNT_TOKENS \<and> type \<noteq> TOKEN_MINUS_ASSIGN \<and> type \<noteq> TOKEN_ERROR"
    if "map_of operator_table w = Some type" for w type
    using map_of_SomeD [OF that] table by fastforce
  have word: "word_type w \<noteq> COUNT_TOKENS \<and> word_type w \<noteq> TOKEN_MINUS_ASSIGN \<and> word_type w \<noteq> TOKEN_ERROR" for w
  proof (cases "map_of keyword_table w")
    case (Some k)
    with map_of_SomeD [OF Some] table show ?thesis by (fastforce simp: word_type_def)
  qed (simp add: word_type_def)
  from assms operator word show ?thesis
    by (auto simp: lexeme_at_def number_at_def operator_at_def Let_def
        split: if_splits option.splits)
qed

lemma lexeme_at_null_rule:
  assumes "lexeme_at t = Lexeme type n" and "type = TOKEN_PLUS_ASSIGN \<or> type = TOKEN_RIGHT_ARROW"
  shows "take 2 t = ''+='' \<or> take 2 t = ''->''"
proof -
  have table: "\<forall>(w, type) \<in> set operator_table.
      type = TOKEN_PLUS_ASSIGN \<or> type = TOKEN_RIGHT_ARROW \<longrightarrow> w = ''+='' \<or> w = ''->''"
    by (simp add: operator_table_def)
  have operator: "w = ''+='' \<or> w = ''->''" if "map_of operator_table w = Some type" for w
    using map_of_SomeD [OF that] table assms(2) by fastforce
  have word: "word_type w \<noteq> TOKEN_PLUS_ASSIGN \<and> word_type w \<noteq> TOKEN_RIGHT_ARROW" for w
    by (auto simp: word_type_def keyword_table_def)
  have one: "take 1 t = w \<Longrightarrow> length w \<noteq> 2" for w by (cases t) auto
  from assms have "operator_at t = Some (type, n)"
    using word by (auto simp: lexeme_at_def number_at_def Let_def split: if_splits option.splits)
  then show ?thesis
    using operator [of "take 2 t"] operator [of "take 1 t"] one [of "''+=''"] one [of "''->''"]
    by (auto simp: operator_at_def simp del: One_nat_def split: option.splits)
qed

lemma lexeme_at_runaway:
  assumes t: "terminated t" and c: "hd t \<noteq> NUL" and runaway: "lexeme_at t = Runaway"
  shows "t = [quote, NUL]"
proof -
  from t c obtain c r where cr: "t = c # r" and r: "terminated r" by (cases rule: terminated_cases) auto
  with runaway have "c = quote" "hd r = NUL"
    by (auto simp: lexeme_at_def number_at_def Let_def split: if_splits option.splits)
  with cr r show ?thesis by (cases r) (auto simp: terminated_Cons)
qed

subsection \<open>A source in memory\<close>

text \<open>The source text \<open>s\<close> in memory, short enough to be printed.\<close>

definition source_ok :: "char buffer \<Rightarrow> string \<Rightarrow> bool" where
  "source_ok p s \<longleftrightarrow> holds_text p s \<and> terminated s \<and> length s < 2 ^ 31"

lemma lexer_init_select [simp]:
  "lexer_source (lexer_init p) = p" "lexer_current (lexer_init p) = 0"
  "lexer_line (lexer_init p) = 1" "lexer_column (lexer_init p) = 0"
  by (simp_all add: lexer_init_def)

lemma lexer_reset_init: "lexer_source lexer = p \<Longrightarrow> lexer_reset lexer = lexer_init p"
  by (cases lexer) (simp add: lexer_reset_def lexer_init_def)

lemma source_ok_reads: "source_ok p s \<Longrightarrow> reads (lexer_init p) s"
  by (auto simp: reads_def lexer_init_def source_ok_def)


text \<open>Only a source that ends in a quotation mark has no stream of tokens.\<close>

lemma token_stream_None:
  "terminated text \<Longrightarrow> token_stream line position text = None \<Longrightarrow> ends_in_quote text"
proof (induction "length text" arbitrary: "text" line position rule: less_induct)
  case less
  let ?rest = "drop (skip_length text) text"
  note stream_cases = token_stream_terminated [of "text" line position]
  from less.prems(1) show ?case
  proof (cases rule: stream_cases)
    case eof
    with less.prems(2) show ?thesis by simp
  next
    case runaway
    have "skip_length text < length text" by (rule skip_length_less [OF terminated_NUL [OF less.prems(1)]])
    then have "terminated ?rest" by (rule terminated_drop [OF less.prems(1)])
    from lexeme_at_runaway [OF this runaway(1,2)] have "text = take (skip_length text) text @ [quote, NUL]"
      by (metis append_take_drop_id)
    then show ?thesis by (auto simp: ends_in_quote_def)
  next
    case (lexeme n line')
    have rest_less: "n < length ?rest" using lexeme(5) by (cases "n < length ?rest") auto
    have shorter: "length (drop n ?rest) < length text"
      using lexeme(4) rest_less by (cases "?rest = []") auto
    have none: "token_stream line' (position + skip_length text + n) (drop n ?rest) = None"
      using less.prems(2) lexeme(7) by simp
    from less.hyps [OF shorter lexeme(5) none] obtain u where "drop n ?rest = u @ [quote, NUL]"
      by (auto simp: ends_in_quote_def)
    then have "text = (take (skip_length text) text @ take n ?rest @ u) @ [quote, NUL]"
      by (metis append.assoc append_take_drop_id)
    then show ?thesis unfolding ends_in_quote_def by blast
  qed
qed

lemma scan_token_in_room: "lexer_scan_token lexer = Inr x \<Longrightarrow> 0 < room lexer"
  by (auto simp: lexer_scan_token_def lexer_skip_insignificant.simps [of lexer] lexer_peek_def room_def
      elim!: res_bindE dest: buffer_read_bound)

lemma delivers_room: "delivers lexer tokens final \<Longrightarrow> length tokens \<le> room lexer"
  by (induction rule: delivers.induct) (auto dest: lexer_scan_token_room scan_token_in_room)

text \<open>The whole lexer on a source: printing and the tokens it delivers.\<close>

lemma lexer_init_column: "lexer_column (lexer_init p) = word_of_nat (lexer_current (lexer_init p))"
  by simp

lemma source_print:
  assumes "source_ok p s"
  shows "case token_stream 1 0 s of
      None \<Rightarrow> lexer_print (lexer_init p) = Inl OutOfBounds
    | Some tokens \<Rightarrow> \<exists>final. lexer_print (lexer_init p) = Inr (concat (map (token_row s) tokens), final)
        \<and> lexer_reset final = lexer_init p"
proof -
  have "holds_text (lexer_source (lexer_init p)) s" and s: "terminated s" "length s < 2 ^ 31"
    using assms by (simp_all add: source_ok_def)
  from token_stream_print [OF source_ok_reads [OF assms] s(1) lexer_init_column this]
  show ?thesis by (auto simp: lexer_reset_init split: option.splits)
qed

lemma source_delivers:
  assumes "source_ok p s" and "token_stream 1 0 s = Some tokens"
  shows "\<exists>final. delivers (lexer_init p) tokens final"
  using token_stream_delivers [OF source_ok_reads [OF assms(1)] _ lexer_init_column] assms
  by (auto simp: source_ok_def)

lemma placed_texts:
  assumes "list_all2 (placed s) tokens (zip ws types)" and "length ws = length types"
    and "length s < 2 ^ 31"
  shows "map token_type tokens = types \<and> map (token_text s) tokens = ws"
proof -
  have one: "token_type token = snd x \<and> token_text s token = fst x" if x: "placed s token x" for token x
  proof -
    obtain w type where wt: "x = (w, type)" by (cases x)
    with x obtain i r where "drop i s = w @ CHR '' '' # r" by (auto simp: placed_def)
    then have "length w \<le> length s" by (metis length_append length_drop le_add1 diff_le_self le_trans)
    then have "length w < 2 ^ 64" using assms(3) by simp
    with placed_text x wt show ?thesis by (auto simp: placed_def)
  qed
  from assms(1) have "map token_type tokens = map snd (zip ws types) \<and> map (token_text s) tokens = map fst (zip ws types)"
    by (induction rule: list_all2_induct) (simp_all add: one)
  with assms(2) show ?thesis by simp
qed

end
