(* ===== verification/Reassembly.thy ===== *)
theory Reassembly
  imports Token_Streams
begin

text \<open>
  What the lexer does not make a token of: the text in front of a token is white space and
  comments. With the texts of the tokens it is the whole source again.
\<close>

subsection \<open>Skipped text\<close>

text \<open>No block comment ends in a text.\<close>

definition unclosed :: "string \<Rightarrow> bool" where
  "unclosed u \<longleftrightarrow> (\<forall>i. take 2 (drop i u) \<noteq> ''*/'')"

text \<open>
  White space, comments to the end of the line, which is a token, and block comments, closed
  by the first \<open>*/\<close> behind their \<open>/\<close> or not at all. The text \<open>w\<close> between them starts with the
  star that opens the comment unless this star closes it.
\<close>

inductive skipped :: "string \<Rightarrow> bool" where
  nothing: "skipped []"
| white: "is_insignificant_whitespace c \<Longrightarrow> skipped s \<Longrightarrow> skipped (c # s)"
| line: "newline \<notin> set w \<Longrightarrow> NUL \<notin> set w \<Longrightarrow> skipped (''//'' @ w)"
| block: "unclosed (w @ ''*'') \<Longrightarrow> NUL \<notin> set w \<Longrightarrow> w = [] \<or> hd w = CHR ''*'' \<Longrightarrow> skipped s
    \<Longrightarrow> skipped (CHR ''/'' # w @ ''*/'' @ s)"
| open_block: "unclosed w \<Longrightarrow> NUL \<notin> set w \<Longrightarrow> w \<noteq> [] \<Longrightarrow> hd w = CHR ''*'' \<Longrightarrow> skipped (CHR ''/'' # w)"

lemma unclosed_simps [simp]:
  "unclosed []"
  "unclosed (c # u) \<longleftrightarrow> \<not> (c = CHR ''*'' \<and> take 1 u = ''/'') \<and> unclosed u"
proof -
  show "unclosed []" by (simp add: unclosed_def)
  have "unclosed (c # u) \<longleftrightarrow> take 2 (c # u) \<noteq> ''*/'' \<and> unclosed u"
    unfolding unclosed_def by (metis drop_0 drop_Suc_Cons old.nat.exhaust)
  then show "unclosed (c # u) \<longleftrightarrow> \<not> (c = CHR ''*'' \<and> take 1 u = ''/'') \<and> unclosed u"
    by (auto simp: numeral_2_eq_2)
qed

lemma block_length_cases:
  assumes "NUL \<in> set r"
  obtains (closed) w r' where "r = w @ ''*/'' @ r'" and "block_length r = length w + 2" and "unclosed (w @ ''*'')"
      and "NUL \<notin> set w"
    | (never) w r' where "r = w @ NUL # r'" and "block_length r = length w" and "unclosed w" and "NUL \<notin> set w"
proof -
  have "(\<exists>w r'. r = w @ ''*/'' @ r' \<and> block_length r = length w + 2 \<and> unclosed (w @ ''*'') \<and> NUL \<notin> set w)
      \<or> (\<exists>w r'. r = w @ NUL # r' \<and> block_length r = length w \<and> unclosed w \<and> NUL \<notin> set w)"
    using assms
  proof (induction r rule: block_length.induct)
    case (2 c r)
    consider "c = NUL" | "c \<noteq> NUL" "c = CHR ''*''" "\<exists>r'. r = CHR ''/'' # r'"
      | (rest) "c \<noteq> NUL" "\<not> (c = CHR ''*'' \<and> r \<noteq> [] \<and> hd r = CHR ''/'')" by (cases r) auto
    then show ?case
    proof cases
      case rest
      then have n: "block_length (c # r) = Suc (block_length r)" by auto
      have keep: "unclosed (c # u)" if "unclosed u" "\<exists>v. r = u @ v" for u
        using that rest(2) by (cases u) auto
      from rest 2 consider w r' where "r = w @ ''*/'' @ r'" "block_length r = length w + 2" "unclosed (w @ ''*'')" "NUL \<notin> set w"
        | w r' where "r = w @ NUL # r'" "block_length r = length w" "unclosed w" "NUL \<notin> set w" by auto
      then show ?thesis
      proof cases
        case (1 w r')
        then show ?thesis using n keep [of "w @ ''*''"] rest(1) by (intro disjI1 exI [of _ "c # w"] exI [of _ r']) auto
      next
        case (2 w r')
        then show ?thesis using n keep [of w] rest(1) by (intro disjI2 exI [of _ "c # w"] exI [of _ r']) auto
      qed
    qed (auto intro: exI [of _ "[]"])
  qed simp
  then show thesis using closed never by blast
qed


lemma skipped_line: "newline \<notin> set w \<Longrightarrow> NUL \<notin> set w \<Longrightarrow> take 2 w = ''//'' \<Longrightarrow> skipped w"
  using skipped.line [of "drop 2 w"] by (metis append_take_drop_id in_set_dropD)

lemma skipped_prefix: "terminated r \<Longrightarrow> skipped (take (skip_length r) r)"
proof (induction r rule: skip_length.induct)
  case (1 r)
  from "1.prems" obtain c r' where r: "r = c # r'" by (cases r) auto
  let ?line = "takeWhile (\<lambda>c. c \<noteq> newline \<and> c \<noteq> NUL) r"
  let ?n = "block_length r"
  have nul: "NUL \<in> set r" by (rule terminated_NUL [OF "1.prems"])
  consider (blank) "is_insignificant_whitespace c"
    | (line) "\<not> is_insignificant_whitespace c" "c = CHR ''/'' \<and> take 1 r' = ''/''"
    | (block) "\<not> is_insignificant_whitespace c" "\<not> (c = CHR ''/'' \<and> take 1 r' = ''/'')"
        "c = CHR ''/'' \<and> take 1 r' = ''*''"
    | (none) "skip_length r = 0"
    using r skip_length.simps [of r] by (auto split: if_splits)
  then show ?case
  proof cases
    case blank
    then have "c \<noteq> NUL" by (auto simp: is_insignificant_whitespace_def)
    with "1.IH" (1) [OF r blank] "1.prems" r blank show ?thesis
      by (subst skip_length.simps) (simp add: terminated_Cons skipped.white)
  next
    case line
    have "skip_length (drop (length ?line) r) = 0"
    proof (cases "drop (length ?line) r")
      case (Cons d u)
      then have "d = newline \<or> d = NUL"
        using hd_dropWhile [of "\<lambda>c. c \<noteq> newline \<and> c \<noteq> NUL" r] by (auto simp: dropWhile_eq_drop [symmetric])
      with Cons show ?thesis by (auto simp: skip_length.simps [of "_ # _"] is_insignificant_whitespace_def)
    qed (simp add: skip_length.simps)
    with line r have n: "skip_length r = length ?line" by (subst skip_length.simps) (simp add: Let_def)
    have "take (length ?line) r = ?line" by (metis takeWhile_eq_take)
    moreover have "skipped ?line"
    proof (rule skipped_line)
      show "take 2 ?line = ''//''" using line r by (cases r') (auto simp: numeral_2_eq_2)
    qed (auto dest: set_takeWhileD)
    ultimately show ?thesis using n by simp
  next
    case block
    from nul show ?thesis
    proof (cases rule: block_length_cases)
      case (closed w r2)
      with r block obtain v where v: "w = CHR ''/'' # v" "v = [] \<or> hd v = CHR ''*''" "NUL \<notin> set v"
        by (cases w; cases "tl w") auto
      have "drop ?n r = r2" using closed(1,2) by simp
      moreover have "terminated r2"
        using terminated_drop [OF "1.prems", of ?n] closed nul by (cases r2) auto
      ultimately have "skipped (take (skip_length r2) r2)" using "1.IH" (3) [OF r block refl] by simp
      then have "skipped (CHR ''/'' # v @ ''*/'' @ take (skip_length r2) r2)"
        using closed(3) v by (intro skipped.block) auto
      moreover have "skip_length r = ?n + skip_length r2"
        using block r \<open>drop ?n r = r2\<close> by (subst skip_length.simps) (simp add: Let_def)
      ultimately show ?thesis using closed(1,2) v(1) by simp
    next
      case (never w r2)
      with r block obtain v where v: "w = CHR ''/'' # v" "v \<noteq> []" "hd v = CHR ''*''" "NUL \<notin> set v"
        by (cases w; cases "tl w") auto
      have "drop ?n r = NUL # r2" using never(1,2) by simp
      then have "skip_length r = ?n"
        using block r by (subst skip_length.simps) (simp add: Let_def skip_length.simps [of "NUL # _"] is_insignificant_whitespace_def)
      moreover have "skipped (CHR ''/'' # v)" using never(3) v by (intro skipped.open_block) auto
      ultimately show ?thesis using never(1,2) v(1) by simp
    qed
  next
    case none
    then show ?thesis by (simp add: skipped.nothing)
  qed
qed


subsection \<open>The source as gaps and words\<close>

text \<open>The characters a token stands for: its text, or the one that begins no token.\<close>

definition stands_for :: "string \<Rightarrow> Token \<Rightarrow> string \<Rightarrow> bool" where
  "stands_for s token w \<longleftrightarrow>
     (case token_start token of In_source i \<Rightarrow> w = token_text s token | Message m \<Rightarrow> length w = 1)"

lemma source_pieces:
  assumes "terminated text" and "drop position s = text" and "length s < 2 ^ 63"
    and "token_stream line position text = Some tokens"
  shows "\<exists>gaps words. text = concat (map2 (@) gaps words) @ [NUL] \<and> length gaps = length words
    \<and> list_all skipped gaps \<and> list_all2 (stands_for s) tokens words"
  using assms
proof (induction "length text" arbitrary: "text" line position tokens rule: less_induct)
  case less
  let ?gap = "take (skip_length text) text" and ?rest = "drop (skip_length text) text"
  note stream_cases = token_stream_terminated [of "text" line position]
  have gap: "skipped ?gap" by (rule skipped_prefix [OF less.prems(1)])
  have whole: "text = ?gap @ ?rest" by simp
  from less.prems(1) show ?case
  proof (cases rule: stream_cases)
    case eof
    then have "tokens = [stream_token line (position + skip_length text) (Lexeme TOKEN_EOF 0)]"
      using less.prems(4) by simp
    then have "list_all2 (stands_for s) tokens [[]]" by (simp add: stands_for_def stream_token_def token_text_def)
    with gap whole eof(1) show ?thesis by (intro exI [of _ "[?gap]"] exI [of _ "[[]]"]) simp
  next
    case runaway
    with less.prems(4) show ?thesis by simp
  next
    case (lexeme n line')
    let ?token = "stream_token line' (position + skip_length text) (lexeme_at ?rest)"
    obtain tokens' where tokens: "tokens = ?token # tokens'"
      and tail: "token_stream line' (position + skip_length text + n) (drop n ?rest) = Some tokens'"
      using less.prems(4) [unfolded lexeme(7)] by (auto simp: map_option_eq_Some)
    have rest_less: "n < length ?rest" using lexeme(5) by (cases "n < length ?rest") auto
    then have shorter: "length (drop n ?rest) < length text" using lexeme(4) by simp
    have place: "drop (position + skip_length text) s = ?rest"
      using less.prems(2) by (metis add.commute drop_drop)
    then have next_place: "drop (position + skip_length text + n) s = drop n ?rest"
      by (metis add.commute drop_drop)
    have "length ?rest \<le> length s" using place by (metis length_drop diff_le_self)
    then have small: "unat (word_of_nat n :: size_t) = n"
      using rest_less less.prems(3) by (intro unat_size_of_nat) simp
    have word: "stands_for s ?token (take n ?rest)"
      using lexeme(2,3) small place rest_less lexeme_at_message [of ?rest]
      by (cases "lexeme_at ?rest") (auto simp: stands_for_def stream_token_def token_text_def)
    obtain gaps words where IH: "drop n ?rest = concat (map2 (@) gaps words) @ [NUL]" "length gaps = length words"
      "list_all skipped gaps" "list_all2 (stands_for s) tokens' words"
      using less.hyps [OF shorter lexeme(5) next_place less.prems(3) tail] by blast
    have "text = ?gap @ take n ?rest @ drop n ?rest" by (metis append_take_drop_id)
    then have "text = concat (map2 (@) (?gap # gaps) (take n ?rest # words)) @ [NUL]"
      unfolding IH(1) by simp
    with IH(2-4) gap word tokens show ?thesis
      by (intro exI [of _ "?gap # gaps"] exI [of _ "take n ?rest # words"]) simp
  qed
qed

end
