(* ===== verification/Lexer_Properties.thy ===== *)
theory Lexer_Properties
  imports Sources Reassembly
begin

text \<open>
  The properties of the lexer: which token it makes of which text, that it stays in the source,
  ends, and orders its tokens, and the inputs it does not treat as its own tables say.
\<close>

subsection \<open>Single tokens\<close>

text \<open>A source text in a block of memory, for examples.\<close>

definition text_block :: "string \<Rightarrow> char buffer" where
  "text_block s = Block 1 (map Some s)"

lemma text_block_holds [simp]: "holds_text (text_block s) s"
  by (simp add: text_block_def holds_text_def)

lemma text_block_reads: "length s < 2 ^ 63 \<Longrightarrow> reads (lexer_init (text_block s)) s"
  by (auto simp: reads_def)

lemmas lexeme_eval =
  terminated_Cons skip_length.simps [of "_ # _"] is_insignificant_whitespace_def lexeme_of_def
  lexeme_at_def number_at_def operator_at_def operator_table_def is_alpha_def is_digit_def is_word_def
  word_type_def keyword_table_def less_eq_char_def Let_def

text \<open>C4: Scanning a token skips the white space and comments in front of it and makes the token of
  the lexeme that follows: the longest operator, the whole word or number, the end of the line or
  of the file, or an error token; lexer and token agree on line, column and length.\<close>

theorem lexer_scan_token_correct:
  assumes "reads lexer text" and "terminated text"
  shows "lexer_scan_token lexer =
    scanned (at_lexeme (drop (skip_length text) text) (after_skip text lexer))
      (lexeme_of (drop (skip_length text) text))"
  by (rule scan_token_reads [OF assms])

theorem lexer_scan_token_correct_witness:
  "lexer_scan_token (lexer_init (text_block ('' /* 1 */ ->x'' @ [NUL]))) =
    Inr (\<lparr>token_type = TOKEN_RIGHT_ARROW, token_start = In_source 9, token_length = 2,
          token_line = 1, token_column = 10\<rparr>,
      \<lparr>lexer_source = text_block ('' /* 1 */ ->x'' @ [NUL]), lexer_start = 9, lexer_current = 11,
       lexer_line = 1, lexer_column = 11\<rparr>)"
proof -
  let ?s = "'' /* 1 */ ->x'' @ [NUL]"
  have "terminated ?s" by (simp add: terminated_Cons)
  with text_block_reads [of ?s] have "reads (lexer_init (text_block ?s)) ?s" "terminated ?s" by simp_all
  from lexer_scan_token_correct [OF this] show ?thesis
    by (simp add: lexeme_eval after_skip_def at_lexeme_def token_at_def moved_def lexer_init_def)
qed

text \<open>C37: A word is a keyword exactly when it is in the table of keywords: the tests by first and
  second letter and the comparisons of the rest find every keyword and nothing else.\<close>

theorem keywords_recognised:
  assumes "took w lexer" and "w \<noteq> []"
  shows "lexer_determine_identifier_type lexer =
    Inr (case map_of keyword_table w of Some type \<Rightarrow> type | None \<Rightarrow> TOKEN_IDENTIFIER)"
  using identifier_type_took [OF assms] by (simp add: word_type_def)

text \<open>The lexer has taken \<open>struct\<close>, and \<open>structs\<close>.\<close>

theorem keywords_recognised_witness:
  "lexer_determine_identifier_type
      ((lexer_init (text_block (''structs'' @ [NUL])))\<lparr>lexer_current := 6\<rparr>) = Inr TOKEN_KEY_STRUCT
    \<and> lexer_determine_identifier_type
      ((lexer_init (text_block (''structs'' @ [NUL])))\<lparr>lexer_current := 7\<rparr>) = Inr TOKEN_IDENTIFIER"
proof -
  let ?l = "lexer_init (text_block (''structs'' @ [NUL]))"
  have r: "reads ?l (''structs'' @ [NUL])" by (rule text_block_reads) simp
  have l: "(?l\<lparr>lexer_current := n\<rparr>)\<lparr>lexer_current := lexer_start (?l\<lparr>lexer_current := n\<rparr>)\<rparr> = ?l" for n
    by (simp add: lexer_init_def)
  from r have "reads ?l (''struct'' @ ''s'' @ [NUL])" by simp
  then have "took ''struct'' (?l\<lparr>lexer_current := 6\<rparr>)" unfolding took_def l by (auto simp: lexer_init_def)
  moreover from r have "took ''structs'' (?l\<lparr>lexer_current := 7\<rparr>)"
    unfolding took_def l by (auto simp: lexer_init_def)
  ultimately show ?thesis
    using keywords_recognised [of "''struct''" "?l\<lparr>lexer_current := 6\<rparr>"]
      keywords_recognised [of "''structs''" "?l\<lparr>lexer_current := 7\<rparr>"]
    by (simp add: keyword_table_def)
qed

text \<open>C38: A string literal is two characters long whatever the second one is: the loop that should look
  for the closing quotation mark runs only at the end of the file. There it leaves the source.\<close>

theorem string_literals_have_two_characters:
  assumes "reads lexer (quote # c # r)" and "terminated (quote # c # r)"
  shows "lexer_scan_token lexer =
    (if c = NUL then Inl OutOfBounds
     else if c = newline
     then Inr (lexer_make_error_token (moved 1 lexer) ''Unterminated string literal'',
            moved 1 (lexer\<lparr>lexer_start := lexer_current lexer\<rparr>))
     else Inr (token_at lexer TOKEN_LIT_STRING 2, moved 2 (lexer\<lparr>lexer_start := lexer_current lexer\<rparr>)))"
proof -
  have skip: "skip_length (quote # c # r) = 0" by (simp add: skip_length.simps [of "_ # _"] is_insignificant_whitespace_def)
  have here: "at_lexeme (quote # c # r) (after_skip (quote # c # r) lexer) = lexer\<lparr>lexer_start := lexer_current lexer\<rparr>"
    by (simp add: at_lexeme_def after_skip_def skip)
  have lexeme: "lexeme_of (quote # c # r) =
      (if c = NUL then Runaway else if c = newline then Bad ''Unterminated string literal'' 1
       else Lexeme TOKEN_LIT_STRING 2)"
    by (simp add: lexeme_eval)
  show ?thesis
    unfolding scan_token_reads [OF assms] skip drop_0 here lexeme
    by (simp add: token_at_def lexer_make_error_token_def moved_def)
qed

text \<open>The text \<open>"ab"\<close> begins with a string literal \<open>"a\<close>.\<close>

theorem string_literals_have_two_characters_witness:
  "\<exists>token lexer. lexer_scan_token (lexer_init (text_block ([quote] @ ''ab'' @ [quote, NUL]))) = Inr (token, lexer)
    \<and> token_type token = TOKEN_LIT_STRING \<and> token_length token = 2 \<and> lexer_current lexer = 2"
proof -
  let ?s = "[quote] @ ''ab'' @ [quote, NUL]"
  have "reads (lexer_init (text_block ?s)) (quote # CHR ''a'' # CHR ''b'' # [quote, NUL])"
    using text_block_reads [of ?s] by simp
  from string_literals_have_two_characters [OF this] show ?thesis
    by (simp add: terminated_Cons token_at_def)
qed

text \<open>C39: The lexer never makes a \<open>TOKEN_MINUS_ASSIGN\<close>, the type the parser has a rule for: the characters
  \<open>-=\<close> become a \<open>TOKEN_STAR_ASSIGN\<close>.\<close>

theorem minus_assign_is_star_assign:
  assumes "reads lexer text" and "terminated text" and "lexer_scan_token lexer = Inr (token, lexer')"
  shows "token_type token \<noteq> TOKEN_MINUS_ASSIGN
    \<and> (take 2 (drop (skip_length text) text) = ''-='' \<longrightarrow> token_type token = TOKEN_STAR_ASSIGN)"
proof -
  let ?rest = "drop (skip_length text) text"
  have scan: "Inr (token, lexer') = scanned (at_lexeme ?rest (after_skip text lexer)) (lexeme_of ?rest)"
    using scan_token_reads [OF assms(1,2)] assms(3) by simp
  then have "token_type token \<noteq> TOKEN_MINUS_ASSIGN"
    using lexeme_at_types [of ?rest]
    by (cases "lexeme_of ?rest") (auto simp: token_at_def lexeme_of_def lexer_make_error_token_def split: if_splits)
  moreover have "token_type token = TOKEN_STAR_ASSIGN" if assign: "take 2 ?rest = ''-=''"
  proof -
    from assign obtain r where "?rest = CHR ''-'' # CHR ''='' # r"
      by (cases ?rest; cases "tl ?rest") auto
    then have "lexeme_of ?rest = Lexeme TOKEN_STAR_ASSIGN 2"
      by (simp add: lexeme_eval)
    with scan show ?thesis by (simp add: token_at_def)
  qed
  ultimately show ?thesis by blast
qed

theorem minus_assign_is_star_assign_witness:
  "\<exists>token lexer. lexer_scan_token (lexer_init (text_block (''-=1'' @ [NUL]))) = Inr (token, lexer)
    \<and> token_type token = TOKEN_STAR_ASSIGN"
proof -
  let ?s = "''-=1'' @ [NUL]" and ?l = "lexer_init (text_block (''-=1'' @ [NUL]))"
  have r: "reads ?l ?s" by (rule text_block_reads) simp
  have t: "terminated ?s" by (simp add: terminated_Cons)
  have "lexer_scan_token ?l = scanned (at_lexeme ?s (after_skip ?s ?l)) (lexeme_of ?s)"
    using scan_token_reads [OF r t] by (simp add: lexeme_eval)
  then obtain token lexer where scan: "lexer_scan_token ?l = Inr (token, lexer)"
    by (simp add: lexeme_eval)
  with minus_assign_is_star_assign [OF r t scan] show ?thesis by (simp add: lexeme_eval)
qed

lemma block_length_open:
  "NUL \<notin> set u \<Longrightarrow> \<forall>i. take 2 (drop i u) \<noteq> ''*/'' \<Longrightarrow> block_length (u @ [NUL]) = length u"
proof (induction u)
  case (Cons c u)
  from Cons.prems(2) have "take 2 (drop 0 (c # u)) \<noteq> ''*/''" and rest: "\<forall>i. take 2 (drop i u) \<noteq> ''*/''"
    by (blast, metis drop_Suc_Cons)
  with Cons show ?case by (cases u) auto
qed simp

text \<open>C40: A block comment may be closed by the star that opens it: after \<open>/*/\<close> scanning goes on as if it began
  there. A comment that is never closed is no error: the lexer takes all the rest of the source, and makes the
  token of the end of the file, still in the line of the comment whatever newlines were in it.\<close>

theorem block_comments:
  assumes "reads lexer (''/*'' @ u @ [NUL])" and "NUL \<notin> set u"
  shows "(take 1 u = ''/'' \<longrightarrow> lexer_scan_token lexer = lexer_scan_token (moved 3 lexer))
    \<and> ((\<forall>i. take 2 (drop i (CHR ''*'' # u)) \<noteq> ''*/'') \<longrightarrow>
        (\<exists>token lexer'. lexer_scan_token lexer = Inr (token, lexer') \<and> token_type token = TOKEN_EOF
          \<and> token_line token = lexer_line lexer \<and> lexer_current lexer' = lexer_current lexer + 2 + length u))"
proof (intro conjI impI)
  let ?t = "''/*'' @ u @ [NUL]"
  have t: "terminated ?t" using assms(2) by (auto simp: terminated_def intro!: exI [of _ "''/*'' @ u"])
  have skip: "skip_length ?t = block_length ?t + skip_length (drop (block_length ?t) ?t)"
    by (subst skip_length.simps) (simp add: is_insignificant_whitespace_def Let_def)
  show "lexer_scan_token lexer = lexer_scan_token (moved 3 lexer)" if slash: "take 1 u = ''/''"
  proof -
    obtain r where u: "u = CHR ''/'' # r" using slash by (cases u) auto
    have "block_length ?t = 3" by (simp add: u)
    with skip have three: "skip_length ?t = 3 + skip_length (r @ [NUL])" by (simp add: u numeral_3_eq_3)
    have "reads (moved 3 lexer) (r @ [NUL])"
      using reads_moved [OF assms(1), of 3] by (simp add: u numeral_3_eq_3)
    moreover have "lexer_skip_insignificant lexer = Inr (moved (3 + skip_length (r @ [NUL])) lexer)"
      using skip_insignificant_reads [OF assms(1)] three by simp
    ultimately have "lexer_skip_insignificant lexer = lexer_skip_insignificant (moved 3 lexer)"
      using skip_insignificant_reads [of "moved 3 lexer" "r @ [NUL]"] by (simp add: moved_def add_ac)
    then show ?thesis by (simp add: lexer_scan_token_def)
  qed
  show "\<exists>token lexer'. lexer_scan_token lexer = Inr (token, lexer') \<and> token_type token = TOKEN_EOF
      \<and> token_line token = lexer_line lexer \<and> lexer_current lexer' = lexer_current lexer + 2 + length u"
    if unclosed: "\<forall>i. take 2 (drop i (CHR ''*'' # u)) \<noteq> ''*/''"
  proof -
    have "block_length ((CHR ''*'' # u) @ [NUL]) = length (CHR ''*'' # u)"
      by (rule block_length_open) (use assms(2) unclosed in auto)
    then have "block_length ?t = 2 + length u" by simp
    with skip have "skip_length ?t = 2 + length u"
      by (simp add: skip_length.simps [of "[NUL]"] is_insignificant_whitespace_def)
    with scan_token_reads [OF assms(1) t] show ?thesis
      by (simp add: lexeme_of_def token_at_def at_lexeme_def after_skip_def moved_def)
  qed
qed

text \<open>The sources \<open>/*/\<close> and \<open>/*\<close> with a newline behind.\<close>

theorem block_comments_witness:
  "lexer_scan_token (lexer_init (text_block (''/*/'' @ [NUL]))) =
      lexer_scan_token (moved 3 (lexer_init (text_block (''/*/'' @ [NUL]))))
    \<and> (\<exists>token lexer. lexer_scan_token (lexer_init (text_block (''/*'' @ [newline, NUL]))) = Inr (token, lexer)
        \<and> token_type token = TOKEN_EOF \<and> token_line token = 1)"
proof -
  have unclosed: "take 2 (drop i (CHR ''*'' # [newline])) \<noteq> ''*/''" for i
    by (auto simp: drop_Cons' split: if_splits)
  have "reads (lexer_init (text_block (''/*/'' @ [NUL]))) (''/*'' @ ''/'' @ [NUL])"
    using text_block_reads [of "''/*/'' @ [NUL]"] by simp
  from block_comments [OF this] have "lexer_scan_token (lexer_init (text_block (''/*/'' @ [NUL]))) =
      lexer_scan_token (moved 3 (lexer_init (text_block (''/*/'' @ [NUL]))))" by simp
  moreover have "reads (lexer_init (text_block (''/*'' @ [newline, NUL]))) (''/*'' @ [newline] @ [NUL])"
    using text_block_reads [of "''/*'' @ [newline, NUL]"] by simp
  from block_comments [OF this] have "\<exists>token lexer. lexer_scan_token (lexer_init (text_block (''/*'' @ [newline, NUL]))) = Inr (token, lexer)
        \<and> token_type token = TOKEN_EOF \<and> token_line token = 1"
    using unclosed by auto
  ultimately show ?thesis ..
qed

subsection \<open>Whole sources\<close>

text \<open>C27: On every source in memory whose only terminator is its last character the lexer ends after at
  most as many tokens as the source has characters, the last of them the only \<open>TOKEN_EOF\<close>, without
  leaving the source; only a source that ends in a quotation mark can make it leave.\<close>

theorem lexer_total:
  assumes "source_ok p s"
  shows "(\<exists>tokens final. delivers (lexer_init p) tokens final \<and> length tokens \<le> length s
      \<and> token_type (last tokens) = TOKEN_EOF
      \<and> (\<forall>token \<in> set (butlast tokens). token_type token \<noteq> TOKEN_EOF))
    \<or> lexer_print (lexer_init p) = Inl OutOfBounds \<and> ends_in_quote s"
proof (cases "token_stream 1 0 s")
  case None
  with source_print [OF assms] token_stream_None [OF _ None] assms show ?thesis
    by (simp add: source_ok_def)
next
  case (Some tokens)
  from source_delivers [OF assms Some] obtain final where d: "delivers (lexer_init p) tokens final" by blast
  have "terminated s" "0 + length s < 2 ^ 63" using assms by (simp_all add: source_ok_def)
  moreover have "room (lexer_init p) = length s"
    using assms by (simp add: room_def source_ok_def holds_text_def)
  ultimately show ?thesis
    using token_stream_in_order [OF _ _ Some] d delivers_room [OF d] by auto
qed

text \<open>A source with an error token, two lines and a comment.\<close>

theorem lexer_total_witness:
  "\<exists>tokens final. delivers (lexer_init (text_block (''a # 1'' @ [newline] @ ''// b'' @ [NUL]))) tokens final
    \<and> length tokens \<le> 11"
proof -
  let ?s = "''a # 1'' @ [newline] @ ''// b'' @ [NUL]"
  have "source_ok (text_block ?s) ?s" by (simp add: source_ok_def terminated_Cons)
  from lexer_total [OF this] show ?thesis by (auto simp: ends_in_quote_def)
qed

text \<open>C8: Printing the tokens of a source shows one row for each token of its stream, with its line, its
  column, the name of its type and the text it stands for, and afterwards \<open>lexer_reset\<close> makes the
  lexer as good as new; without a stream it leaves the source.\<close>

theorem lexer_print_correct:
  assumes "source_ok p s"
  shows "case token_stream 1 0 s of
      None \<Rightarrow> lexer_print (lexer_init p) = Inl OutOfBounds
    | Some tokens \<Rightarrow> \<exists>final. lexer_print (lexer_init p) = Inr (concat (map (token_row s) tokens), final)
        \<and> lexer_reset final = lexer_init p"
  by (rule source_print [OF assms])

theorem lexer_print_correct_witness:
  "\<exists>final. lexer_print (lexer_init (text_block (''x+='' @ [NUL]))) = Inr
     (''000001 | 0001 | TOKEN_IDENTIFIER         | x'' @ [newline] @
      ''000001 | 0002 | TOKEN_PLUS_ASSIGN        | +='' @ [newline] @
      ''000001 | 0005 | TOKEN_EOF                | '' @ [CHR 0x5C, CHR ''0'', newline], final)"
proof -
  let ?s = "''x+='' @ [NUL]"
  have ok: "source_ok (text_block ?s) ?s" by (simp add: source_ok_def terminated_Cons)
  have "token_stream 1 0 ?s = Some
      [\<lparr>token_type = TOKEN_IDENTIFIER, token_start = In_source 0, token_length = 1, token_line = 1, token_column = 1\<rparr>,
       \<lparr>token_type = TOKEN_PLUS_ASSIGN, token_start = In_source 1, token_length = 2, token_line = 1, token_column = 2\<rparr>,
       \<lparr>token_type = TOKEN_EOF, token_start = In_source 3, token_length = 0, token_line = 1, token_column = 5\<rparr>]"
    by (simp add: token_stream.simps [of _ _ "_ # _"] lexeme_eval stream_token_def)
  with lexer_print_correct [OF ok] show ?thesis
    by (auto simp: token_row_def token_text_def translate_token_type_def eval)
qed

text \<open>The tokens of a source that are not errors lie in it one behind the other without overlapping,
  all in front of its last character, and each has the column after its position, counted from the
  beginning of the source (the last one two after it).\<close>

theorem tokens_in_order:
  assumes "source_ok p s" and "token_stream 1 0 s = Some tokens"
  shows "\<exists>final. delivers (lexer_init p) tokens final \<and> in_order 0 (length s) tokens"
  using source_delivers [OF assms] token_stream_in_order [of s 0 1 tokens] assms
  by (auto simp: source_ok_def)

theorem tokens_in_order_witness:
  "\<exists>tokens final. delivers (lexer_init (text_block (''x+='' @ [NUL]))) tokens final
    \<and> in_order 0 4 tokens \<and> length tokens = 3"
proof -
  let ?s = "''x+='' @ [NUL]"
  have ok: "source_ok (text_block ?s) ?s" by (simp add: source_ok_def terminated_Cons)
  have "\<exists>tokens. token_stream 1 0 ?s = Some tokens \<and> length tokens = 3"
    by (simp add: token_stream.simps [of _ _ "_ # _"] lexeme_eval stream_token_def)
  then obtain tokens where tokens: "token_stream 1 0 ?s = Some tokens" "length tokens = 3" by blast
  have "length ?s = 4" by simp
  with tokens_in_order [OF ok tokens(1)] tokens(2) show ?thesis by metis
qed

text \<open>C13: The lexer loses nothing of a source: it is the texts of its tokens, one character for each that begins no
  token, with white space and comments in front of each of them, up to the terminator. Each token that is no error has the
  column after its position, counted from the beginning of the source (the last one two after it).\<close>

theorem source_reassembled:
  assumes "source_ok p s" and "token_stream 1 0 s = Some tokens"
  shows "\<exists>final gaps words. delivers (lexer_init p) tokens final
    \<and> s = concat (map2 (@) gaps words) @ [NUL] \<and> length gaps = length words
    \<and> list_all skipped gaps \<and> list_all2 (stands_for s) tokens words \<and> in_order 0 (length s) tokens"
proof -
  have s: "terminated s" "drop 0 s = s" "length s < 2 ^ 63" using assms(1) by (simp_all add: source_ok_def)
  moreover have "in_order 0 (length s) tokens" using token_stream_in_order [OF s(1) _ assms(2)] s(3) by simp
  ultimately show ?thesis using source_pieces [OF s assms(2)] source_delivers [OF assms] by blast
qed

theorem source_reassembled_witness:
  "\<exists>tokens gaps words. map token_type tokens = [TOKEN_LIT_INT, TOKEN_ERROR, TOKEN_EOF]
    \<and> ''1 /* 2 */ #// 3'' = concat (map2 (@) gaps words)
    \<and> list_all skipped gaps \<and> list_all2 (stands_for (''1 /* 2 */ #// 3'' @ [NUL])) tokens words"
proof -
  let ?s = "''1 /* 2 */ #// 3'' @ [NUL]"
  have ok: "source_ok (text_block ?s) ?s" by (simp add: source_ok_def terminated_Cons)
  have "map_option (map token_type) (token_stream 1 0 ?s) = Some [TOKEN_LIT_INT, TOKEN_ERROR, TOKEN_EOF]"
    by code_simp
  then have "\<exists>tokens. token_stream 1 0 ?s = Some tokens
      \<and> map token_type tokens = [TOKEN_LIT_INT, TOKEN_ERROR, TOKEN_EOF]"
    by (rule map_option_eq_Some [THEN iffD1])
  then obtain tokens where stream: "token_stream 1 0 ?s = Some tokens"
    and types: "map token_type tokens = [TOKEN_LIT_INT, TOKEN_ERROR, TOKEN_EOF]"
    by (elim exE conjE) (rule that)
  from source_reassembled [OF ok stream] obtain gaps words where
    s: "?s = concat (map2 (@) gaps words) @ [NUL]" and rest: "list_all skipped gaps" "list_all2 (stands_for ?s) tokens words"
    by (elim exE conjE) (rule that)
  from s have "''1 /* 2 */ #// 3'' = concat (map2 (@) gaps words)" by (simp only: append_same_eq)
  with types rest show ?thesis by (intro exI conjI)
qed

text \<open>C15: Words that spell operators, keywords, identifiers or numbers, written with blanks between them,
  are read back: the lexer delivers exactly one token for each, of the type it spells and with the
  word as its text, and then \<open>TOKEN_EOF\<close>.\<close>

theorem spelled_words_read_back:
  assumes "list_all2 spells ws types" and "source_ok p (spaced ws)"
  shows "\<exists>tokens eof final. delivers (lexer_init p) (tokens @ [eof]) final
    \<and> map token_type tokens = types \<and> map (token_text (spaced ws)) tokens = ws
    \<and> token_type eof = TOKEN_EOF"
proof -
  have len: "length ws = length types" using assms(1) by (rule list_all2_lengthD)
  obtain tokens eof where stream: "token_stream 1 0 (spaced ws) = Some (tokens @ [eof])"
    and placed: "list_all2 (placed (spaced ws)) tokens (zip ws types)" and "token_type eof = TOKEN_EOF"
    using token_stream_spaced [OF assms(1), of 0 "spaced ws" 1] by auto
  moreover obtain final where "delivers (lexer_init p) (tokens @ [eof]) final"
    using source_delivers [OF assms(2) stream] by blast
  moreover have "map token_type tokens = types \<and> map (token_text (spaced ws)) tokens = ws"
    using placed_texts [OF placed] assms(2) len by (simp add: source_ok_def)
  ultimately show ?thesis by blast
qed

theorem spelled_words_read_back_witness:
  "\<exists>tokens eof final. delivers (lexer_init (text_block (spaced [''dump'', ''12'', ''->'', ''x1'', ''0.5'']))) (tokens @ [eof]) final
    \<and> map token_type tokens = [TOKEN_KEY_DUMP, TOKEN_LIT_INT, TOKEN_RIGHT_ARROW, TOKEN_IDENTIFIER, TOKEN_LIT_REAL]"
proof -
  let ?ws = "[''dump'', ''12'', ''->'', ''x1'', ''0.5'']"
  have "spells ''0.5'' TOKEN_LIT_REAL"
    unfolding spells_def
    by (intro disjI2 exI [of _ "''0''"] exI [of _ "''5''"]) (simp add: is_digit_def less_eq_char_def)
  then have spell: "list_all2 spells ?ws [TOKEN_KEY_DUMP, TOKEN_LIT_INT, TOKEN_RIGHT_ARROW, TOKEN_IDENTIFIER, TOKEN_LIT_REAL]"
    by (simp add: spells_def lexeme_eval)
  then have "source_ok (text_block (spaced ?ws)) (spaced ?ws)"
    using spaced_terminated [OF spell] by (simp add: source_ok_def)
  from spelled_words_read_back [OF spell this] show ?thesis by (elim exE conjE) (intro exI conjI)
qed

end
