(* ===== verification/Ast.thy ===== *)
theory Ast
  imports Values
begin

text \<open>
  The syntax trees of \<^verbatim>\<open>skard-lib/src/compiler.h\<close> and lines 9 to 188 and 247 to 298 of
  \<^verbatim>\<open>compiler.c\<close>: operators, nodes, their allocation, release and printing.
\<close>

subsection \<open>Operators\<close>

datatype ASTOperator = OTOR_PLUS | OTOR_MINUS | OTOR_STAR | OTOR_SLASH | OTOR_DIV | COUNT_OTORS

definition ast_operator_translate :: "ASTOperator \<Rightarrow> string option" where
  "ast_operator_translate operator =
     (case operator of
        OTOR_PLUS \<Rightarrow> Some ''+''
      | OTOR_MINUS \<Rightarrow> Some ''-''
      | OTOR_STAR \<Rightarrow> Some ''*''
      | OTOR_SLASH \<Rightarrow> Some ''/''
      | OTOR_DIV \<Rightarrow> Some ''|''
      | COUNT_OTORS \<Rightarrow> None)"

subsection \<open>Nodes\<close>

text \<open>
  A pointer to a node is null or the address of a block with the node in it. Every node is
  owned by one pointer, so the trees hold the nodes themselves; the type every kind of
  expression has comes first.
\<close>

datatype ASTNode =
    NULL_NODE
  | AST_NODE_EXPRESSION (node_addr: nat) (node_expression: ASTNodeExpression)
      (node_line: size_t) (node_column: size_t)
and ASTNodeExpression =
    AST_EXPR_VALUE SkardType Value
  | AST_EXPR_UNARY SkardType ASTNode ASTOperator
  | AST_EXPR_BINARY SkardType ASTNode ASTNode ASTOperator
  | AST_EXPR_GROUPING SkardType ASTNode

fun expression_type :: "ASTNodeExpression \<Rightarrow> SkardType" where
  "expression_type (AST_EXPR_VALUE type v) = type"
| "expression_type (AST_EXPR_UNARY type child operator) = type"
| "expression_type (AST_EXPR_BINARY type first second operator) = type"
| "expression_type (AST_EXPR_GROUPING type child) = type"

fun set_expression_type :: "SkardType \<Rightarrow> ASTNodeExpression \<Rightarrow> ASTNodeExpression" where
  "set_expression_type t (AST_EXPR_VALUE type v) = AST_EXPR_VALUE t v"
| "set_expression_type t (AST_EXPR_UNARY type child operator) = AST_EXPR_UNARY t child operator"
| "set_expression_type t (AST_EXPR_BINARY type first second operator) =
     AST_EXPR_BINARY t first second operator"
| "set_expression_type t (AST_EXPR_GROUPING type child) = AST_EXPR_GROUPING t child"

subsection \<open>Release\<close>

fun ast_node_free :: "ASTNode \<Rightarrow> heap \<Rightarrow> heap result"
  and ast_node_expression_free :: "ASTNodeExpression \<Rightarrow> heap \<Rightarrow> heap result" where
  "ast_node_free NULL_NODE h = Inl NullDeref"
| "ast_node_free (AST_NODE_EXPRESSION a expression line column) h =
     res_bind (ast_node_expression_free expression h) (c_free a)"
| "ast_node_expression_free (AST_EXPR_VALUE type v) h = Inr h"
| "ast_node_expression_free (AST_EXPR_UNARY type child operator) h = ast_node_free child h"
| "ast_node_expression_free (AST_EXPR_BINARY type first second operator) h =
     res_bind (ast_node_free first h) (ast_node_free second)"
| "ast_node_expression_free (AST_EXPR_GROUPING type child) h = ast_node_free child h"

subsection \<open>Printing\<close>

definition ast_print_invalid :: string where
  "ast_print_invalid = ''INVALID''"

text \<open>The \<open>switch\<close> statements that print the operator.\<close>

definition ast_unary_operator_print :: "ASTOperator \<Rightarrow> string" where
  "ast_unary_operator_print operator =
     (case operator of
        OTOR_MINUS \<Rightarrow> ''-''
      | OTOR_PLUS \<Rightarrow> ''+''
      | _ \<Rightarrow> ast_print_invalid)"

definition ast_binary_operator_print :: "ASTOperator \<Rightarrow> string" where
  "ast_binary_operator_print operator =
     (case operator of
        OTOR_PLUS \<Rightarrow> ''+''
      | OTOR_MINUS \<Rightarrow> ''-''
      | OTOR_STAR \<Rightarrow> ''*''
      | OTOR_SLASH \<Rightarrow> ''/''
      | OTOR_DIV \<Rightarrow> ''|''
      | _ \<Rightarrow> ast_print_invalid)"

fun ast_node_print :: "ASTNode \<Rightarrow> bool \<Rightarrow> string result"
  and ast_node_expression_print :: "ASTNodeExpression \<Rightarrow> string result" where
  "ast_node_print NULL_NODE end_line = Inl NullDeref"
| "ast_node_print (AST_NODE_EXPRESSION a expression line column) end_line =
     res_bind (ast_node_expression_print expression) (\<lambda>s.
       Inr (''('' @ s @ '')'' @ (if end_line then [newline] else [])))"
| "ast_node_expression_print (AST_EXPR_VALUE type v) =
     res_bind (skard_type_print type) (\<lambda>t. Inr (t @ '' '' @ print_value v))"
| "ast_node_expression_print (AST_EXPR_UNARY type child operator) =
     res_bind (skard_type_print type) (\<lambda>t.
     res_bind (ast_node_print child False) (\<lambda>s.
       Inr (t @ '' '' @ ast_unary_operator_print operator @ '' '' @ s)))"
| "ast_node_expression_print (AST_EXPR_BINARY type first second operator) =
     res_bind (skard_type_print type) (\<lambda>t.
     res_bind (ast_node_print first False) (\<lambda>s1.
     res_bind (ast_node_print second False) (\<lambda>s2.
       Inr (t @ '' '' @ ast_binary_operator_print operator @ '' '' @ s1 @ s2))))"
| "ast_node_expression_print (AST_EXPR_GROUPING type child) =
     res_bind (skard_type_print type) (\<lambda>t.
     res_bind (ast_node_print child False) (\<lambda>s.
       Inr (t @ '' '' @ ''(_) '' @ s)))"

subsection \<open>Allocation\<close>

definition sizeof_ASTNode :: size_t where
  "sizeof_ASTNode = 56"

definition make_ast_node_expression ::
    "ASTNodeExpression \<Rightarrow> heap \<Rightarrow> (ASTNode \<times> heap) result" where
  "make_ast_node_expression expression h =
     res_bind (allocate sizeof_ASTNode h) (\<lambda>(a, h).
       Inr (AST_NODE_EXPRESSION a expression 0 0, h))"

definition make_ast_node_value :: "Value \<Rightarrow> SkardType \<Rightarrow> heap \<Rightarrow> (ASTNode \<times> heap) result" where
  "make_ast_node_value v type h = make_ast_node_expression (AST_EXPR_VALUE type v) h"

definition make_ast_node_unary ::
    "ASTNode \<Rightarrow> ASTOperator \<Rightarrow> heap \<Rightarrow> (ASTNode \<times> heap) result" where
  "make_ast_node_unary child operator h =
     make_ast_node_expression (AST_EXPR_UNARY make_skard_type_unknown child operator) h"

definition make_ast_node_binary ::
    "ASTNode \<Rightarrow> ASTNode \<Rightarrow> ASTOperator \<Rightarrow> heap \<Rightarrow> (ASTNode \<times> heap) result" where
  "make_ast_node_binary first second operator h =
     make_ast_node_expression (AST_EXPR_BINARY make_skard_type_unknown first second operator) h"

definition make_ast_node_grouping :: "ASTNode \<Rightarrow> heap \<Rightarrow> (ASTNode \<times> heap) result" where
  "make_ast_node_grouping child h =
     make_ast_node_expression (AST_EXPR_GROUPING make_skard_type_unknown child) h"

subsection \<open>The blocks of a tree\<close>

fun node_blocks :: "ASTNode \<Rightarrow> nat multiset"
  and expression_blocks :: "ASTNodeExpression \<Rightarrow> nat multiset" where
  "node_blocks NULL_NODE = {#}"
| "node_blocks (AST_NODE_EXPRESSION a expression line column) = add_mset a (expression_blocks expression)"
| "expression_blocks (AST_EXPR_VALUE type v) = {#}"
| "expression_blocks (AST_EXPR_UNARY type child operator) = node_blocks child"
| "expression_blocks (AST_EXPR_BINARY type first second operator) = node_blocks first + node_blocks second"
| "expression_blocks (AST_EXPR_GROUPING type child) = node_blocks child"

text \<open>No pointer of the tree is null.\<close>

fun node_complete :: "ASTNode \<Rightarrow> bool"
  and expression_complete :: "ASTNodeExpression \<Rightarrow> bool" where
  "node_complete NULL_NODE \<longleftrightarrow> False"
| "node_complete (AST_NODE_EXPRESSION a expression line column) \<longleftrightarrow> expression_complete expression"
| "expression_complete (AST_EXPR_VALUE type v) \<longleftrightarrow> True"
| "expression_complete (AST_EXPR_UNARY type child operator) \<longleftrightarrow> node_complete child"
| "expression_complete (AST_EXPR_BINARY type first second operator) \<longleftrightarrow>
     node_complete first \<and> node_complete second"
| "expression_complete (AST_EXPR_GROUPING type child) \<longleftrightarrow> node_complete child"

lemma c_free_live:
  "mset (live h) = add_mset a F \<Longrightarrow> \<exists>h'. c_free a h = Inr h' \<and> mset (live h') = F
    \<and> host_grants h' = host_grants h"
  by (auto simp: c_free_def dest: mset_add_mem)

lemma tree_free:
  "node_complete node \<Longrightarrow> mset (live h) = node_blocks node + F \<Longrightarrow>
    \<exists>h'. ast_node_free node h = Inr h' \<and> mset (live h') = F \<and> host_grants h' = host_grants h"
  "expression_complete e \<Longrightarrow> mset (live h) = expression_blocks e + F \<Longrightarrow>
    \<exists>h'. ast_node_expression_free e h = Inr h' \<and> mset (live h') = F \<and> host_grants h' = host_grants h"
proof (induction node and e arbitrary: h F and h F)
  case (AST_NODE_EXPRESSION a e line column)
  then have complete: "expression_complete e"
    and live: "mset (live h) = expression_blocks e + add_mset a F" by simp_all
  from AST_NODE_EXPRESSION.IH [OF this] obtain h' where "ast_node_expression_free e h = Inr h'"
    "mset (live h') = add_mset a F" "host_grants h' = host_grants h" by blast
  with c_free_live [of h' a F] show ?case by auto
next
  case (AST_EXPR_BINARY type n1 n2 operator)
  then have complete: "node_complete n1" "node_complete n2"
    and live: "mset (live h) = node_blocks n1 + (node_blocks n2 + F)" by (simp_all add: ac_simps)
  from AST_EXPR_BINARY.IH(1) [OF complete(1) live] obtain h1 where
    "ast_node_free n1 h = Inr h1" "mset (live h1) = node_blocks n2 + F" "host_grants h1 = host_grants h"
    by blast
  with AST_EXPR_BINARY.IH(2) [OF complete(2), of h1 F] show ?case by simp
qed auto

text \<open>Printing reaches a null pointer exactly when there is one.\<close>

lemma skard_type_print_returns: "\<exists>s. skard_type_print t = Inr s"
  by (cases "kind t") (simp_all add: skard_type_print_def)

lemma tree_print:
  "(\<exists>s. ast_node_print node end_line = Inr s) \<longleftrightarrow> node_complete node"
  "(\<exists>s. ast_node_expression_print e = Inr s) \<longleftrightarrow> expression_complete e"
proof (induction node and e arbitrary: end_line and)
  case (AST_EXPR_VALUE type v)
  then show ?case using skard_type_print_returns [of type] by auto
next
  case (AST_EXPR_UNARY type child operator)
  then show ?case
    using skard_type_print_returns [of type] by (auto simp: res_bind_eq_Inr)
next
  case (AST_EXPR_BINARY type first second operator)
  obtain t where "skard_type_print type = Inr t" using skard_type_print_returns by blast
  with AST_EXPR_BINARY [of False] show ?case
    by (cases "ast_node_print first False"; cases "ast_node_print second False") auto
next
  case (AST_EXPR_GROUPING type child)
  then show ?case
    using skard_type_print_returns [of type] by (auto simp: res_bind_eq_Inr)
qed (auto simp: res_bind_eq_Inr)

lemma tree_print_fault:
  "ast_node_print node end_line = Inl e \<Longrightarrow> e = NullDeref"
  "ast_node_expression_print x = Inl e \<Longrightarrow> e = NullDeref"
proof (induction node and x arbitrary: end_line and)
  case (AST_EXPR_VALUE type v)
  then show ?case using skard_type_print_returns [of type] by auto
next
  case (AST_EXPR_UNARY type child operator)
  then show ?case using skard_type_print_returns [of type] by (auto simp: res_bind_eq_Inl)
next
  case (AST_EXPR_BINARY type first second operator)
  then show ?case using skard_type_print_returns [of type] by (auto simp: res_bind_eq_Inl)
next
  case (AST_EXPR_GROUPING type child)
  then show ?case using skard_type_print_returns [of type] by (auto simp: res_bind_eq_Inl)
qed (auto simp: res_bind_eq_Inl)

end
