(* ===== verification/Parser.thy ===== *)
theory Parser
  imports Lexer Ast
begin

text \<open>
  The parser: lines 191 to 196 and 224 to 519 of \<^verbatim>\<open>skard-lib/src/compiler.c\<close>. A function takes
  the compiler and the process (heap and standard error stream) and returns them changed.
\<close>

subsection \<open>State\<close>

text \<open>\<open>compiler_lexer\<close> is the lexer the compiler points to; \<open>None\<close> is the null pointer.\<close>

record Compiler =
  compiler_lexer :: "Lexer option"
  current :: Token
  previous :: Token
  is_error :: bool
  is_panic :: bool

record process =
  memory :: heap
  errors :: string

text \<open>The tokens are not initialised: they stay what the memory holds.\<close>

definition compiler_init :: "Compiler \<Rightarrow> Compiler" where
  "compiler_init compiler = compiler\<lparr>compiler_lexer := None, is_error := False, is_panic := False\<rparr>"

subsection \<open>Errors\<close>

definition compiler_source :: "Compiler \<Rightarrow> char buffer" where
  "compiler_source compiler = (case compiler_lexer compiler of None \<Rightarrow> Null | Some lexer \<Rightarrow> lexer_source lexer)"

text \<open>The text a token's \<open>start\<close> points to, read as a C string.\<close>

definition token_c_string :: "Compiler \<Rightarrow> Token \<Rightarrow> string result" where
  "token_c_string compiler token =
     (case token_start token of
        In_source i \<Rightarrow> read_c_string (compiler_source compiler) i
      | Message s \<Rightarrow> Inr s)"

text \<open>The two parts of a report that come before its message.\<close>

definition error_place :: "Token \<Rightarrow> string" where
  "error_place token =
     ''[line '' @ print_zu 0 (token_line token) @ ''][column ''
       @ print_zu 0 (token_column token) @ ''] Error ''"

definition error_at :: "Compiler \<Rightarrow> Token \<Rightarrow> string result" where
  "error_at compiler token =
     (if token_type token = TOKEN_EOF then Inr ''at end of file''
      else if token_type token = TOKEN_EOL then Inr ''at end of line''
      else if token_type token \<noteq> TOKEN_ERROR
      then res_bind (print_token_text (compiler_source compiler) token) (\<lambda>s.
        Inr (''at '' @ [CHR 0x27] @ s @ [CHR 0x27]))
      else Inr [])"

definition compiler_parse_error ::
    "Compiler \<Rightarrow> Token \<Rightarrow> string \<Rightarrow> process \<Rightarrow> (Compiler \<times> process) result" where
  "compiler_parse_error compiler token message w =
     (if is_panic compiler then Inr (compiler, w)
      else
        let compiler = compiler\<lparr>is_panic := True\<rparr>;
            w = w\<lparr>errors := errors w @ error_place token\<rparr>
        in res_bind (error_at compiler token) (\<lambda>at.
             let w = w\<lparr>errors := errors w @ at @ '': '' @ message @ [newline]\<rparr>
             in Inr (compiler\<lparr>is_error := True\<rparr>, w)))"

definition compiler_parse_error_at_current ::
    "Compiler \<Rightarrow> string \<Rightarrow> process \<Rightarrow> (Compiler \<times> process) result" where
  "compiler_parse_error_at_current compiler message w =
     compiler_parse_error compiler (current compiler) message w"

definition compiler_parse_error_at_previous ::
    "Compiler \<Rightarrow> string \<Rightarrow> process \<Rightarrow> (Compiler \<times> process) result" where
  "compiler_parse_error_at_previous compiler message w =
     compiler_parse_error compiler (previous compiler) message w"

lemma compiler_parse_error_keeps:
  assumes "compiler_parse_error compiler token message w = Inr (compiler', w')"
  shows "compiler_lexer compiler' = compiler_lexer compiler \<and> current compiler' = current compiler
    \<and> previous compiler' = previous compiler \<and> memory w' = memory w \<and> is_panic compiler'"
  using assms by (auto simp: compiler_parse_error_def Let_def elim!: res_bindE split: if_splits)

subsection \<open>Tokens\<close>

definition compiler_room :: "Compiler \<Rightarrow> nat" where
  "compiler_room compiler = (case compiler_lexer compiler of None \<Rightarrow> 0 | Some lexer \<Rightarrow> room lexer)"

function compiler_advance_loop :: "Compiler \<Rightarrow> process \<Rightarrow> (Compiler \<times> process) result" where
  "compiler_advance_loop compiler w =
     (case compiler_lexer compiler of
        None \<Rightarrow> Inl NullDeref
      | Some lexer \<Rightarrow>
          res_bind (lexer_scan_token lexer) (\<lambda>(token, lexer).
          let compiler = compiler\<lparr>compiler_lexer := Some lexer, current := token\<rparr> in
            if token_type (current compiler) \<noteq> TOKEN_ERROR then Inr (compiler, w)
            else res_bind (token_c_string compiler (current compiler)) (\<lambda>message.
                 res_bind (compiler_parse_error_at_current compiler message w) (\<lambda>(compiler, w).
                   compiler_advance_loop compiler w))))"
  by pat_completeness auto
termination
  by (relation "measure (compiler_room \<circ> fst)")
    (auto simp: compiler_parse_error_at_current_def compiler_room_def
      dest!: compiler_parse_error_keeps lexer_scan_token_room)

declare compiler_advance_loop.simps [simp del]

definition compiler_advance :: "Compiler \<Rightarrow> process \<Rightarrow> (Compiler \<times> process) result" where
  "compiler_advance compiler w =
     compiler_advance_loop (compiler\<lparr>previous := current compiler\<rparr>) w"

definition compiler_consume ::
    "Compiler \<Rightarrow> TokenType \<Rightarrow> string \<Rightarrow> process \<Rightarrow> (Compiler \<times> process) result" where
  "compiler_consume compiler type message w =
     (if token_type (current compiler) = type then compiler_advance compiler w
      else compiler_parse_error_at_current compiler message w)"

subsection \<open>Rules\<close>

datatype Precedence =
    PREC_NONE | PREC_ASSIGNMENT | PREC_OR | PREC_AND | PREC_EQUALITY | PREC_COMPARISON
  | PREC_TERM | PREC_FACTOR | PREC_UNARY | PREC_CALL | PREC_PRIMARY

text \<open>Precedences are compared as the numbers the enumeration gives them.\<close>

fun precedence_value :: "Precedence \<Rightarrow> nat" where
  "precedence_value PREC_NONE = 0"
| "precedence_value PREC_ASSIGNMENT = 1"
| "precedence_value PREC_OR = 2"
| "precedence_value PREC_AND = 3"
| "precedence_value PREC_EQUALITY = 4"
| "precedence_value PREC_COMPARISON = 5"
| "precedence_value PREC_TERM = 6"
| "precedence_value PREC_FACTOR = 7"
| "precedence_value PREC_UNARY = 8"
| "precedence_value PREC_CALL = 9"
| "precedence_value PREC_PRIMARY = 10"

instantiation Precedence :: linorder
begin

definition less_eq_Precedence :: "Precedence \<Rightarrow> Precedence \<Rightarrow> bool" where
  "less_eq_Precedence p q \<longleftrightarrow> precedence_value p \<le> precedence_value q"

definition less_Precedence :: "Precedence \<Rightarrow> Precedence \<Rightarrow> bool" where
  "less_Precedence p q \<longleftrightarrow> precedence_value p < precedence_value q"

instance
proof
  fix p q :: Precedence
  show "p \<le> q \<Longrightarrow> q \<le> p \<Longrightarrow> p = q"
    by (cases p; cases q) (simp_all add: less_eq_Precedence_def)
qed (auto simp: less_eq_Precedence_def less_Precedence_def)

end

text \<open>
  \<open>(Precedence) (precedence + 1)\<close>. No token has \<open>PREC_PRIMARY\<close>, so comparing with it gives the
  same answers as comparing with the number behind it.
\<close>

fun next_precedence :: "Precedence \<Rightarrow> Precedence" where
  "next_precedence PREC_NONE = PREC_ASSIGNMENT"
| "next_precedence PREC_ASSIGNMENT = PREC_OR"
| "next_precedence PREC_OR = PREC_AND"
| "next_precedence PREC_AND = PREC_EQUALITY"
| "next_precedence PREC_EQUALITY = PREC_COMPARISON"
| "next_precedence PREC_COMPARISON = PREC_TERM"
| "next_precedence PREC_TERM = PREC_FACTOR"
| "next_precedence PREC_FACTOR = PREC_UNARY"
| "next_precedence PREC_UNARY = PREC_CALL"
| "next_precedence PREC_CALL = PREC_PRIMARY"
| "next_precedence PREC_PRIMARY = PREC_PRIMARY"

text \<open>The functions a rule can point to; \<open>None\<close> is a null pointer.\<close>

datatype ParseFnPrefix = Parse_grouping | Parse_unary | Parse_real | Parse_int
datatype ParseFnInfix = Parse_binary

record ParseRule =
  rule_prefix :: "ParseFnPrefix option"
  rule_infix :: "ParseFnInfix option"
  rule_precedence :: Precedence

definition get_parse_rule :: "TokenType \<Rightarrow> ParseRule result" where
  "get_parse_rule type =
     (let rule = (\<lambda>f g p. Inr \<lparr>rule_prefix = f, rule_infix = g, rule_precedence = p\<rparr>)
      in case type of
        TOKEN_LEFT_PAREN \<Rightarrow> rule (Some Parse_grouping) None PREC_NONE
      | TOKEN_PLUS \<Rightarrow> rule (Some Parse_unary) (Some Parse_binary) PREC_TERM
      | TOKEN_PLUS_ASSIGN \<Rightarrow> rule None None PREC_TERM
      | TOKEN_MINUS \<Rightarrow> rule (Some Parse_unary) (Some Parse_binary) PREC_TERM
      | TOKEN_MINUS_ASSIGN \<Rightarrow> rule None None PREC_TERM
      | TOKEN_RIGHT_ARROW \<Rightarrow> rule None None PREC_TERM
      | TOKEN_STAR \<Rightarrow> rule None (Some Parse_binary) PREC_FACTOR
      | TOKEN_SLASH \<Rightarrow> rule None (Some Parse_binary) PREC_FACTOR
      | TOKEN_DIV \<Rightarrow> rule None (Some Parse_binary) PREC_FACTOR
      | TOKEN_LIT_REAL \<Rightarrow> rule (Some Parse_real) None PREC_NONE
      | TOKEN_LIT_INT \<Rightarrow> rule (Some Parse_int) None PREC_NONE
      | COUNT_TOKENS \<Rightarrow> Inl OutOfBounds
      | _ \<Rightarrow> rule None None PREC_NONE)"

subsection \<open>Expressions\<close>

text \<open>
  The functions below call \<open>compiler_parse_precedence\<close>, which calls them. They are stated
  over the function \<open>parse\<close> that stands for that call, and \<open>compiler_parse_precedence\<close> ties
  the knot with a bound on the depth of the calls and the rounds of the loop.
\<close>

type_synonym parsed = "(ASTNode \<times> Compiler \<times> process) result"
type_synonym parse_call = "Precedence \<Rightarrow> Compiler \<Rightarrow> process \<Rightarrow> parsed"

definition in_memory :: "(heap \<Rightarrow> (ASTNode \<times> heap) result) \<Rightarrow> Compiler \<Rightarrow> process \<Rightarrow> parsed" where
  "in_memory alloc compiler w =
     res_bind (alloc (memory w)) (\<lambda>(node, h). Inr (node, compiler, w\<lparr>memory := h\<rparr>))"

definition compiler_parse_expression :: "parse_call \<Rightarrow> Compiler \<Rightarrow> process \<Rightarrow> parsed" where
  "compiler_parse_expression parse compiler w = parse PREC_ASSIGNMENT compiler w"

definition compiler_parse_grouping :: "parse_call \<Rightarrow> Compiler \<Rightarrow> process \<Rightarrow> parsed" where
  "compiler_parse_grouping parse compiler w =
     res_bind (compiler_parse_expression parse compiler w) (\<lambda>(child, compiler, w).
     res_bind (compiler_consume compiler TOKEN_RIGHT_PAREN
         (''Expected '' @ [CHR 0x27] @ '')'' @ [CHR 0x27] @ '' after expression.'') w)
       (\<lambda>(compiler, w). in_memory (make_ast_node_grouping child) compiler w))"

definition compiler_parse_binary :: "parse_call \<Rightarrow> Compiler \<Rightarrow> ASTNode \<Rightarrow> process \<Rightarrow> parsed" where
  "compiler_parse_binary parse compiler first w =
     (let operator_type = token_type (previous compiler) in
      res_bind (get_parse_rule operator_type) (\<lambda>rule.
      res_bind (parse (next_precedence (rule_precedence rule)) compiler w) (\<lambda>(second, compiler, w).
        let build = (\<lambda>operator. in_memory (make_ast_node_binary first second operator) compiler w) in
        case operator_type of
          TOKEN_PLUS \<Rightarrow> build OTOR_PLUS
        | TOKEN_MINUS \<Rightarrow> build OTOR_MINUS
        | TOKEN_STAR \<Rightarrow> build OTOR_STAR
        | TOKEN_SLASH \<Rightarrow> build OTOR_SLASH
        | TOKEN_DIV \<Rightarrow> build OTOR_DIV
        | _ \<Rightarrow> Inr (NULL_NODE, compiler, w))))"

definition compiler_parse_unary :: "parse_call \<Rightarrow> Compiler \<Rightarrow> process \<Rightarrow> parsed" where
  "compiler_parse_unary parse compiler w =
     (let operator_type = token_type (previous compiler) in
      res_bind (parse PREC_UNARY compiler w) (\<lambda>(child, compiler, w).
        let build = (\<lambda>operator. in_memory (make_ast_node_unary child operator) compiler w) in
        case operator_type of
          TOKEN_MINUS \<Rightarrow> build OTOR_MINUS
        | TOKEN_PLUS \<Rightarrow> build OTOR_PLUS
        | _ \<Rightarrow> Inr (NULL_NODE, compiler, w)))"

definition compiler_parse_real :: "Compiler \<Rightarrow> process \<Rightarrow> parsed" where
  "compiler_parse_real compiler w =
     res_bind (token_c_string compiler (previous compiler)) (\<lambda>s.
       in_memory (make_ast_node_value (make_value_real (c_strtod s)) make_skard_type_real) compiler w)"

definition compiler_parse_int :: "Compiler \<Rightarrow> process \<Rightarrow> parsed" where
  "compiler_parse_int compiler w =
     res_bind (token_c_string compiler (previous compiler)) (\<lambda>s.
       in_memory (make_ast_node_value (make_value_int (c_strtoll s)) make_skard_type_int) compiler w)"

definition call_prefix :: "ParseFnPrefix \<Rightarrow> parse_call \<Rightarrow> Compiler \<Rightarrow> process \<Rightarrow> parsed" where
  "call_prefix prefix_rule parse compiler w =
     (case prefix_rule of
        Parse_grouping \<Rightarrow> compiler_parse_grouping parse compiler w
      | Parse_unary \<Rightarrow> compiler_parse_unary parse compiler w
      | Parse_real \<Rightarrow> compiler_parse_real compiler w
      | Parse_int \<Rightarrow> compiler_parse_int compiler w)"

text \<open>A call through the null pointer is the fault \<open>NullCall\<close>.\<close>

fun call_infix :: "ParseFnInfix option \<Rightarrow> parse_call \<Rightarrow> Compiler \<Rightarrow> ASTNode \<Rightarrow> process \<Rightarrow> parsed" where
  "call_infix None parse compiler first w = Inl NullCall"
| "call_infix (Some Parse_binary) parse compiler first w =
     compiler_parse_binary parse compiler first w"

primrec compiler_infix_loop ::
    "nat \<Rightarrow> parse_call \<Rightarrow> Precedence \<Rightarrow> ASTNode \<Rightarrow> Compiler \<Rightarrow> process \<Rightarrow> parsed" where
  "compiler_infix_loop 0 = (\<lambda>parse precedence first compiler w. Inl OutOfFuel)"
| "compiler_infix_loop (Suc n) = (\<lambda>parse precedence first compiler w.
     res_bind (get_parse_rule (token_type (current compiler))) (\<lambda>rule.
       if precedence \<le> rule_precedence rule
       then res_bind (compiler_advance compiler w) (\<lambda>(compiler, w).
            res_bind (get_parse_rule (token_type (previous compiler))) (\<lambda>rule.
            res_bind (call_infix (rule_infix rule) parse compiler first w) (\<lambda>(first, compiler, w).
              compiler_infix_loop n parse precedence first compiler w)))
       else Inr (first, compiler, w)))"

primrec compiler_parse_precedence :: "nat \<Rightarrow> parse_call" where
  "compiler_parse_precedence 0 = (\<lambda>precedence compiler w. Inl OutOfFuel)"
| "compiler_parse_precedence (Suc n) = (\<lambda>precedence compiler w.
     res_bind (compiler_advance compiler w) (\<lambda>(compiler, w).
     res_bind (get_parse_rule (token_type (previous compiler))) (\<lambda>rule.
       case rule_prefix rule of
         None \<Rightarrow>
           res_bind (compiler_parse_error_at_previous compiler ''Expected expression.'' w)
             (\<lambda>(compiler, w). Inr (NULL_NODE, compiler, w))
       | Some prefix_rule \<Rightarrow>
           res_bind (call_prefix prefix_rule (compiler_parse_precedence n) compiler w)
             (\<lambda>(first, compiler, w).
               compiler_infix_loop n (compiler_parse_precedence n) precedence first compiler w))))"

end
