(* ===== verification/Typecheck.thy ===== *)
theory Typecheck
  imports Ast
begin

text \<open>
  Type inference: lines 522 to 830 of \<^verbatim>\<open>skard-lib/src/compiler.c\<close>. A function that infers
  a type returns it with what it printed to the standard error stream; the functions that
  store the inferred types return the changed tree too. The compiler they are passed is not
  used by any of them.
\<close>

subsection \<open>Reports\<close>

definition print_s :: "string option \<Rightarrow> string result" where
  "print_s s = (case s of None \<Rightarrow> Inl NullDeref | Some s \<Rightarrow> Inr s)"

definition report_type_error_unary :: "SkardType \<Rightarrow> ASTOperator \<Rightarrow> string result" where
  "report_type_error_unary child_type operator =
     res_bind (print_s (skard_type_translate child_type)) (\<lambda>t.
     res_bind (print_s (ast_operator_translate operator)) (\<lambda>op.
       Inr (''ERROR: Invalid operand of data type '' @ [CHR 0x27] @ t @ [CHR 0x27]
         @ '' for unary operator '' @ [CHR 0x27] @ op @ [CHR 0x27] @ ''.'' @ [newline])))"

definition report_type_error_binary :: "SkardType \<Rightarrow> SkardType \<Rightarrow> ASTOperator \<Rightarrow> string result" where
  "report_type_error_binary first_type second_type operator =
     res_bind (print_s (skard_type_translate first_type)) (\<lambda>t1.
     res_bind (print_s (skard_type_translate second_type)) (\<lambda>t2.
     res_bind (print_s (ast_operator_translate operator)) (\<lambda>op.
       Inr (''ERROR: Invalid operands of data types '' @ [CHR 0x27] @ t1 @ [CHR 0x27] @ '', ''
         @ [CHR 0x27] @ t2 @ [CHR 0x27] @ '' for binary operator '' @ [CHR 0x27] @ op
         @ [CHR 0x27] @ ''.'' @ [newline]))))"

subsection \<open>Rules\<close>

type_synonym inferred = "(SkardType \<times> string) result"

definition compiler_infer_type_unary_plus :: "SkardType \<Rightarrow> inferred" where
  "compiler_infer_type_unary_plus child_type =
     (if is_skard_type_of_kind child_type TYPE_REAL then Inr (make_skard_type_real, [])
      else if is_skard_type_of_kind child_type TYPE_INT then Inr (make_skard_type_int, [])
      else res_bind (report_type_error_unary child_type OTOR_PLUS) (\<lambda>err.
        Inr (make_skard_type_invalid, err)))"

definition compiler_infer_type_unary_minus :: "SkardType \<Rightarrow> inferred" where
  "compiler_infer_type_unary_minus child_type =
     (if is_skard_type_of_kind child_type TYPE_REAL then Inr (make_skard_type_real, [])
      else if is_skard_type_of_kind child_type TYPE_INT then Inr (make_skard_type_int, [])
      else res_bind (report_type_error_unary child_type OTOR_MINUS) (\<lambda>err.
        Inr (make_skard_type_invalid, err)))"

definition compiler_infer_type_binary_plus :: "SkardType \<Rightarrow> SkardType \<Rightarrow> inferred" where
  "compiler_infer_type_binary_plus first_type second_type =
     (if is_skard_type_of_kind first_type TYPE_REAL \<and> is_skard_type_of_kind second_type TYPE_REAL
      then Inr (make_skard_type_real, [])
      else if is_skard_type_of_kind first_type TYPE_REAL \<and> is_skard_type_of_kind second_type TYPE_INT
      then Inr (make_skard_type_real, [])
      else if is_skard_type_of_kind first_type TYPE_INT \<and> is_skard_type_of_kind second_type TYPE_REAL
      then Inr (make_skard_type_real, [])
      else if is_skard_type_of_kind first_type TYPE_INT \<and> is_skard_type_of_kind second_type TYPE_INT
      then Inr (make_skard_type_int, [])
      else res_bind (report_type_error_binary first_type second_type OTOR_PLUS) (\<lambda>err.
        Inr (make_skard_type_invalid, err)))"

definition compiler_infer_type_binary_minus :: "SkardType \<Rightarrow> SkardType \<Rightarrow> inferred" where
  "compiler_infer_type_binary_minus first_type second_type =
     (if is_skard_type_of_kind first_type TYPE_REAL \<and> is_skard_type_of_kind second_type TYPE_REAL
      then Inr (make_skard_type_real, [])
      else if is_skard_type_of_kind first_type TYPE_REAL \<and> is_skard_type_of_kind second_type TYPE_INT
      then Inr (make_skard_type_real, [])
      else if is_skard_type_of_kind first_type TYPE_INT \<and> is_skard_type_of_kind second_type TYPE_REAL
      then Inr (make_skard_type_real, [])
      else if is_skard_type_of_kind first_type TYPE_INT \<and> is_skard_type_of_kind second_type TYPE_INT
      then Inr (make_skard_type_int, [])
      else res_bind (report_type_error_binary first_type second_type OTOR_MINUS) (\<lambda>err.
        Inr (make_skard_type_invalid, err)))"

definition compiler_infer_type_binary_star :: "SkardType \<Rightarrow> SkardType \<Rightarrow> inferred" where
  "compiler_infer_type_binary_star first_type second_type =
     (if is_skard_type_of_kind first_type TYPE_REAL \<and> is_skard_type_of_kind second_type TYPE_REAL
      then Inr (make_skard_type_real, [])
      else if is_skard_type_of_kind first_type TYPE_REAL \<and> is_skard_type_of_kind second_type TYPE_INT
      then Inr (make_skard_type_real, [])
      else if is_skard_type_of_kind first_type TYPE_INT \<and> is_skard_type_of_kind second_type TYPE_REAL
      then Inr (make_skard_type_real, [])
      else if is_skard_type_of_kind first_type TYPE_INT \<and> is_skard_type_of_kind second_type TYPE_INT
      then Inr (make_skard_type_int, [])
      else res_bind (report_type_error_binary first_type second_type OTOR_STAR) (\<lambda>err.
        Inr (make_skard_type_invalid, err)))"

definition compiler_infer_type_binary_slash :: "SkardType \<Rightarrow> SkardType \<Rightarrow> inferred" where
  "compiler_infer_type_binary_slash first_type second_type =
     (if is_skard_type_of_kind first_type TYPE_REAL \<and> is_skard_type_of_kind second_type TYPE_REAL
      then Inr (make_skard_type_real, [])
      else if is_skard_type_of_kind first_type TYPE_REAL \<and> is_skard_type_of_kind second_type TYPE_INT
      then Inr (make_skard_type_real, [])
      else if is_skard_type_of_kind first_type TYPE_INT \<and> is_skard_type_of_kind second_type TYPE_REAL
      then Inr (make_skard_type_real, [])
      else if is_skard_type_of_kind first_type TYPE_INT \<and> is_skard_type_of_kind second_type TYPE_INT
      then Inr (make_skard_type_real, [])
      else res_bind (report_type_error_binary first_type second_type OTOR_SLASH) (\<lambda>err.
        Inr (make_skard_type_invalid, err)))"

definition compiler_infer_type_binary_div :: "SkardType \<Rightarrow> SkardType \<Rightarrow> inferred" where
  "compiler_infer_type_binary_div first_type second_type =
     (if is_skard_type_of_kind first_type TYPE_INT \<and> is_skard_type_of_kind second_type TYPE_INT
      then Inr (make_skard_type_int, [])
      else res_bind (report_type_error_binary first_type second_type OTOR_DIV) (\<lambda>err.
        Inr (make_skard_type_invalid, err)))"

text \<open>\<open>None\<close> is a null function pointer.\<close>

record InferRule =
  infer_unary :: "(SkardType \<Rightarrow> inferred) option"
  infer_binary :: "(SkardType \<Rightarrow> SkardType \<Rightarrow> inferred) option"

definition get_infer_rule :: "ASTOperator \<Rightarrow> InferRule result" where
  "get_infer_rule operator =
     (case operator of
        OTOR_PLUS \<Rightarrow> Inr \<lparr>infer_unary = Some compiler_infer_type_unary_plus,
                           infer_binary = Some compiler_infer_type_binary_plus\<rparr>
      | OTOR_MINUS \<Rightarrow> Inr \<lparr>infer_unary = Some compiler_infer_type_unary_minus,
                            infer_binary = Some compiler_infer_type_binary_minus\<rparr>
      | OTOR_STAR \<Rightarrow> Inr \<lparr>infer_unary = None, infer_binary = Some compiler_infer_type_binary_star\<rparr>
      | OTOR_SLASH \<Rightarrow> Inr \<lparr>infer_unary = None, infer_binary = Some compiler_infer_type_binary_slash\<rparr>
      | OTOR_DIV \<Rightarrow> Inr \<lparr>infer_unary = None, infer_binary = Some compiler_infer_type_binary_div\<rparr>
      | COUNT_OTORS \<Rightarrow> Inl OutOfBounds)"

subsection \<open>Inference\<close>

text \<open>The expression of a child, whose node is accessed without a test for null.\<close>

fun child_expression :: "ASTNode \<Rightarrow> ASTNodeExpression result" where
  "child_expression NULL_NODE = Inl NullDeref"
| "child_expression (AST_NODE_EXPRESSION a e line column) = Inr e"

fun set_child_expression :: "ASTNode \<Rightarrow> ASTNodeExpression \<Rightarrow> ASTNode" where
  "set_child_expression NULL_NODE e' = NULL_NODE"
| "set_child_expression (AST_NODE_EXPRESSION a e line column) e' =
     AST_NODE_EXPRESSION a e' line column"

lemma child_expression_size [dest]: "child_expression n = Inr e \<Longrightarrow> size e < size n"
  by (cases n) auto

text \<open>
  The last steps of \<open>compiler_infer_type_unary\<close> and \<open>compiler_infer_type_binary\<close>, from the
  types of the operands.
\<close>

definition apply_unary_rule :: "ASTOperator \<Rightarrow> SkardType \<Rightarrow> inferred" where
  "apply_unary_rule operator child_type =
     (if is_skard_type_invalid child_type then Inr (make_skard_type_invalid, [])
      else res_bind (get_infer_rule operator) (\<lambda>rule.
        case infer_unary rule of
          None \<Rightarrow> res_bind (print_s (ast_operator_translate operator)) (\<lambda>op.
            Inr (make_skard_type_invalid,
                 ''ERROR: Invalid unary operator '' @ [CHR 0x27] @ op @ [CHR 0x27, newline]))
        | Some unary_rule \<Rightarrow> unary_rule child_type))"

definition apply_binary_rule :: "ASTOperator \<Rightarrow> SkardType \<Rightarrow> SkardType \<Rightarrow> inferred" where
  "apply_binary_rule operator first_type second_type =
     (if is_skard_type_invalid first_type \<or> is_skard_type_invalid second_type
      then Inr (make_skard_type_invalid, [])
      else res_bind (get_infer_rule operator) (\<lambda>rule.
        case infer_binary rule of
          None \<Rightarrow> res_bind (print_s (ast_operator_translate operator)) (\<lambda>op.
            Inr (make_skard_type_invalid,
                 ''ERROR: Invalid binary operator '' @ [CHR 0x27] @ op @ [CHR 0x27, newline]))
        | Some binary_rule \<Rightarrow> binary_rule first_type second_type))"

function compiler_get_expression_type ::
    "ASTNodeExpression \<Rightarrow> (SkardType \<times> ASTNodeExpression \<times> string) result"
  and compiler_infer_type_expression ::
    "ASTNodeExpression \<Rightarrow> (SkardType \<times> ASTNodeExpression \<times> string) result" where
  "compiler_get_expression_type node =
     (if is_skard_type_unknown (expression_type node)
      then res_bind (compiler_infer_type_expression node) (\<lambda>(type, node, err).
        Inr (type, set_expression_type type node, err))
      else Inr (expression_type node, node, []))"
| "compiler_infer_type_expression (AST_EXPR_VALUE type v) =
     Inr (make_skard_type_invalid, AST_EXPR_VALUE type v,
          ''Error: Unspecified value type.'' @ [newline])"
| "compiler_infer_type_expression (AST_EXPR_UNARY type child operator) =
     res_bind (child_expression child) (\<lambda>child_expr.
     res_bind (compiler_get_expression_type child_expr) (\<lambda>(child_type, child_expr, err1).
     res_bind (apply_unary_rule operator child_type) (\<lambda>(result, err2).
       Inr (result, AST_EXPR_UNARY type (set_child_expression child child_expr) operator,
            err1 @ err2))))"
| "compiler_infer_type_expression (AST_EXPR_BINARY type first second operator) =
     res_bind (child_expression first) (\<lambda>first_expr.
     res_bind (child_expression second) (\<lambda>second_expr.
     res_bind (compiler_get_expression_type first_expr) (\<lambda>(first_type, first_expr, err1).
     res_bind (compiler_get_expression_type second_expr) (\<lambda>(second_type, second_expr, err2).
     res_bind (apply_binary_rule operator first_type second_type) (\<lambda>(result, err3).
       Inr (result, AST_EXPR_BINARY type (set_child_expression first first_expr)
              (set_child_expression second second_expr) operator, err1 @ err2 @ err3))))))"
| "compiler_infer_type_expression (AST_EXPR_GROUPING type child) =
     res_bind (child_expression child) (\<lambda>child_expr.
     res_bind (compiler_get_expression_type child_expr) (\<lambda>(child_type, child_expr, err).
       Inr (copy_skard_type child_type, AST_EXPR_GROUPING type (set_child_expression child child_expr),
            err)))"
  by pat_completeness auto
termination
  by (relation "measure (case_sum (\<lambda>e. Suc (2 * size e)) (\<lambda>e. 2 * size e))") fastforce+

declare compiler_get_expression_type.simps [simp del]

definition compiler_typecheck_expression ::
    "ASTNodeExpression \<Rightarrow> (bool \<times> ASTNodeExpression \<times> string) result" where
  "compiler_typecheck_expression node =
     res_bind (compiler_get_expression_type node) (\<lambda>(expression_type, node, err).
       if is_skard_type_invalid expression_type
       then Inr (False, node, err @ ''ERROR: Invalid expression type.'' @ [newline])
       else if is_skard_type_unknown expression_type
       then Inr (False, node, err @ ''ERROR: Could not infer expression type.'' @ [newline])
       else Inr (True, node, err))"

definition compiler_typecheck_ast :: "ASTNode \<Rightarrow> (bool \<times> ASTNode \<times> string) result" where
  "compiler_typecheck_ast node =
     res_bind (child_expression node) (\<lambda>e.
     res_bind (compiler_typecheck_expression e) (\<lambda>(result, e, err).
       Inr (result, set_child_expression node e, err)))"

end
