(* ===== verification/Driver.thy ===== *)
theory Driver
  imports Parser Typecheck Machine
begin

text \<open>
  The compiler's entry points, lines 199 to 222 and 833 to 856 of \<^verbatim>\<open>skard-lib/src/compiler.c\<close>,
  and the program \<^verbatim>\<open>skard-runtime/src/main.c\<close> that calls the library. A function returns what
  it printed to the standard output next to its result.
\<close>

subsection \<open>The compiler\<close>

text \<open>
  A bound on the depth of calls that a source of the remaining length allows; that it is
  enough is part of \<open>Compilation\<close>.
\<close>

definition parse_fuel :: "Compiler \<Rightarrow> nat" where
  "parse_fuel compiler = 2 * compiler_room compiler + 2"

text \<open>The statements up to the test whether there is a tree, and the ones behind it.\<close>

definition parse_program :: "Compiler \<Rightarrow> process \<Rightarrow> parsed" where
  "parse_program compiler w =
     (let parse = compiler_parse_precedence (parse_fuel compiler) in
      res_bind (compiler_advance compiler w) (\<lambda>(compiler, w).
      res_bind (compiler_parse_expression parse compiler w) (\<lambda>(ast, compiler, w).
      res_bind (compiler_consume compiler TOKEN_EOF ''Expected end of expression.'' w) (\<lambda>(compiler, w).
        Inr (ast, compiler, w)))))"

definition finish_program ::
    "ASTNode \<times> Compiler \<times> process \<Rightarrow> (bool \<times> string \<times> Compiler \<times> process) result" where
  "finish_program = (\<lambda>(ast, compiler, w).
     if ast \<noteq> NULL_NODE
     then res_bind (ast_node_print ast True) (\<lambda>out1.
          res_bind (compiler_typecheck_ast ast) (\<lambda>(_, ast, err).
          res_bind (ast_node_print ast True) (\<lambda>out2.
          res_bind (ast_node_free ast (memory w)) (\<lambda>h.
            Inr (\<not> is_error compiler, out1 @ out2, compiler,
                 w\<lparr>memory := h, errors := errors w @ err\<rparr>)))))
     else Inr (\<not> is_error compiler, [], compiler, w))"

definition compiler_generate_ast ::
    "Compiler \<Rightarrow> process \<Rightarrow> (bool \<times> string \<times> Compiler \<times> process) result" where
  "compiler_generate_ast compiler w = res_bind (parse_program compiler w) finish_program"

definition compiler_generate_bytecode :: "Compiler \<Rightarrow> ASTNode \<Rightarrow> bool" where
  "compiler_generate_bytecode compiler node = False"

text \<open>
  The lexer is a local variable of \<open>compiler_compile_source\<close>; the pointer to it that stays in
  the compiler is not followed after the return. The chunk is not touched.
\<close>

definition compiler_compile_source ::
    "Compiler \<Rightarrow> char buffer \<Rightarrow> process \<Rightarrow> (bool \<times> string \<times> Compiler \<times> process) result" where
  "compiler_compile_source compiler source w =
     res_bind (lexer_print (lexer_init source)) (\<lambda>(out1, lexer).
       let compiler = compiler\<lparr>compiler_lexer := Some (lexer_reset lexer)\<rparr>
       in res_bind (compiler_generate_ast compiler w) (\<lambda>(_, out2, compiler, w).
            Inr (False, out1 @ out2, compiler, w)))"

definition free_source :: "char buffer \<Rightarrow> heap \<Rightarrow> heap result" where
  "free_source source h = (case source of Null \<Rightarrow> Inr h | Block a cs \<Rightarrow> c_free a h)"

definition compiler_compile_file ::
    "file_system \<Rightarrow> Compiler \<Rightarrow> string \<Rightarrow> process \<Rightarrow> (bool \<times> string \<times> Compiler \<times> process) result" where
  "compiler_compile_file fs compiler filename w =
     res_bind (read_file fs filename (memory w)) (\<lambda>(source, h).
     res_bind (compiler_compile_source compiler source (w\<lparr>memory := h\<rparr>)) (\<lambda>(result, out, compiler, w).
     res_bind (free_source source (memory w)) (\<lambda>h.
       Inr (result, out, compiler, w\<lparr>memory := h\<rparr>))))"

subsection \<open>The program\<close>

text \<open>
  The constant \<open>0.42\<close> of the source as a \<open>double\<close>; \<open>vm\<close> and \<open>compiler\<close> are the contents of
  the local variables before they are initialised.
\<close>

definition main_constant :: Value where
  "main_constant = make_value_real (c_strtod ''0.42'')"

definition main_chunk :: "heap \<Rightarrow> (Chunk \<times> heap) result" where
  "main_chunk h =
     res_bind (chunk_write_op_constant main_constant 0 0 (chunk_init, h)) (\<lambda>t.
     res_bind (chunk_write_byte (op_byte OP_DUMP) 1 0 t) (\<lambda>t.
       chunk_write_byte (op_byte OP_RETURN) 2 0 t))"

definition main_vm :: "SkardVM \<Rightarrow> heap \<Rightarrow> (string \<times> heap) result" where
  "main_vm vm h =
     (let vm = vm_init vm in
      res_bind (main_chunk h) (\<lambda>(c, h).
      res_bind (disassemble_chunk c ''TEST'') (\<lambda>listing.
      res_bind (vm_run False vm c h) (\<lambda>(out, _, vm, h).
      res_bind (chunk_free c h) (\<lambda>(c, h).
      res_bind (vm_free vm h) (\<lambda>(vm, h).
        Inr (listing @ ''RUNNING...'' @ [newline] @ out, h)))))))"

definition main :: "file_system \<Rightarrow> SkardVM \<Rightarrow> Compiler \<Rightarrow> process \<Rightarrow> (int \<times> string \<times> process) result" where
  "main fs vm compiler w =
     res_bind (main_vm vm (memory w)) (\<lambda>(out1, h).
     res_bind (compiler_compile_file fs (compiler_init compiler) ''examples/basic/00_dump.sk'' (w\<lparr>memory := h\<rparr>))
       (\<lambda>(_, out2, _, w).
         Inr (0, out1 @ ''Test tokenize...'' @ [newline] @ out2, w)))"

end
