(* ===== verification/Typing.thy ===== *)
theory Typing
  imports Typecheck
begin

text \<open>
  The type system the inference of \<^verbatim>\<open>compiler.c\<close> implements: which expressions have which
  kind of type, and that the inference finds it, stores it in every node and reports an error
  exactly when there is none.
\<close>

subsection \<open>Typing rules\<close>

definition numeric :: "TypeKind \<Rightarrow> bool" where
  "numeric k \<longleftrightarrow> k = TYPE_REAL \<or> k = TYPE_INT"

definition unary_kind :: "ASTOperator \<Rightarrow> TypeKind \<Rightarrow> TypeKind option" where
  "unary_kind operator k = (if operator \<in> {OTOR_PLUS, OTOR_MINUS} \<and> numeric k then Some k else None)"

definition binary_kind :: "ASTOperator \<Rightarrow> TypeKind \<Rightarrow> TypeKind \<Rightarrow> TypeKind option" where
  "binary_kind operator k1 k2 =
     (if \<not> (numeric k1 \<and> numeric k2) then None
      else if operator \<in> {OTOR_PLUS, OTOR_MINUS, OTOR_STAR}
      then Some (if k1 = TYPE_INT \<and> k2 = TYPE_INT then TYPE_INT else TYPE_REAL)
      else if operator = OTOR_SLASH then Some TYPE_REAL
      else if operator = OTOR_DIV \<and> k1 = TYPE_INT \<and> k2 = TYPE_INT then Some TYPE_INT
      else None)"

inductive has_kind :: "ASTNodeExpression \<Rightarrow> TypeKind \<Rightarrow> bool"
  and node_has_kind :: "ASTNode \<Rightarrow> TypeKind \<Rightarrow> bool" where
  node: "has_kind e k \<Longrightarrow> node_has_kind (AST_NODE_EXPRESSION a e line column) k"
| literal: "numeric (kind type) \<Longrightarrow> has_kind (AST_EXPR_VALUE type v) (kind type)"
| unary: "node_has_kind child k \<Longrightarrow> unary_kind operator k = Some k'
    \<Longrightarrow> has_kind (AST_EXPR_UNARY type child operator) k'"
| binary: "node_has_kind first k1 \<Longrightarrow> node_has_kind second k2 \<Longrightarrow> binary_kind operator k1 k2 = Some k
    \<Longrightarrow> has_kind (AST_EXPR_BINARY type first second operator) k"
| grouping: "node_has_kind child k \<Longrightarrow> has_kind (AST_EXPR_GROUPING type child) k"

inductive_simps has_kind_simps [simp]:
  "node_has_kind NULL_NODE k"
  "node_has_kind (AST_NODE_EXPRESSION a e line column) k"
  "has_kind (AST_EXPR_VALUE type v) k"
  "has_kind (AST_EXPR_UNARY type child operator) k"
  "has_kind (AST_EXPR_BINARY type first second operator) k"
  "has_kind (AST_EXPR_GROUPING type child) k"

text \<open>The same as a function.\<close>

fun kind_of :: "ASTNodeExpression \<Rightarrow> TypeKind option"
  and node_kind_of :: "ASTNode \<Rightarrow> TypeKind option" where
  "node_kind_of NULL_NODE = None"
| "node_kind_of (AST_NODE_EXPRESSION a e line column) = kind_of e"
| "kind_of (AST_EXPR_VALUE type v) = (if numeric (kind type) then Some (kind type) else None)"
| "kind_of (AST_EXPR_UNARY type child operator) = Option.bind (node_kind_of child) (unary_kind operator)"
| "kind_of (AST_EXPR_BINARY type first second operator) =
     Option.bind (node_kind_of first) (\<lambda>k1.
     Option.bind (node_kind_of second) (binary_kind operator k1))"
| "kind_of (AST_EXPR_GROUPING type child) = node_kind_of child"

lemma has_kind_iff:
  "node_has_kind node k \<longleftrightarrow> node_kind_of node = Some k"
  "has_kind e k \<longleftrightarrow> kind_of e = Some k"
  by (induction node and e arbitrary: k and k) (auto split: bind_splits)

subsection \<open>Trees before and after inference\<close>

text \<open>
  What the parser builds: the type of a literal is known, that of every other node is not, and
  the operators are operators.
\<close>

fun fresh :: "ASTNodeExpression \<Rightarrow> bool"
  and node_fresh :: "ASTNode \<Rightarrow> bool" where
  "node_fresh NULL_NODE \<longleftrightarrow> False"
| "node_fresh (AST_NODE_EXPRESSION a e line column) \<longleftrightarrow> fresh e"
| "fresh (AST_EXPR_VALUE type v) \<longleftrightarrow> numeric (kind type) \<and> kind type = value_type v"
| "fresh (AST_EXPR_UNARY type child operator) \<longleftrightarrow>
     kind type = TYPE_UNKNOWN \<and> node_fresh child \<and> operator \<noteq> COUNT_OTORS"
| "fresh (AST_EXPR_BINARY type first second operator) \<longleftrightarrow>
     kind type = TYPE_UNKNOWN \<and> node_fresh first \<and> node_fresh second \<and> operator \<noteq> COUNT_OTORS"
| "fresh (AST_EXPR_GROUPING type child) \<longleftrightarrow> kind type = TYPE_UNKNOWN \<and> node_fresh child"

text \<open>The type that is stored for a kind that was found, or not found.\<close>

definition stored :: "TypeKind option \<Rightarrow> SkardType" where
  "stored k = \<lparr>kind = (case k of Some k \<Rightarrow> k | None \<Rightarrow> TYPE_INVALID)\<rparr>"

fun annotate :: "ASTNodeExpression \<Rightarrow> ASTNodeExpression"
  and node_annotate :: "ASTNode \<Rightarrow> ASTNode" where
  "node_annotate NULL_NODE = NULL_NODE"
| "node_annotate (AST_NODE_EXPRESSION a e line column) =
     AST_NODE_EXPRESSION a (annotate e) line column"
| "annotate (AST_EXPR_VALUE type v) = AST_EXPR_VALUE type v"
| "annotate (AST_EXPR_UNARY type child operator) =
     AST_EXPR_UNARY (stored (kind_of (AST_EXPR_UNARY type child operator))) (node_annotate child) operator"
| "annotate (AST_EXPR_BINARY type first second operator) =
     AST_EXPR_BINARY (stored (kind_of (AST_EXPR_BINARY type first second operator)))
       (node_annotate first) (node_annotate second) operator"
| "annotate (AST_EXPR_GROUPING type child) =
     AST_EXPR_GROUPING (stored (kind_of (AST_EXPR_GROUPING type child))) (node_annotate child)"

lemma kind_of_numeric:
  "node_kind_of node = Some k \<Longrightarrow> numeric k"
  "kind_of e = Some k \<Longrightarrow> numeric k"
proof (induction node and e arbitrary: k and k)
qed (auto simp: unary_kind_def binary_kind_def numeric_def split: bind_splits if_splits)

subsection \<open>The rules of the code\<close>

lemma stored_simps [simp]:
  "stored None = make_skard_type_invalid"
  "stored (Some k) = \<lparr>kind = k\<rparr>"
  by (simp_all add: stored_def)

lemmas rule_defs =
  get_infer_rule_def apply_unary_rule_def apply_binary_rule_def print_s_def
  ast_operator_translate_def report_type_error_unary_def report_type_error_binary_def
  compiler_infer_type_unary_plus_def compiler_infer_type_unary_minus_def
  compiler_infer_type_binary_plus_def compiler_infer_type_binary_minus_def
  compiler_infer_type_binary_star_def compiler_infer_type_binary_slash_def
  compiler_infer_type_binary_div_def

lemma unary_rule_correct:
  assumes "operator \<noteq> COUNT_OTORS" and "\<And>k. k1 = Some k \<Longrightarrow> numeric k"
  shows "\<exists>err. apply_unary_rule operator (stored k1) =
      Inr (stored (Option.bind k1 (unary_kind operator)), err)
    \<and> (err = [] \<longleftrightarrow> k1 = None \<or> Option.bind k1 (unary_kind operator) \<noteq> None)"
  using assms
  by (cases k1; cases operator) (auto simp: rule_defs unary_kind_def numeric_def)

lemma binary_rule_correct:
  assumes "operator \<noteq> COUNT_OTORS" and "\<And>k. k1 = Some k \<Longrightarrow> numeric k" and "\<And>k. k2 = Some k \<Longrightarrow> numeric k"
  defines "k \<equiv> Option.bind k1 (\<lambda>k1. Option.bind k2 (binary_kind operator k1))"
  shows "\<exists>err. apply_binary_rule operator (stored k1) (stored k2) = Inr (stored k, err)
    \<and> (err = [] \<longleftrightarrow> k1 = None \<or> k2 = None \<or> k \<noteq> None)"
proof (cases k1; cases k2)
  fix a b
  assume k: "k1 = Some a" "k2 = Some b"
  with assms(2,3) have "a = TYPE_REAL \<or> a = TYPE_INT" "b = TYPE_REAL \<or> b = TYPE_INT"
    by (simp_all add: numeric_def)
  with k assms(1) show ?thesis
    by (elim disjE; cases operator) (simp_all add: k_def rule_defs binary_kind_def numeric_def)
qed (simp_all add: k_def rule_defs)

subsection \<open>Correctness of inference\<close>

lemma infer_correct:
  "node_fresh node \<Longrightarrow> \<exists>e err. child_expression node = Inr e
    \<and> compiler_get_expression_type e = Inr (stored (node_kind_of node), annotate e, err)
    \<and> set_child_expression node (annotate e) = node_annotate node
    \<and> (err = [] \<longleftrightarrow> node_kind_of node \<noteq> None)"
  "fresh e \<Longrightarrow> \<exists>err. compiler_get_expression_type e = Inr (stored (kind_of e), annotate e, err)
    \<and> (err = [] \<longleftrightarrow> kind_of e \<noteq> None)"
proof (induction node and e)
  case (AST_EXPR_VALUE type v)
  then show ?case
    by (subst compiler_get_expression_type.simps) (auto simp: numeric_def)
next
  case (AST_EXPR_UNARY type child operator)
  then obtain e err where child: "child_expression child = Inr e"
    "compiler_get_expression_type e = Inr (stored (node_kind_of child), annotate e, err)"
    "set_child_expression child (annotate e) = node_annotate child"
    "err = [] \<longleftrightarrow> node_kind_of child \<noteq> None" by auto
  obtain err2 where "apply_unary_rule operator (stored (node_kind_of child)) =
      Inr (stored (Option.bind (node_kind_of child) (unary_kind operator)), err2)"
    "err2 = [] \<longleftrightarrow> node_kind_of child = None \<or> Option.bind (node_kind_of child) (unary_kind operator) \<noteq> None"
    using unary_rule_correct [of operator "node_kind_of child"] kind_of_numeric(1) AST_EXPR_UNARY.prems by auto
  with child AST_EXPR_UNARY.prems show ?case
    by (subst compiler_get_expression_type.simps) auto
next
  case (AST_EXPR_BINARY type first second operator)
  then obtain e1 err1 where first: "child_expression first = Inr e1"
    "compiler_get_expression_type e1 = Inr (stored (node_kind_of first), annotate e1, err1)"
    "set_child_expression first (annotate e1) = node_annotate first"
    "err1 = [] \<longleftrightarrow> node_kind_of first \<noteq> None" by auto
  from AST_EXPR_BINARY obtain e2 err2 where second: "child_expression second = Inr e2"
    "compiler_get_expression_type e2 = Inr (stored (node_kind_of second), annotate e2, err2)"
    "set_child_expression second (annotate e2) = node_annotate second"
    "err2 = [] \<longleftrightarrow> node_kind_of second \<noteq> None" by auto
  let ?k = "Option.bind (node_kind_of first) (\<lambda>k1. Option.bind (node_kind_of second) (binary_kind operator k1))"
  from AST_EXPR_BINARY.prems have operator: "operator \<noteq> COUNT_OTORS" by simp
  have "\<exists>err. apply_binary_rule operator (stored (node_kind_of first)) (stored (node_kind_of second)) =
      Inr (stored ?k, err)
    \<and> (err = [] \<longleftrightarrow> node_kind_of first = None \<or> node_kind_of second = None \<or> ?k \<noteq> None)"
    by (rule binary_rule_correct [OF operator]; erule kind_of_numeric(1))
  then obtain err3 where "apply_binary_rule operator (stored (node_kind_of first))
      (stored (node_kind_of second)) = Inr (stored ?k, err3)"
    "err3 = [] \<longleftrightarrow> node_kind_of first = None \<or> node_kind_of second = None \<or> ?k \<noteq> None" by blast
  with first second AST_EXPR_BINARY.prems show ?case
    by (subst compiler_get_expression_type.simps) auto
next
  case (AST_EXPR_GROUPING type child)
  then obtain e err where "child_expression child = Inr e"
    "compiler_get_expression_type e = Inr (stored (node_kind_of child), annotate e, err)"
    "set_child_expression child (annotate e) = node_annotate child"
    "err = [] \<longleftrightarrow> node_kind_of child \<noteq> None" by auto
  with AST_EXPR_GROUPING.prems show ?case
    by (subst compiler_get_expression_type.simps) (auto simp: stored_def)
qed auto

lemma typecheck_correct:
  assumes "node_fresh node"
  shows "\<exists>err. compiler_typecheck_ast node = Inr (node_kind_of node \<noteq> None, node_annotate node, err)
    \<and> (err = [] \<longleftrightarrow> node_kind_of node \<noteq> None)"
proof -
  from infer_correct(1) [OF assms] obtain e err where
    "child_expression node = Inr e"
    "compiler_get_expression_type e = Inr (stored (node_kind_of node), annotate e, err)"
    "set_child_expression node (annotate e) = node_annotate node"
    "err = [] \<longleftrightarrow> node_kind_of node \<noteq> None" by blast
  then show ?thesis
    using kind_of_numeric(1) [of node]
    by (cases "node_kind_of node")
      (auto simp: compiler_typecheck_ast_def compiler_typecheck_expression_def numeric_def)
qed

lemma annotate_complete:
  "node_complete (node_annotate node) = node_complete node"
  "expression_complete (annotate e) = expression_complete e"
  by (induction node and e) auto

lemma annotate_blocks:
  "node_blocks (node_annotate node) = node_blocks node"
  "expression_blocks (annotate e) = expression_blocks e"
  by (induction node and e) auto

lemma fresh_complete:
  "node_fresh node \<Longrightarrow> node_complete node"
  "fresh e \<Longrightarrow> expression_complete e"
  by (induction node and e) auto

end
