(* ===== verification/Parsing.thy ===== *)
theory Parsing
  imports Parser Sources Typing
begin

text \<open>
  What every function of the parser keeps and promises: it stays in front of a terminated
  text, never runs out of fuel, reports at most one error, allocates exactly the nodes of the
  tree it returns, and returns a complete tree unless it has reported an error.
\<close>

subsection \<open>Tokens the parser sees\<close>

text \<open>Every token the lexer makes from the source text \<open>s\<close> is one of these.\<close>

definition token_ok :: "string \<Rightarrow> Token \<Rightarrow> bool" where
  "token_ok s token \<longleftrightarrow>
     (case token_start token of
        In_source i \<Rightarrow> i < length s
      | Message m \<Rightarrow> token_type token = TOKEN_ERROR)
     \<and> token_type token \<noteq> COUNT_TOKENS \<and> token_type token \<noteq> TOKEN_MINUS_ASSIGN
     \<and> (token_type token = TOKEN_PLUS_ASSIGN \<or> token_type token = TOKEN_RIGHT_ARROW
        \<longrightarrow> has_null_rule s)"

lemma scan_token_cases:
  assumes r: "reads lexer r" and t: "terminated r" and s: "holds_text (lexer_source lexer) s"
  obtains (runaway) "lexer_scan_token lexer = Inl OutOfBounds" "ends_in_quote s"
  | (token) token lexer' r' where "lexer_scan_token lexer = Inr (token, lexer')"
      "reads lexer' r'" "terminated r'" "lexer_source lexer' = lexer_source lexer" "token_ok s token"
proof -
  let ?rest = "drop (skip_length r) r"
  let ?here = "at_lexeme ?rest (after_skip r lexer)"
  have rest: "terminated ?rest"
    by (intro terminated_drop [OF t] skip_length_less terminated_NUL [OF t])
  have here: "reads ?here ?rest"
    using reads_after_skip [OF r t] by (simp add: at_lexeme_def reads_def)
  have source: "lexer_source ?here = lexer_source lexer"
    by (simp add: at_lexeme_def after_skip_def Let_def)
  have within: "lexer_current ?here < length s"
    using here s source rest by (cases ?rest) (auto simp: reads_def holds_text_def dest: map_injective)
  have p_drop: "drop (lexer_current ?here) s = ?rest"
    using here s source by (auto simp: reads_def holds_text_def dest: map_injective)
  note scan = scan_token_reads [OF r t]
  show thesis
  proof (cases "hd ?rest = NUL")
    case True
    then have "lexer_scan_token lexer = Inr (token_at ?here TOKEN_EOF 0, ?here)"
      using scan by (simp add: lexeme_of_def)
    then show thesis
      by (rule token [OF _ here rest source]) (simp add: token_ok_def token_at_def within)
  next
    case False
    then have scan: "lexer_scan_token lexer = scanned ?here (lexeme_at ?rest)"
      using scan by (simp add: lexeme_of_def)
    show thesis
    proof (cases "lexeme_at ?rest")
      case Runaway
      with lexeme_at_runaway [OF rest False] here p_drop have "ends_in_quote s"
        unfolding ends_in_quote_def by (metis append_take_drop_id)
      with scan Runaway show thesis by (intro runaway) simp_all
    next
      case (Lexeme type n)
      with lexeme_at_size [OF rest False] have n: "n < length ?rest" by simp
      have null_rule: "type = TOKEN_PLUS_ASSIGN \<or> type = TOKEN_RIGHT_ARROW \<longrightarrow> has_null_rule s"
        using lexeme_at_null_rule [OF Lexeme] p_drop unfolding has_null_rule_def by metis
      from scan Lexeme have "lexer_scan_token lexer = Inr (token_at ?here type n, moved n ?here)" by simp
      then show thesis
        by (rule token [OF _ reads_moved [OF here less_imp_le [OF n]] terminated_drop [OF rest n]])
          (use source lexeme_at_types [OF Lexeme] within null_rule in
            \<open>simp_all add: token_ok_def token_at_def\<close>)
    next
      case (Bad message n)
      with lexeme_at_size [OF rest False] have n: "n < length ?rest" by simp
      from scan Bad have "lexer_scan_token lexer =
          Inr (lexer_make_error_token (moved n ?here) message, moved n ?here)" by simp
      then show thesis
        by (rule token [OF _ reads_moved [OF here less_imp_le [OF n]] terminated_drop [OF rest n]])
          (use source in \<open>simp_all add: token_ok_def lexer_make_error_token_def\<close>)
    qed
  qed
qed

subsection \<open>The state of the parser\<close>

text \<open>
  \<open>ready s compiler\<close>: the lexer is in front of a rest of the source text \<open>s\<close> and the current
  token is one of its tokens.
\<close>

definition has_lexer :: "string \<Rightarrow> Compiler \<Rightarrow> bool" where
  "has_lexer s compiler \<longleftrightarrow> terminated s \<and>
     (\<exists>lexer r. compiler_lexer compiler = Some lexer \<and> reads lexer r \<and> terminated r
        \<and> holds_text (lexer_source lexer) s)"

definition ready :: "string \<Rightarrow> Compiler \<Rightarrow> bool" where
  "ready s compiler \<longleftrightarrow> has_lexer s compiler \<and> token_ok s (current compiler)
     \<and> token_type (current compiler) \<noteq> TOKEN_ERROR"

text \<open>The parser advances only so often: an advance past a token that is not the last makes this less.\<close>

definition tokens_left :: "Compiler \<Rightarrow> nat" where
  "tokens_left compiler =
     2 * compiler_room compiler + (if token_type (current compiler) = TOKEN_EOF then 0 else 1)"

text \<open>
  What a run from \<open>(c, w)\<close> to \<open>(c', w')\<close> may do to errors: in panic nothing happens, a run
  that does not end in panic has reported nothing, and one that begins to panic has reported
  one error.
\<close>

definition one_error :: "Compiler \<Rightarrow> process \<Rightarrow> Compiler \<Rightarrow> process \<Rightarrow> bool" where
  "one_error c w c' w' \<longleftrightarrow>
     (if is_panic c \<or> \<not> is_panic c'
      then is_panic c' = is_panic c \<and> is_error c' = is_error c \<and> errors w' = errors w
      else is_error c' \<and> (\<exists>token at message.
        errors w' = errors w @ error_place token @ at @ '': '' @ message @ [newline]))"

lemma one_error_refl [simp]: "one_error c w c w"
  by (simp add: one_error_def)

lemma one_error_trans: "one_error c w c1 w1 \<Longrightarrow> one_error c1 w1 c2 w2 \<Longrightarrow> one_error c w c2 w2"
  by (auto simp: one_error_def split: if_splits)

lemma one_error_cong:
  "is_panic c1 = is_panic c \<Longrightarrow> is_error c1 = is_error c \<Longrightarrow> errors w1 = errors w \<Longrightarrow>
    is_panic c2 = is_panic c' \<Longrightarrow> is_error c2 = is_error c' \<Longrightarrow> errors w2 = errors w' \<Longrightarrow>
    one_error c1 w1 c2 w2 = one_error c w c' w'"
  by (simp add: one_error_def)

subsection \<open>Errors and advancing\<close>

lemma print_token_text_ok:
  assumes p: "holds_text p s" and s: "terminated s" and token: "token_ok s token"
  shows "\<exists>x. print_token_text p token = Inr x"
proof (cases "token_start token")
  case (In_source i)
  with token have "i < length s" by (simp add: token_ok_def)
  then have "NUL \<in> set (drop i s)" using s by (auto simp: terminated_def)
  from read_upto_text [OF p this] read_c_string_text [OF p this] In_source show ?thesis
    by (auto simp: print_token_text_def Let_def)
qed (simp add: print_token_text_def Let_def)

lemma parse_error_ok:
  assumes c: "has_lexer s c" and token: "token_ok s token"
  obtains c' w' where "compiler_parse_error c token message w = Inr (c', w')"
    "one_error c w c' w'" "compiler_lexer c' = compiler_lexer c" "current c' = current c"
    "previous c' = previous c" "memory w' = memory w" "is_panic c'"
proof (cases "is_panic c")
  case True
  then show thesis by (intro that [of c w]) (simp_all add: compiler_parse_error_def)
next
  case False
  from c have p: "holds_text (compiler_source c) s" and s: "terminated s"
    by (auto simp: has_lexer_def compiler_source_def)
  have source: "compiler_source (c\<lparr>is_panic := True\<rparr>) = compiler_source c"
    by (simp add: compiler_source_def)
  from print_token_text_ok [OF p s token] source
  have "\<exists>at. error_at (c\<lparr>is_panic := True\<rparr>) token = Inr at" by (auto simp: error_at_def)
  then obtain at where "error_at (c\<lparr>is_panic := True\<rparr>) token = Inr at" ..
  with False have "compiler_parse_error c token message w = Inr (c\<lparr>is_panic := True, is_error := True\<rparr>,
      w\<lparr>errors := errors w @ error_place token @ at @ '': '' @ message @ [newline]\<rparr>)"
    by (simp add: compiler_parse_error_def Let_def)
  moreover have "one_error c w (c\<lparr>is_panic := True, is_error := True\<rparr>)
      (w\<lparr>errors := errors w @ error_place token @ at @ '': '' @ message @ [newline]\<rparr>)"
    unfolding one_error_def using False by (auto simp del: append.simps)
  ultimately show thesis by (rule that) simp_all
qed

lemma token_c_string_ok:
  assumes c: "has_lexer s c" and token: "token_ok s token"
  shows "\<exists>m. token_c_string c token = Inr m"
proof (cases "token_start token")
  case (In_source i)
  from c have p: "holds_text (compiler_source c) s" and s: "terminated s"
    by (auto simp: has_lexer_def compiler_source_def)
  from token In_source have "i < length s" by (simp add: token_ok_def)
  then have "NUL \<in> set (drop i s)" using s by (auto simp: terminated_def)
  from read_c_string_text [OF p this] In_source show ?thesis by (auto simp: token_c_string_def)
qed (simp add: token_c_string_def)

lemma has_lexer_current [simp]:
  "has_lexer s (c\<lparr>current := t\<rparr>) = has_lexer s c"
  "has_lexer s (c\<lparr>previous := t\<rparr>) = has_lexer s c"
  by (simp_all add: has_lexer_def)

lemma has_lexer_same: "has_lexer s c \<Longrightarrow> compiler_lexer c' = compiler_lexer c \<Longrightarrow> has_lexer s c'"
  by (simp add: has_lexer_def)

definition advanced :: "string \<Rightarrow> Compiler \<Rightarrow> process \<Rightarrow> Compiler \<Rightarrow> process \<Rightarrow> bool" where
  "advanced s c w c' w' \<longleftrightarrow> ready s c' \<and> previous c' = previous c \<and> memory w' = memory w
     \<and> one_error c w c' w' \<and> compiler_room c' \<le> compiler_room c
     \<and> (token_type (current c') \<noteq> TOKEN_EOF \<longrightarrow> compiler_room c' < compiler_room c)"

lemma advance_loop_ok:
  "has_lexer s c \<Longrightarrow>
    compiler_advance_loop c w = Inl OutOfBounds \<and> ends_in_quote s
    \<or> (\<exists>c' w'. compiler_advance_loop c w = Inr (c', w') \<and> advanced s c w c' w')"
proof (induction "compiler_room c" arbitrary: c w rule: less_induct)
  case less
  from less.prems obtain lexer r where lexer: "compiler_lexer c = Some lexer" "reads lexer r"
    "terminated r" "holds_text (lexer_source lexer) s" and s: "terminated s"
    by (auto simp: has_lexer_def)
  from lexer(2-4) show ?case
  proof (cases rule: scan_token_cases)
    case runaway
    with lexer(1) show ?thesis by (subst compiler_advance_loop.simps) simp
  next
    case (token token lexer' r')
    let ?c = "c\<lparr>compiler_lexer := Some lexer', current := token\<rparr>"
    have c: "has_lexer s ?c" using token lexer s by (auto simp: has_lexer_def)
    note room = lexer_scan_token_room_le [OF token(1)] lexer_scan_token_room [OF token(1)]
    show ?thesis
    proof (cases "token_type token = TOKEN_ERROR")
      case False
      then have "compiler_advance_loop c w = Inr (?c, w)"
        using token(1) lexer(1) by (subst compiler_advance_loop.simps) (simp add: Let_def)
      moreover have "advanced s c w ?c w"
        using c token(5) False room lexer(1)
        by (auto simp: advanced_def ready_def compiler_room_def one_error_def)
      ultimately show ?thesis by blast
    next
      case True
      from token_c_string_ok [OF c token(5)] obtain m where m: "token_c_string ?c token = Inr m" ..
      from parse_error_ok [OF c token(5), of m w] obtain c1 w1 where
        e: "compiler_parse_error ?c token m w = Inr (c1, w1)" "one_error ?c w c1 w1"
        "compiler_lexer c1 = compiler_lexer ?c" "previous c1 = previous ?c" "memory w1 = memory w"
        by blast
      have step: "compiler_advance_loop c w = compiler_advance_loop c1 w1"
        using token(1) lexer(1) True m e(1)
        by (subst compiler_advance_loop.simps) (simp add: Let_def compiler_parse_error_at_current_def)
      have smaller: "compiler_room c1 < compiler_room c"
        using e(3) lexer(1) room(2) True by (simp add: compiler_room_def)
      have c1: "has_lexer s c1" using c e(3) by (rule has_lexer_same)
      have "one_error ?c w c1 w1 = one_error c w c1 w1" by (rule one_error_cong) simp_all
      with e(2) have error: "one_error c w c1 w1" by simp
      from less.hyps [OF smaller c1, of w1] step smaller e(4,5) show ?thesis
        by (auto simp: advanced_def intro: one_error_trans [OF error])
    qed
  qed
qed

definition went :: "string \<Rightarrow> Compiler \<Rightarrow> process \<Rightarrow> Compiler \<Rightarrow> process \<Rightarrow> bool" where
  "went s c w c' w' \<longleftrightarrow> ready s c' \<and> tokens_left c' \<le> tokens_left c \<and> one_error c w c' w'
     \<and> host_grants (memory w') = host_grants (memory w)"

lemma went_trans: "went s c w c1 w1 \<Longrightarrow> went s c1 w1 c2 w2 \<Longrightarrow> went s c w c2 w2"
  by (auto simp: went_def intro: one_error_trans)

text \<open>An advance from a state that is ready.\<close>

lemma advance_ok:
  assumes "ready s c"
  shows "compiler_advance c w = Inl OutOfBounds \<and> ends_in_quote s
    \<or> (\<exists>c' w'. compiler_advance c w = Inr (c', w') \<and> went s c w c' w' \<and> previous c' = current c
        \<and> memory w' = memory w
        \<and> (token_type (current c) \<noteq> TOKEN_EOF \<longrightarrow> tokens_left c' < tokens_left c))"
proof -
  let ?c = "c\<lparr>previous := current c\<rparr>"
  have "has_lexer s ?c" using assms by (simp add: ready_def)
  then consider "compiler_advance c w = Inl OutOfBounds" "ends_in_quote s"
    | c' w' where "compiler_advance c w = Inr (c', w')" "advanced s ?c w c' w'"
    using advance_loop_ok [of s ?c w] by (auto simp: compiler_advance_def)
  then show ?thesis
  proof cases
    case (2 c' w')
    have "one_error ?c w c' w' = one_error c w c' w'" by (rule one_error_cong) simp_all
    with 2(2) have facts: "ready s c'" "previous c' = current c" "memory w' = memory w" "one_error c w c' w'"
      "compiler_room c' \<le> compiler_room c"
      "token_type (current c') \<noteq> TOKEN_EOF \<longrightarrow> compiler_room c' < compiler_room c"
      by (simp_all add: advanced_def compiler_room_def)
    then have "tokens_left c' \<le> tokens_left c"
      "token_type (current c) \<noteq> TOKEN_EOF \<longrightarrow> tokens_left c' < tokens_left c"
      by (auto simp: tokens_left_def)
    with facts 2(1) show ?thesis by (auto simp: went_def)
  qed simp
qed

subsection \<open>The contract of a parsing function\<close>

text \<open>
  The faults that are left: no memory for a node, and the two that depend on the source.
\<close>

definition fault_ok :: "string \<Rightarrow> fault \<Rightarrow> bool" where
  "fault_ok s e \<longleftrightarrow>
     e = error_not_enough_memory \<or> e = OutOfBounds \<and> ends_in_quote s \<or> e = NullCall \<and> has_null_rule s"

text \<open>
  A tree the parser returns: it is complete unless an error was reported, and a complete tree
  is one that type inference can start from.
\<close>

definition tree_ok :: "Compiler \<Rightarrow> ASTNode \<Rightarrow> bool" where
  "tree_ok c node \<longleftrightarrow> (\<not> is_panic c \<longrightarrow> node_fresh node) \<and> (node_complete node \<longrightarrow> node_fresh node)"

text \<open>
  A run from \<open>(c, w)\<close> that takes the nodes it is given over and returns one tree: \<open>F\<close> are the
  blocks of the heap that do not belong to it.
\<close>

definition parsed_ok :: "string \<Rightarrow> Compiler \<Rightarrow> process \<Rightarrow> nat multiset \<Rightarrow> parsed \<Rightarrow> bool" where
  "parsed_ok s c w F r \<longleftrightarrow>
     (case r of
        Inl e \<Rightarrow> fault_ok s e
      | Inr (node, c', w') \<Rightarrow>
          went s c w c' w' \<and> mset (live (memory w')) = node_blocks node + F
          \<and> tree_ok c' node)"

lemma parsed_ok_went:
  "went s c w c1 w1 \<Longrightarrow> parsed_ok s c1 w1 F r \<Longrightarrow> parsed_ok s c w F r"
  by (auto simp: parsed_ok_def intro: went_trans split: sum.splits)

lemma parsed_ok_bind:
  assumes "parsed_ok s c w F r"
    and "\<And>node c1 w1. r = Inr (node, c1, w1) \<Longrightarrow> went s c w c1 w1
      \<Longrightarrow> mset (live (memory w1)) = node_blocks node + F
      \<Longrightarrow> tree_ok c1 node \<Longrightarrow> parsed_ok s c1 w1 G (f (node, c1, w1))"
  shows "parsed_ok s c w G (res_bind r f)"
proof (cases r)
  case (Inl e)
  with assms(1) show ?thesis by (simp add: parsed_ok_def)
next
  case (Inr x)
  obtain node c1 w1 where x: "x = (node, c1, w1)" by (cases x)
  with Inr assms(1) have "went s c w c1 w1" "mset (live (memory w1)) = node_blocks node + F"
    "tree_ok c1 node" by (simp_all add: parsed_ok_def)
  with assms(2) [of node c1 w1] Inr x show ?thesis by (simp add: parsed_ok_went)
qed

lemma went_refl: "ready s c \<Longrightarrow> went s c w c w"
  by (simp add: went_def)

lemma went_tree_ok: "went s c w c' w' \<Longrightarrow> tree_ok c node \<Longrightarrow> tree_ok c' node"
  by (auto simp: tree_ok_def went_def one_error_def)

text \<open>Runs that only move on and report.\<close>

definition moved_ok :: "string \<Rightarrow> Compiler \<Rightarrow> process \<Rightarrow> (Compiler \<times> process) result \<Rightarrow> bool" where
  "moved_ok s c w r \<longleftrightarrow>
     (case r of
        Inl e \<Rightarrow> fault_ok s e
      | Inr (c', w') \<Rightarrow> went s c w c' w' \<and> memory w' = memory w)"

lemma moved_ok_bind:
  assumes "moved_ok s c w r"
    and "\<And>c1 w1. r = Inr (c1, w1) \<Longrightarrow> went s c w c1 w1 \<Longrightarrow> memory w1 = memory w
      \<Longrightarrow> parsed_ok s c1 w1 F (f (c1, w1))"
  shows "parsed_ok s c w F (res_bind r f)"
proof (cases r)
  case (Inl e)
  with assms(1) show ?thesis by (simp add: parsed_ok_def moved_ok_def)
next
  case (Inr x)
  obtain c1 w1 where x: "x = (c1, w1)" by (cases x)
  with Inr assms(1) have "went s c w c1 w1" "memory w1 = memory w" by (simp_all add: moved_ok_def)
  with assms(2) [of c1 w1] Inr x show ?thesis by (simp add: parsed_ok_went)
qed

lemma advance_moved_ok: "ready s c \<Longrightarrow> moved_ok s c w (compiler_advance c w)"
  using advance_ok [of s c w] by (auto simp: moved_ok_def fault_ok_def)

lemma parse_error_moved_ok:
  assumes c: "ready s c" and token: "token_ok s token"
  shows "moved_ok s c w (compiler_parse_error c token message w)"
proof -
  from c have "has_lexer s c" by (simp add: ready_def)
  from parse_error_ok [OF this token] obtain c' w' where
    e: "compiler_parse_error c token message w = Inr (c', w')"
    "one_error c w c' w'" "compiler_lexer c' = compiler_lexer c" "current c' = current c"
    "memory w' = memory w" by metis
  with c show ?thesis
    by (simp add: moved_ok_def went_def ready_def has_lexer_def tokens_left_def compiler_room_def)
qed

lemma consume_moved_ok:
  "ready s c \<Longrightarrow> moved_ok s c w (compiler_consume c type message w)"
  using parse_error_moved_ok [of s c "current c" w message] advance_moved_ok [of s c w]
  by (auto simp: compiler_consume_def compiler_parse_error_at_current_def ready_def)

text \<open>Allocating a node.\<close>

lemma in_memory_ok:
  assumes c: "ready s c" and blocks: "mset (live (memory w)) = expression_blocks e + F"
    and e: "\<not> is_panic c \<Longrightarrow> fresh e" "expression_complete e \<Longrightarrow> fresh e"
  shows "parsed_ok s c w F (in_memory (make_ast_node_expression e) c w)"
proof (cases rule: c_malloc_cases [of "memory w" sizeof_ASTNode])
  case refused
  then show ?thesis
    by (simp add: in_memory_def make_ast_node_expression_def allocate_def parsed_ok_def fault_ok_def)
next
  case granted
  with c blocks e show ?thesis
    by (auto simp: in_memory_def make_ast_node_expression_def allocate_def parsed_ok_def
        went_def one_error_def tree_ok_def)
qed

lemmas make_defs =
  make_ast_node_value_def [abs_def] make_ast_node_unary_def [abs_def]
  make_ast_node_binary_def [abs_def] make_ast_node_grouping_def [abs_def]

text \<open>
  The parser's rules: only operators and \<open>+=\<close>, \<open>->\<close> continue an expression, and every token
  with a prefix or infix function is a real token.
\<close>

lemma get_parse_rule_returns:
  "type \<noteq> COUNT_TOKENS \<Longrightarrow> \<exists>rule. get_parse_rule type = Inr rule"
  by (cases type) (simp_all add: get_parse_rule_def Let_def)

lemma get_parse_rule_cases:
  assumes "get_parse_rule type = Inr rule"
  shows "rule_prefix rule \<noteq> None \<Longrightarrow> type \<noteq> TOKEN_EOF"
    and "PREC_NONE < rule_precedence rule \<Longrightarrow> type \<noteq> TOKEN_EOF"
    and "PREC_NONE < rule_precedence rule \<Longrightarrow> rule_infix rule = None
      \<Longrightarrow> type \<in> {TOKEN_PLUS_ASSIGN, TOKEN_MINUS_ASSIGN, TOKEN_RIGHT_ARROW}"
    and "rule_infix rule \<noteq> None \<Longrightarrow> type \<in> {TOKEN_PLUS, TOKEN_MINUS, TOKEN_STAR, TOKEN_SLASH, TOKEN_DIV}
      \<and> next_precedence (rule_precedence rule) \<noteq> PREC_NONE"
    and "rule_prefix rule = Some Parse_unary \<Longrightarrow> type \<in> {TOKEN_PLUS, TOKEN_MINUS}"
    and "rule_prefix rule \<in> {Some Parse_int, Some Parse_real} \<Longrightarrow> type \<in> {TOKEN_LIT_INT, TOKEN_LIT_REAL}"
  using assms
  by (cases type; auto simp: get_parse_rule_def Let_def less_Precedence_def)+

lemma precedence_least: "precedence \<noteq> PREC_NONE \<Longrightarrow> precedence \<le> q \<Longrightarrow> PREC_NONE < q"
  by (cases precedence; cases q) (simp_all add: less_Precedence_def less_eq_Precedence_def)

lemma literal_ok:
  assumes c: "ready s c" and token: "token_ok s (previous c)"
  shows "parsed_ok s c w (mset (live (memory w))) (compiler_parse_real c w)"
    and "parsed_ok s c w (mset (live (memory w))) (compiler_parse_int c w)"
proof -
  from c have "has_lexer s c" by (simp add: ready_def)
  from token_c_string_ok [OF this token] obtain m where "token_c_string c (previous c) = Inr m" ..
  then show "parsed_ok s c w (mset (live (memory w))) (compiler_parse_real c w)"
    and "parsed_ok s c w (mset (live (memory w))) (compiler_parse_int c w)"
    by (auto simp: compiler_parse_real_def compiler_parse_int_def make_defs numeric_def
        make_value_real_def make_value_int_def intro!: in_memory_ok [OF c])
qed

text \<open>The interface of the call that the functions for expressions make.\<close>

locale parse_contract =
  fixes parse :: parse_call and s :: string and bound :: nat
  assumes parse_ok: "ready s c \<Longrightarrow> tokens_left c < bound \<Longrightarrow> precedence \<noteq> PREC_NONE \<Longrightarrow>
    parsed_ok s c w (mset (live (memory w))) (parse precedence c w)"
begin

lemma parse_bind:
  assumes "ready s c" and "tokens_left c < bound" and "precedence \<noteq> PREC_NONE"
    and "\<And>node c1 w1. went s c w c1 w1 \<Longrightarrow> mset (live (memory w1)) = node_blocks node + mset (live (memory w))
      \<Longrightarrow> tree_ok c1 node \<Longrightarrow> parsed_ok s c1 w1 F (f (node, c1, w1))"
  shows "parsed_ok s c w F (res_bind (parse precedence c w) f)"
  by (rule parsed_ok_bind [OF parse_ok [OF assms(1-3)]]) (rule assms(4))

lemma grouping_ok:
  assumes c: "ready s c" and bound: "tokens_left c < bound"
  shows "parsed_ok s c w (mset (live (memory w))) (compiler_parse_grouping parse c w)"
  unfolding compiler_parse_grouping_def compiler_parse_expression_def make_defs
proof (rule parse_bind [OF c bound], simp, simp only: prod.case)
  fix node c1 w1
  assume 1: "went s c w c1 w1" "mset (live (memory w1)) = node_blocks node + mset (live (memory w))"
    "tree_ok c1 node"
  then have c1: "ready s c1" by (simp add: went_def)
  show "parsed_ok s c1 w1 (mset (live (memory w))) (res_bind (compiler_consume c1 TOKEN_RIGHT_PAREN
      (''Expected '' @ [CHR 0x27] @ '')'' @ [CHR 0x27] @ '' after expression.'') w1)
      (\<lambda>(c, w). in_memory (make_ast_node_expression (AST_EXPR_GROUPING make_skard_type_unknown node)) c w))"
  proof (rule moved_ok_bind [OF consume_moved_ok [OF c1]], simp only: prod.case, rule in_memory_ok)
    fix c2 w2
    assume 2: "went s c1 w1 c2 w2" "memory w2 = memory w1"
    then show "ready s c2" by (simp add: went_def)
    show "mset (live (memory w2)) =
        expression_blocks (AST_EXPR_GROUPING make_skard_type_unknown node) + mset (live (memory w))"
      using 1(2) 2(2) by simp
    show "\<not> is_panic c2 \<Longrightarrow> fresh (AST_EXPR_GROUPING make_skard_type_unknown node)"
      "expression_complete (AST_EXPR_GROUPING make_skard_type_unknown node)
        \<Longrightarrow> fresh (AST_EXPR_GROUPING make_skard_type_unknown node)"
      using went_tree_ok [OF 2(1) 1(3)] by (simp_all add: tree_ok_def)
  qed
qed

lemma unary_ok:
  assumes c: "ready s c" and bound: "tokens_left c < bound"
    and operator: "token_type (previous c) \<in> {TOKEN_PLUS, TOKEN_MINUS}"
  shows "parsed_ok s c w (mset (live (memory w))) (compiler_parse_unary parse c w)"
  unfolding compiler_parse_unary_def make_defs Let_def
proof (rule parse_bind [OF c bound], simp, simp only: prod.case)
  fix node c1 w1
  assume 1: "went s c w c1 w1" "mset (live (memory w1)) = node_blocks node + mset (live (memory w))"
    "tree_ok c1 node"
  have build: "parsed_ok s c1 w1 (mset (live (memory w))) (in_memory (make_ast_node_expression
      (AST_EXPR_UNARY make_skard_type_unknown node operator)) c1 w1)"
    if "operator \<noteq> COUNT_OTORS" for operator
    by (rule in_memory_ok) (use 1 that in \<open>simp_all add: went_def tree_ok_def\<close>)
  show "parsed_ok s c1 w1 (mset (live (memory w)))
     (case token_type (previous c) of
        TOKEN_PLUS \<Rightarrow> in_memory (make_ast_node_expression
          (AST_EXPR_UNARY make_skard_type_unknown node OTOR_PLUS)) c1 w1
      | TOKEN_MINUS \<Rightarrow> in_memory (make_ast_node_expression
          (AST_EXPR_UNARY make_skard_type_unknown node OTOR_MINUS)) c1 w1
      | _ \<Rightarrow> Inr (NULL_NODE, c1, w1))"
    using operator by (auto intro: build [simplified])
qed

lemma binary_ok:
  assumes c: "ready s c" and bound: "tokens_left c < bound"
    and operator: "token_type (previous c) \<in> {TOKEN_PLUS, TOKEN_MINUS, TOKEN_STAR, TOKEN_SLASH, TOKEN_DIV}"
    and first: "mset (live (memory w)) = node_blocks first + F" "tree_ok c first"
  shows "parsed_ok s c w F (compiler_parse_binary parse c first w)"
proof -
  obtain rule where rule: "get_parse_rule (token_type (previous c)) = Inr rule"
    "next_precedence (rule_precedence rule) \<noteq> PREC_NONE"
    using operator by (auto simp: get_parse_rule_def Let_def)
  show ?thesis
    unfolding compiler_parse_binary_def make_defs Let_def rule(1) res_bind_simps
  proof (rule parse_bind [OF c bound rule(2)], simp only: prod.case)
    fix node c1 w1
    assume 1: "went s c w c1 w1" "mset (live (memory w1)) = node_blocks node + mset (live (memory w))"
      "tree_ok c1 node"
    have fresh: "tree_ok c1 first" by (rule went_tree_ok [OF 1(1) first(2)])
    have build: "parsed_ok s c1 w1 F (in_memory (make_ast_node_expression
        (AST_EXPR_BINARY make_skard_type_unknown first node operator)) c1 w1)"
      if "operator \<noteq> COUNT_OTORS" for operator
      by (rule in_memory_ok) (use 1 first(1) fresh that in \<open>simp_all add: went_def tree_ok_def ac_simps\<close>)
    show "parsed_ok s c1 w1 F
     (case token_type (previous c) of
        TOKEN_PLUS \<Rightarrow> in_memory (make_ast_node_expression
          (AST_EXPR_BINARY make_skard_type_unknown first node OTOR_PLUS)) c1 w1
      | TOKEN_MINUS \<Rightarrow> in_memory (make_ast_node_expression
          (AST_EXPR_BINARY make_skard_type_unknown first node OTOR_MINUS)) c1 w1
      | TOKEN_STAR \<Rightarrow> in_memory (make_ast_node_expression
          (AST_EXPR_BINARY make_skard_type_unknown first node OTOR_STAR)) c1 w1
      | TOKEN_SLASH \<Rightarrow> in_memory (make_ast_node_expression
          (AST_EXPR_BINARY make_skard_type_unknown first node OTOR_SLASH)) c1 w1
      | TOKEN_DIV \<Rightarrow> in_memory (make_ast_node_expression
          (AST_EXPR_BINARY make_skard_type_unknown first node OTOR_DIV)) c1 w1
      | _ \<Rightarrow> Inr (NULL_NODE, c1, w1))"
      using operator by (auto intro: build [simplified])
  qed
qed

lemma prefix_ok:
  assumes c: "ready s c" and bound: "tokens_left c < bound" and token: "token_ok s (previous c)"
    and rule: "get_parse_rule (token_type (previous c)) = Inr rule" "rule_prefix rule = Some prefix_rule"
  shows "parsed_ok s c w (mset (live (memory w))) (call_prefix prefix_rule parse c w)"
proof (cases prefix_rule)
  case Parse_grouping
  then show ?thesis using grouping_ok [OF c bound] by (simp add: call_prefix_def)
next
  case Parse_unary
  with rule get_parse_rule_cases(5) [OF rule(1)] unary_ok [OF c bound] show ?thesis
    by (simp add: call_prefix_def)
next
  case Parse_real
  then show ?thesis using literal_ok [OF c token] by (simp add: call_prefix_def)
next
  case Parse_int
  then show ?thesis using literal_ok [OF c token] by (simp add: call_prefix_def)
qed

lemma loop_ok:
  "ready s c \<Longrightarrow> tokens_left c < bound \<Longrightarrow> tokens_left c < n \<Longrightarrow> precedence \<noteq> PREC_NONE \<Longrightarrow>
    mset (live (memory w)) = node_blocks first + F \<Longrightarrow> tree_ok c first \<Longrightarrow>
    parsed_ok s c w F (compiler_infix_loop n parse precedence first c w)"
proof (induction n arbitrary: c w first)
  case 0
  then show ?case by simp
next
  case (Suc n)
  note c = Suc.prems(1)
  from c have token: "token_ok s (current c)" by (simp add: ready_def)
  then obtain rule where rule: "get_parse_rule (token_type (current c)) = Inr rule"
    using get_parse_rule_returns [of "token_type (current c)"] by (auto simp: token_ok_def)
  show ?case
  proof (cases "precedence \<le> rule_precedence rule")
    case False
    with rule Suc.prems show ?thesis by (simp add: parsed_ok_def went_refl)
  next
    case True
    then have above: "PREC_NONE < rule_precedence rule" by (rule precedence_least [OF Suc.prems(4)])
    have "parsed_ok s c w F (res_bind (compiler_advance c w) (\<lambda>(c, w).
        res_bind (get_parse_rule (token_type (previous c))) (\<lambda>rule.
        res_bind (call_infix (rule_infix rule) parse c first w) (\<lambda>(first, c, w).
          compiler_infix_loop n parse precedence first c w))))"
    proof (rule moved_ok_bind [OF advance_moved_ok [OF c]])
      fix c1 w1
      assume adv: "compiler_advance c w = Inr (c1, w1)" and 1: "went s c w c1 w1" "memory w1 = memory w"
      from advance_ok [OF c, of w] adv get_parse_rule_cases(2) [OF rule above]
      have prev: "previous c1 = current c" and less: "tokens_left c1 < tokens_left c" by auto
      from 1 have c1: "ready s c1" by (simp add: went_def)
      have first: "mset (live (memory w1)) = node_blocks first + F" "tree_ok c1 first"
        using Suc.prems(5,6) 1 by (auto intro: went_tree_ok)
      have bound: "tokens_left c1 < bound" using less Suc.prems(2) by simp
      show "parsed_ok s c1 w1 F (case (c1, w1) of (c, w) \<Rightarrow>
          res_bind (get_parse_rule (token_type (previous c))) (\<lambda>rule.
          res_bind (call_infix (rule_infix rule) parse c first w) (\<lambda>(first, c, w).
            compiler_infix_loop n parse precedence first c w)))"
      proof (cases "rule_infix rule")
        case None
        from get_parse_rule_cases(3) [OF rule above None] token have "has_null_rule s"
          by (auto simp: token_ok_def)
        with None prev rule show ?thesis by (simp add: parsed_ok_def fault_ok_def)
      next
        case (Some f)
        then have f: "f = Parse_binary" by (cases f) simp
        from get_parse_rule_cases(4) [OF rule] Some prev have
          "token_type (previous c1) \<in> {TOKEN_PLUS, TOKEN_MINUS, TOKEN_STAR, TOKEN_SLASH, TOKEN_DIV}" by simp
        note binary = binary_ok [OF c1 bound this first]
        have "parsed_ok s c1 w1 F (res_bind (compiler_parse_binary parse c1 first w1) (\<lambda>(first, c, w).
            compiler_infix_loop n parse precedence first c w))"
        proof (rule parsed_ok_bind [OF binary], simp only: prod.case)
          fix node c2 w2
          assume 2: "went s c1 w1 c2 w2" "mset (live (memory w2)) = node_blocks node + F"
            "tree_ok c2 node"
          then show "parsed_ok s c2 w2 F (compiler_infix_loop n parse precedence node c2 w2)"
            using less bound Suc.prems(3,4) by (intro Suc.IH) (simp_all add: went_def)
        qed
        with Some f prev rule show ?thesis by simp
      qed
    qed
    with True rule show ?thesis by simp
  qed
qed

end

text \<open>The model's function meets the contract when its fuel is more than the bound.\<close>

lemma parse_precedence_contract: "parse_contract (compiler_parse_precedence n) s n"
proof (induction n)
  case 0
  show ?case by (simp add: parse_contract_def)
next
  case (Suc n)
  show ?case
  proof (rule parse_contract.intro)
    fix c precedence w
    assume c: "ready s c" and bound: "tokens_left c < Suc n" and precedence: "precedence \<noteq> PREC_NONE"
    from c have token: "token_ok s (current c)" by (simp add: ready_def)
    then obtain rule where rule: "get_parse_rule (token_type (current c)) = Inr rule"
      using get_parse_rule_returns [of "token_type (current c)"] by (auto simp: token_ok_def)
    show "parsed_ok s c w (mset (live (memory w))) (compiler_parse_precedence (Suc n) precedence c w)"
      unfolding compiler_parse_precedence.simps
    proof (rule moved_ok_bind [OF advance_moved_ok [OF c]], simp only: prod.case)
      fix c1 w1
      assume adv: "compiler_advance c w = Inr (c1, w1)" and 1: "went s c w c1 w1" "memory w1 = memory w"
      from 1 have c1: "ready s c1" by (simp add: went_def)
      from advance_ok [OF c, of w] adv have prev: "previous c1 = current c"
        and less: "token_type (current c) \<noteq> TOKEN_EOF \<longrightarrow> tokens_left c1 < tokens_left c" by auto
      have token1: "token_ok s (previous c1)" using token prev by simp
      show "parsed_ok s c1 w1 (mset (live (memory w)))
        (res_bind (get_parse_rule (token_type (previous c1))) (\<lambda>rule. case rule_prefix rule of
            None \<Rightarrow> res_bind (compiler_parse_error_at_previous c1 ''Expected expression.'' w1)
              (\<lambda>(compiler, w). Inr (NULL_NODE, compiler, w))
          | Some prefix_rule \<Rightarrow> res_bind (call_prefix prefix_rule (compiler_parse_precedence n) c1 w1)
              (\<lambda>(first, compiler, w).
                compiler_infix_loop n (compiler_parse_precedence n) precedence first compiler w)))"
      proof (cases "rule_prefix rule")
        case None
        from c1 have "has_lexer s c1" by (simp add: ready_def)
        from parse_error_ok [OF this token1] obtain c2 w2 where
          e: "compiler_parse_error c1 (previous c1) ''Expected expression.'' w1 = Inr (c2, w2)"
          "memory w2 = memory w1" "is_panic c2" by metis
        with parse_error_moved_ok [OF c1 token1, of w1 "''Expected expression.''"] None prev rule 1(2)
        show ?thesis
          by (simp add: parsed_ok_def moved_ok_def compiler_parse_error_at_previous_def tree_ok_def)
      next
        case (Some prefix_rule)
        have bound1: "tokens_left c1 < n"
          using less bound get_parse_rule_cases(1) [OF rule] Some by simp
        note prefix = parse_contract.prefix_ok [OF Suc c1 bound1 token1 _ Some, of w1]
        have "parsed_ok s c1 w1 (mset (live (memory w)))
          (res_bind (call_prefix prefix_rule (compiler_parse_precedence n) c1 w1)
            (\<lambda>(first, compiler, w).
              compiler_infix_loop n (compiler_parse_precedence n) precedence first compiler w))"
        proof (rule parsed_ok_bind [OF prefix], use rule prev in simp, simp only: prod.case)
          fix node c2 w2
          assume 2: "went s c1 w1 c2 w2" "mset (live (memory w2)) = node_blocks node + mset (live (memory w1))"
            "tree_ok c2 node"
          then have "tokens_left c2 < n" "ready s c2" using bound1 by (simp_all add: went_def)
          then show "parsed_ok s c2 w2 (mset (live (memory w)))
              (compiler_infix_loop n (compiler_parse_precedence n) precedence node c2 w2)"
            using 2(2,3) 1(2) precedence by (intro parse_contract.loop_ok [OF Suc]) simp_all
        qed
        with Some prev rule show ?thesis by simp
      qed
    qed
  qed
qed

interpretation parser: parse_contract "compiler_parse_precedence n" s n for n s
  by (rule parse_precedence_contract)

end
