(* ===== verification/Compilation.thy ===== *)
theory Compilation
  imports Driver Parsing Execution
begin

text \<open>
  Whole compilations: what a source in memory is compiled to, which faults are left, and that
  the heap is as before.
\<close>

subsection \<open>The source\<close>

lemma source_ok_has_lexer:
  "source_ok p s \<Longrightarrow> compiler_lexer c = Some (lexer_init p) \<Longrightarrow> has_lexer s c"
  using source_ok_reads [of p s]
  by (auto simp: has_lexer_def source_ok_def lexer_init_def)

subsection \<open>Parsing a program\<close>

lemma parse_program_ok:
  assumes "has_lexer s c"
  shows "case parse_program c w of
      Inl e \<Rightarrow> fault_ok s e
    | Inr (node, c', w') \<Rightarrow> one_error c w c' w' \<and> tree_ok c' node
        \<and> mset (live (memory w')) = node_blocks node + mset (live (memory w))
        \<and> host_grants (memory w') = host_grants (memory w)"
proof -
  let ?c = "c\<lparr>previous := current c\<rparr>"
  have "has_lexer s ?c" using assms by simp
  from advance_loop_ok [OF this, of w] consider
      (runaway) "compiler_advance c w = Inl OutOfBounds" "ends_in_quote s"
    | (go) c1 w1 where "compiler_advance c w = Inr (c1, w1)" "advanced s ?c w c1 w1"
    by (auto simp: compiler_advance_def)
  then show ?thesis
  proof cases
    case runaway
    then show ?thesis by (simp add: parse_program_def fault_ok_def Let_def)
  next
    case go
    then have c1: "ready s c1" and mem: "memory w1 = memory w" and room: "compiler_room c1 \<le> compiler_room c"
      by (simp_all add: advanced_def compiler_room_def)
    have "one_error ?c w c1 w1 = one_error c w c1 w1" by (rule one_error_cong) simp_all
    with go(2) have err: "one_error c w c1 w1" by (simp add: advanced_def)
    have bound: "tokens_left c1 < parse_fuel c"
      using room by (simp add: tokens_left_def parse_fuel_def)
    have "parsed_ok s c1 w1 (mset (live (memory w)))
      (res_bind (compiler_parse_precedence (parse_fuel c) PREC_ASSIGNMENT c1 w1) (\<lambda>(ast, c, w).
       res_bind (compiler_consume c TOKEN_EOF ''Expected end of expression.'' w) (\<lambda>(c, w).
         Inr (ast, c, w))))"
    proof (rule parser.parse_bind [OF c1 bound], simp, simp only: prod.case)
      fix node c2 w2
      assume 2: "went s c1 w1 c2 w2" "mset (live (memory w2)) = node_blocks node + mset (live (memory w1))"
        "tree_ok c2 node"
      then have c2: "ready s c2" by (simp add: went_def)
      show "parsed_ok s c2 w2 (mset (live (memory w)))
         (res_bind (compiler_consume c2 TOKEN_EOF ''Expected end of expression.'' w2) (\<lambda>(c, w).
           Inr (node, c, w)))"
      proof (rule moved_ok_bind [OF consume_moved_ok [OF c2]], simp only: prod.case)
        fix c3 w3
        assume 3: "went s c2 w2 c3 w3" "memory w3 = memory w2"
        then have "ready s c3" by (simp add: went_def)
        with 2 3 mem show "parsed_ok s c3 w3 (mset (live (memory w))) (Inr (node, c3, w3))"
          by (simp add: parsed_ok_def went_refl went_tree_ok)
      qed
    qed
    moreover have "parse_program c w =
      (res_bind (compiler_parse_precedence (parse_fuel c) PREC_ASSIGNMENT c1 w1) (\<lambda>(ast, c, w).
       res_bind (compiler_consume c TOKEN_EOF ''Expected end of expression.'' w) (\<lambda>(c, w).
         Inr (ast, c, w))))"
      using go(1) by (simp add: parse_program_def compiler_parse_expression_def Let_def)
    ultimately show ?thesis
      using err mem
      by (auto simp: parsed_ok_def went_def intro: one_error_trans split: sum.splits)
  qed
qed

subsection \<open>The statements behind\<close>

lemma finish_fresh:
  assumes node: "node_fresh node" and live: "mset (live (memory w)) = node_blocks node + F"
  obtains out1 out2 err h where
    "finish_program (node, c, w) =
       Inr (\<not> is_error c, out1 @ out2, c, w\<lparr>memory := h, errors := errors w @ err\<rparr>)"
    "ast_node_print node True = Inr out1" "ast_node_print (node_annotate node) True = Inr out2"
    "err = [] \<longleftrightarrow> node_kind_of node \<noteq> None" "mset (live h) = F"
proof -
  from fresh_complete(1) [OF node] have complete: "node_complete node" .
  have complete': "node_complete (node_annotate node)" using complete by (simp add: annotate_complete)
  from complete tree_print(1) obtain out1 where out1: "ast_node_print node True = Inr out1" by blast
  from complete' tree_print(1) obtain out2 where out2: "ast_node_print (node_annotate node) True = Inr out2"
    by blast
  from typecheck_correct [OF node] obtain err where
    check: "compiler_typecheck_ast node = Inr (node_kind_of node \<noteq> None, node_annotate node, err)"
    "err = [] \<longleftrightarrow> node_kind_of node \<noteq> None" by blast
  have "mset (live (memory w)) = node_blocks (node_annotate node) + F"
    using live by (simp add: annotate_blocks)
  from tree_free(1) [OF complete' this] obtain h where
    h: "ast_node_free (node_annotate node) (memory w) = Inr h" "mset (live h) = F" by blast
  have "node \<noteq> NULL_NODE" using node by auto
  with out1 out2 check h show thesis
    by (intro that [of out1 out2 err h]) (simp_all add: finish_program_def)
qed

lemma finish_incomplete:
  assumes "\<not> node_complete node"
  shows "finish_program (node, c, w) =
    (if node = NULL_NODE then Inr (\<not> is_error c, [], c, w) else Inl NullDeref)"
proof (cases "ast_node_print node True")
  case (Inl e)
  with tree_print_fault(1) [OF Inl] show ?thesis by (auto simp: finish_program_def)
next
  case (Inr out)
  with tree_print(1) [of node True] assms show ?thesis by auto
qed

subsection \<open>Generating the tree\<close>

text \<open>
  The outcomes of \<open>compiler_generate_ast\<close>: a fault of the parser, a null pointer in the tree
  after a parse error, no tree after a parse error, or a tree that is printed, checked,
  printed with its types and released.
\<close>

lemma generate_ast_cases:
  assumes "has_lexer s c"
  obtains (fault) e where "compiler_generate_ast c w = Inl e" "fault_ok s e"
  | (null) node c' w' where "parse_program c w = Inr (node, c', w')" "is_panic c'"
      "one_error c w c' w'" "\<not> node_complete node" "compiler_generate_ast c w = Inl NullDeref"
  | (empty) c' w' where "parse_program c w = Inr (NULL_NODE, c', w')" "is_panic c'" "one_error c w c' w'"
      "compiler_generate_ast c w = Inr (\<not> is_error c', [], c', w')"
      "mset (live (memory w')) = mset (live (memory w))"
  | (tree) node c' w' out1 out2 err h where "parse_program c w = Inr (node, c', w')" "one_error c w c' w'"
      "node_fresh node" "ast_node_print node True = Inr out1"
      "ast_node_print (node_annotate node) True = Inr out2"
      "err = [] \<longleftrightarrow> node_kind_of node \<noteq> None"
      "compiler_generate_ast c w =
         Inr (\<not> is_error c', out1 @ out2, c', w'\<lparr>memory := h, errors := errors w' @ err\<rparr>)"
      "mset (live h) = mset (live (memory w))"
proof (cases "parse_program c w")
  case (Inl e)
  with parse_program_ok [OF assms, of w] show thesis
    by (intro fault) (simp_all add: compiler_generate_ast_def)
next
  case (Inr x)
  obtain node c' w' where x: "x = (node, c', w')" by (cases x)
  note program = Inr [unfolded x]
  from parse_program_ok [OF assms, of w] program have facts: "one_error c w c' w'" "tree_ok c' node"
    "mset (live (memory w')) = node_blocks node + mset (live (memory w))" by simp_all
  show thesis
  proof (cases "node_complete node")
    case True
    with facts(2) have fresh: "node_fresh node" by (simp add: tree_ok_def)
    from finish_fresh [OF fresh facts(3), of c'] obtain out1 out2 err h where
      "finish_program (node, c', w') =
        Inr (\<not> is_error c', out1 @ out2, c', w'\<lparr>memory := h, errors := errors w' @ err\<rparr>)"
      "ast_node_print node True = Inr out1" "ast_node_print (node_annotate node) True = Inr out2"
      "err = [] \<longleftrightarrow> node_kind_of node \<noteq> None" "mset (live h) = mset (live (memory w))" by blast
    with program facts(1) fresh show thesis
      by (intro tree [of node c' w' out1 out2 err h]) (simp_all add: compiler_generate_ast_def)
  next
    case False
    with facts(2) have panic: "is_panic c'" by (auto simp: tree_ok_def dest: fresh_complete(1))
    show thesis
    proof (cases "node = NULL_NODE")
      case True
      with False program facts panic show thesis
        by (intro empty [of c' w']) (simp_all add: compiler_generate_ast_def finish_incomplete)
    next
      case not_null: False
      with False program facts panic show thesis
        by (intro null [of node c' w']) (simp_all add: compiler_generate_ast_def finish_incomplete)
    qed
  qed
qed

end
