(* ===== verification/Grammar.thy ===== *)
theory Grammar
  imports Compilation
begin

text \<open>
  The grammar of expressions and what the parser makes of it.
\<close>

subsection \<open>Feeding tokens\<close>

text \<open>
  The lexer has exactly \<open>tokens\<close> in front of it, none of them an error, the last one the end
  of the file; with no token left it stands in front of the terminator.
\<close>

inductive supplies :: "string \<Rightarrow> Lexer \<Rightarrow> Token list \<Rightarrow> bool" for s where
  finished: "holds_text (lexer_source lexer) s \<Longrightarrow> reads lexer [NUL] \<Longrightarrow> supplies s lexer []"
| token: "holds_text (lexer_source lexer) s \<Longrightarrow> lexer_scan_token lexer = Inr (t, lexer') \<Longrightarrow> token_type t \<noteq> TOKEN_ERROR
    \<Longrightarrow> supplies s lexer' ts \<Longrightarrow> supplies s lexer (t # ts)"

inductive_cases suppliesE: "supplies s lexer (t # ts)" and supplies_endE: "supplies s lexer []"

lemma terminated_end: "terminated [NUL]"
  by (simp add: terminated_Cons)

lemma scan_at_end:
  assumes "reads lexer [NUL]"
  obtains t lexer' where "lexer_scan_token lexer = Inr (t, lexer')" and "token_type t = TOKEN_EOF"
    and "reads lexer' [NUL]" and "lexer_source lexer' = lexer_source lexer"
proof -
  have skip: "skip_length [NUL] = 0" by (simp add: skip_length.simps [of "_ # _"] is_insignificant_whitespace_def)
  let ?l = "at_lexeme [NUL] (after_skip [NUL] lexer)"
  have "lexer_scan_token lexer = Inr (token_at ?l TOKEN_EOF 0, ?l)"
    using scan_token_reads [OF assms terminated_end] by (simp add: skip lexeme_of_def)
  moreover have "reads ?l [NUL]"
    using reads_after_skip [OF assms terminated_end] by (simp add: skip at_lexeme_def reads_def)
  moreover have "lexer_source ?l = lexer_source lexer" by (simp add: at_lexeme_def after_skip_def Let_def)
  ultimately show thesis using that by (simp add: token_at_def)
qed

lemma scan_eof_reads:
  assumes r: "reads lexer r" and t: "terminated r" and scan: "lexer_scan_token lexer = Inr (token, lexer')"
    and eof: "token_type token = TOKEN_EOF"
  shows "reads lexer' [NUL] \<and> lexer_source lexer' = lexer_source lexer"
proof -
  let ?rest = "drop (skip_length r) r"
  have s: "scanned (at_lexeme ?rest (after_skip r lexer)) (lexeme_of ?rest) = Inr (token, lexer')"
    using scan_token_reads [OF r t] scan by simp
  have rest: "terminated ?rest"
    by (rule terminated_drop [OF t skip_length_less [OF terminated_NUL [OF t]]])
  have nul: "hd ?rest = NUL"
  proof (rule ccontr)
    assume "hd ?rest \<noteq> NUL"
    with s eof lexeme_at_type [OF this] show False
      by (cases "lexeme_at ?rest") (auto simp: lexeme_of_def token_at_def lexer_make_error_token_def)
  qed
  with rest have "?rest = [NUL]" by (cases ?rest) (auto simp: terminated_Cons)
  with s nul reads_after_skip [OF r t] show ?thesis
    by (auto simp: lexeme_of_def at_lexeme_def reads_def after_skip_def Let_def)
qed

lemma delivers_supplies:
  "delivers lexer tokens final \<Longrightarrow> reads lexer r \<Longrightarrow> terminated r \<Longrightarrow> holds_text (lexer_source lexer) s \<Longrightarrow>
    list_all (\<lambda>t. token_type t \<noteq> TOKEN_ERROR) tokens \<Longrightarrow> supplies s lexer tokens"
proof (induction arbitrary: r rule: delivers.induct)
  case (last lexer token final)
  with scan_eof_reads [OF last.prems(1,2) last.hyps] show ?case
    by (intro supplies.token [OF _ last.hyps(1)] supplies.finished) auto
next
  case (more lexer token lexer' tokens final)
  obtain r' where "reads lexer' r'" "terminated r'" "lexer_source lexer' = lexer_source lexer"
    using scan_token_cases [OF more.prems(1-3)] more.hyps(1) by (metis prod.inject sum.distinct(1) sum.inject(2))
  with more show ?case by (intro supplies.intros) auto
qed

text \<open>The compiler has \<open>tokens\<close> in front of it, the first one as its current token.\<close>

fun feeds :: "string \<Rightarrow> Compiler \<Rightarrow> Token list \<Rightarrow> bool" where
  "feeds s c [] \<longleftrightarrow> False"
| "feeds s c (t # ts) \<longleftrightarrow> current c = t \<and> (\<exists>lexer. compiler_lexer c = Some lexer \<and> supplies s lexer ts)"

text \<open>A run that reports nothing and leaves the host as it is.\<close>

definition quiet :: "Compiler \<Rightarrow> process \<Rightarrow> Compiler \<Rightarrow> process \<Rightarrow> bool" where
  "quiet c w c' w' \<longleftrightarrow> is_panic c' = is_panic c \<and> is_error c' = is_error c \<and> errors w' = errors w
     \<and> host_grants (memory w') = host_grants (memory w)"

lemma quiet_trans: "quiet c w c1 w1 \<Longrightarrow> quiet c1 w1 c2 w2 \<Longrightarrow> quiet c w c2 w2"
  by (simp add: quiet_def)

lemma supplies_advance:
  assumes "compiler_lexer c = Some lexer" and "supplies s lexer (t # ts)"
  obtains c' where "compiler_advance c w = Inr (c', w)" and "feeds s c' (t # ts)"
    and "previous c' = current c" and "quiet c w c' w"
proof -
  from assms(2) obtain lexer' where "lexer_scan_token lexer = Inr (t, lexer')" "token_type t \<noteq> TOKEN_ERROR"
    "supplies s lexer' ts" by (rule suppliesE)
  with assms(1) that [of "c\<lparr>previous := current c, compiler_lexer := Some lexer', current := t\<rparr>"] show thesis
    by (simp add: compiler_advance_def compiler_advance_loop.simps Let_def quiet_def)
qed

lemma feeds_advance:
  assumes "feeds s c (t # t' # ts)"
  obtains c' where "compiler_advance c w = Inr (c', w)" and "feeds s c' (t' # ts)"
    and "previous c' = t" and "quiet c w c' w"
  using assms by (auto elim: supplies_advance [where w = w])

lemma feeds_end:
  assumes "feeds s c [t]"
  obtains c' eof where "compiler_advance c w = Inr (c', w)" and "feeds s c' [eof]"
    and "token_type eof = TOKEN_EOF" and "previous c' = t" and "quiet c w c' w"
proof -
  from assms obtain lexer where lexer: "compiler_lexer c = Some lexer" "supplies s lexer []"
    and t: "current c = t" by auto
  then have source: "holds_text (lexer_source lexer) s" and "reads lexer [NUL]" by (auto elim: supplies_endE)
  then obtain eof lexer' where eof: "lexer_scan_token lexer = Inr (eof, lexer')" "token_type eof = TOKEN_EOF"
    "reads lexer' [NUL]" "lexer_source lexer' = lexer_source lexer" by (rule_tac scan_at_end)
  with source have "supplies s lexer (eof # [])" by (auto intro!: supplies.intros)
  from supplies_advance [OF lexer(1) this] that [OF _ _ eof(2)] t show thesis by metis
qed

subsection \<open>Expressions\<close>

datatype expr =
    Int_literal string
  | Real_literal string string
  | Signed ASTOperator expr
  | Operation expr ASTOperator expr
  | Parenthesised expr

definition operator_word :: "ASTOperator \<Rightarrow> string \<times> TokenType" where
  "operator_word operator =
     (case operator of
        OTOR_PLUS \<Rightarrow> (''+'', TOKEN_PLUS)
      | OTOR_MINUS \<Rightarrow> (''-'', TOKEN_MINUS)
      | OTOR_STAR \<Rightarrow> (''*'', TOKEN_STAR)
      | OTOR_SLASH \<Rightarrow> (''/'', TOKEN_SLASH)
      | OTOR_DIV \<Rightarrow> (''|'', TOKEN_DIV)
      | COUNT_OTORS \<Rightarrow> ([], COUNT_TOKENS))"

text \<open>How an expression is spelled: its words with the types of their tokens.\<close>

fun spelling :: "expr \<Rightarrow> (string \<times> TokenType) list" where
  "spelling (Int_literal i) = [(i, TOKEN_LIT_INT)]"
| "spelling (Real_literal i f) = [(i @ CHR ''.'' # f, TOKEN_LIT_REAL)]"
| "spelling (Signed operator e) = operator_word operator # spelling e"
| "spelling (Operation a operator b) = spelling a @ operator_word operator # spelling b"
| "spelling (Parenthesised e) = (''('', TOKEN_LEFT_PAREN) # spelling e @ [('')'', TOKEN_RIGHT_PAREN)]"

text \<open>
  The levels of the grammar: \<open>+\<close> and \<open>-\<close> bind weaker than \<open>*\<close>, \<open>/\<close> and \<open>|\<close>, and these weaker than a
  sign. The operands on the left of an operation may be of its own level, the ones on the right
  may not: operations associate to the left.
\<close>

definition operator_level :: "ASTOperator \<Rightarrow> Precedence" where
  "operator_level operator = (if operator \<in> {OTOR_PLUS, OTOR_MINUS} then PREC_TERM else PREC_FACTOR)"

fun level :: "expr \<Rightarrow> Precedence" where
  "level (Operation a operator b) = operator_level operator"
| "level _ = PREC_UNARY"

definition digits :: "string \<Rightarrow> bool" where
  "digits s \<longleftrightarrow> s \<noteq> [] \<and> list_all is_digit s"

fun grammatical :: "expr \<Rightarrow> bool" where
  "grammatical (Int_literal i) \<longleftrightarrow> digits i"
| "grammatical (Real_literal i f) \<longleftrightarrow> digits i \<and> list_all is_digit f"
| "grammatical (Signed operator e) \<longleftrightarrow>
     operator \<in> {OTOR_PLUS, OTOR_MINUS} \<and> grammatical e \<and> PREC_UNARY \<le> level e"
| "grammatical (Operation a operator b) \<longleftrightarrow>
     operator \<noteq> COUNT_OTORS \<and> grammatical a \<and> grammatical b
     \<and> operator_level operator \<le> level a \<and> operator_level operator < level b"
| "grammatical (Parenthesised e) \<longleftrightarrow> grammatical e"

text \<open>The tree of an expression, whatever the addresses of its nodes are.\<close>

fun is_tree :: "expr \<Rightarrow> ASTNode \<Rightarrow> bool" where
  "is_tree (Int_literal i) node \<longleftrightarrow>
     (\<exists>a. node = AST_NODE_EXPRESSION a
        (AST_EXPR_VALUE make_skard_type_int (make_value_int (c_strtoll i))) 0 0)"
| "is_tree (Real_literal i f) node \<longleftrightarrow>
     (\<exists>a. node = AST_NODE_EXPRESSION a
        (AST_EXPR_VALUE make_skard_type_real (make_value_real (c_strtod (i @ CHR ''.'' # f)))) 0 0)"
| "is_tree (Signed operator e) node \<longleftrightarrow>
     (\<exists>a child. node = AST_NODE_EXPRESSION a (AST_EXPR_UNARY make_skard_type_unknown child operator) 0 0
        \<and> is_tree e child)"
| "is_tree (Operation e1 operator e2) node \<longleftrightarrow>
     (\<exists>a first second. node = AST_NODE_EXPRESSION a
        (AST_EXPR_BINARY make_skard_type_unknown first second operator) 0 0
        \<and> is_tree e1 first \<and> is_tree e2 second)"
| "is_tree (Parenthesised e) node \<longleftrightarrow>
     (\<exists>a child. node = AST_NODE_EXPRESSION a (AST_EXPR_GROUPING make_skard_type_unknown child) 0 0
        \<and> is_tree e child)"

text \<open>A tree and its words determine the expression.\<close>

lemma is_tree_length: "is_tree e node \<Longrightarrow> is_tree e' node \<Longrightarrow> length (spelling e) = length (spelling e')"
proof (induction e arbitrary: e' node)
  case (Operation a operator b)
  from Operation.prems obtain a' b' na nb where e': "e' = Operation a' operator b'"
    and a: "is_tree a na" "is_tree a' na" and b: "is_tree b nb" "is_tree b' nb"
    by (cases e') auto
  from Operation.IH(1) [OF a] Operation.IH(2) [OF b] show ?case by (simp add: e')
next
  case (Signed operator e)
  from Signed.prems obtain x n where e': "e' = Signed operator x" and x: "is_tree e n" "is_tree x n"
    by (cases e') auto
  from Signed.IH [OF x] show ?case by (simp add: e')
next
  case (Parenthesised e)
  from Parenthesised.prems obtain x n where e': "e' = Parenthesised x" and x: "is_tree e n" "is_tree x n"
    by (cases e') auto
  from Parenthesised.IH [OF x] show ?case by (simp add: e')
next
  case (Int_literal i)
  then show ?case by (cases e') auto
next
  case (Real_literal i f)
  then show ?case by (cases e') auto
qed

lemma is_tree_unique:
  "is_tree e node \<Longrightarrow> is_tree e' node \<Longrightarrow> grammatical e \<Longrightarrow> grammatical e' \<Longrightarrow> spelling e = spelling e' \<Longrightarrow> e = e'"
proof (induction e arbitrary: e' node)
  case (Int_literal i)
  then show ?case by (cases e') auto
next
  case (Real_literal i f)
  then obtain i' f' where e': "e' = Real_literal i' f'" by (cases e') auto
  have dot: "CHR ''.'' \<notin> set j" if "digits j" for j
    using that by (auto simp: digits_def list_all_iff is_digit_def less_eq_char_def)
  have "takeWhile (\<lambda>c. c \<noteq> CHR ''.'') (j @ CHR ''.'' # g) = j" if "digits j" for j g
    using dot [OF that] by (simp add: takeWhile_append)
  then have "takeWhile (\<lambda>c. c \<noteq> CHR ''.'') (i @ CHR ''.'' # f) = i" "takeWhile (\<lambda>c. c \<noteq> CHR ''.'') (i' @ CHR ''.'' # f') = i'"
    using Real_literal.prems(3,4) e' by simp_all
  moreover have "i @ CHR ''.'' # f = i' @ CHR ''.'' # f'" using Real_literal.prems(5) e' by simp
  ultimately have "i = i'" by metis
  with Real_literal.prems(5) e' show ?case by simp
next
  case (Signed operator e)
  then show ?case by (cases e') auto
next
  case (Operation a operator b)
  from Operation.prems(1,2) obtain a' b' na nb where e': "e' = Operation a' operator b'"
    and a: "is_tree a na" "is_tree a' na" and b: "is_tree b nb" "is_tree b' nb"
    by (cases e') auto
  have "spelling a = spelling a'" "spelling b = spelling b'"
    using Operation.prems(5) is_tree_length [OF a] by (simp_all add: e')
  with Operation.IH(1) [OF a] Operation.IH(2) [OF b] Operation.prems(3,4) show ?case by (simp add: e')
next
  case (Parenthesised e)
  then show ?case by (cases e') auto
qed

subsection \<open>Literals\<close>

text \<open>
  \<open>strtoll\<close> and \<open>strtod\<close> read a string that goes on behind the word of the token: they read the
  word when no digit and no exponent follows.
\<close>

definition ends_literal :: "char \<Rightarrow> bool" where
  "ends_literal c \<longleftrightarrow> \<not> is_digit c \<and> c \<noteq> CHR ''e'' \<and> c \<noteq> CHR ''E''"

definition ends_word :: "string \<Rightarrow> bool" where
  "ends_word r \<longleftrightarrow> (case r of [] \<Rightarrow> True | c # r \<Rightarrow> ends_literal c)"

lemma not_space_digit: "is_digit c \<Longrightarrow> \<not> is_space c \<and> c \<noteq> CHR ''-'' \<and> c \<noteq> CHR ''+''"
  by (auto simp: is_digit_def is_space_def less_eq_char_def)

lemma takeWhile_digits:
  assumes "list_all is_digit i"
  shows "takeWhile is_digit i = i" and "dropWhile is_digit i = []"
    and "\<not> is_digit c \<Longrightarrow> takeWhile is_digit (i @ c # r) = i"
    and "\<not> is_digit c \<Longrightarrow> dropWhile is_digit (i @ c # r) = c # r"
    and "ends_word u \<Longrightarrow> takeWhile is_digit (i @ u) = i"
    and "ends_word u \<Longrightarrow> dropWhile is_digit (i @ u) = u"
proof -
  show "takeWhile is_digit i = i" "dropWhile is_digit i = []" using assms by (induction i) auto
  show c: "takeWhile is_digit (i @ c # r) = i" "dropWhile is_digit (i @ c # r) = c # r" if "\<not> is_digit c" for c r
    using assms that by (induction i) auto
  show "takeWhile is_digit (i @ u) = i" "dropWhile is_digit (i @ u) = u" if "ends_word u"
    using that c [of "hd u" "tl u"] \<open>takeWhile is_digit i = i\<close> \<open>dropWhile is_digit i = []\<close>
    by (cases u; simp add: ends_word_def ends_literal_def)+
qed

lemma strtoll_ends:
  assumes "digits i" and "ends_word r"
  shows "c_strtoll (i @ r) = c_strtoll i"
proof -
  from assms(1) obtain c i' where i: "i = c # i'" "is_digit c" "list_all is_digit i'"
    by (cases i) (auto simp: digits_def)
  with not_space_digit [OF i(2)] assms(2) show ?thesis
    by (simp add: c_strtoll_def takeWhile_digits)
qed

lemma exponent_ends: "ends_word r \<Longrightarrow> exponent_part r = exponent_part []"
  by (cases r) (auto simp: ends_word_def ends_literal_def exponent_part_def)

lemma strtod_ends:
  assumes "digits i" and "list_all is_digit f" and "ends_word r"
  shows "c_strtod (i @ CHR ''.'' # f @ r) = c_strtod (i @ CHR ''.'' # f)"
proof -
  have dot: "\<not> is_digit (CHR ''.'')" by (simp add: is_digit_def less_eq_char_def)
  have "list_all is_digit i" using assms(1) by (simp add: digits_def)
  with assms(2,3) dot exponent_ends [OF assms(3)] show ?thesis
    by (simp add: c_strtod_def takeWhile_digits)
qed

text \<open>A token of the type of \<open>w\<close> that, where its value is read, stands in front of its text in \<open>s\<close>.\<close>

definition stands :: "string \<Rightarrow> Token \<Rightarrow> string \<times> TokenType \<Rightarrow> bool" where
  "stands s token = (\<lambda>(w, type). token_type token = type
     \<and> (type = TOKEN_LIT_INT \<or> type = TOKEN_LIT_REAL \<longrightarrow>
         (\<exists>i r. token_start token = In_source i \<and> drop i s = w @ r \<and> r \<noteq> [] \<and> ends_word r)))"

lemma stands_type: "stands s t x \<Longrightarrow> token_type t = snd x"
  by (auto simp: stands_def)

lemma supplies_source: "supplies s lexer ts \<Longrightarrow> holds_text (lexer_source lexer) s"
  by (auto elim: supplies.cases)

lemma feeds_c_string:
  assumes "feeds s c ts" and "terminated s" and "stands s t (w, type)" and "NUL \<notin> set w"
    and "type = TOKEN_LIT_INT \<or> type = TOKEN_LIT_REAL"
  obtains r where "token_c_string c t = Inr (w @ r)" and "ends_word r"
proof -
  from assms(1) obtain lexer where lexer: "compiler_lexer c = Some lexer" "holds_text (lexer_source lexer) s"
    by (cases ts) (auto dest: supplies_source)
  from assms(3,5) obtain i r where t: "token_start t = In_source i" and r: "drop i s = w @ r" "r \<noteq> []" "ends_word r"
    by (auto simp: stands_def)
  have "i < length s" using r by (cases "i < length s") auto
  then have "NUL \<in> set (drop i s)" by (rule terminated_NUL [OF terminated_drop [OF assms(2)]])
  have "takeWhile (\<lambda>c. c \<noteq> NUL) (w @ r) = w @ takeWhile (\<lambda>c. c \<noteq> NUL) r"
    using assms(4) by (subst takeWhile_append2) auto
  with read_c_string_text [OF lexer(2) \<open>NUL \<in> set (drop i s)\<close>] r
  have "token_c_string c t = Inr (w @ takeWhile (\<lambda>c. c \<noteq> NUL) r)"
    by (simp add: token_c_string_def t compiler_source_def lexer(1))
  moreover have "ends_word (takeWhile (\<lambda>c. c \<noteq> NUL) r)" using r(3) by (cases r) (auto simp: ends_word_def)
  ultimately show thesis by (rule that)
qed

subsection \<open>Parsing what is spelled\<close>

text \<open>The host grants the 56 bytes of every node.\<close>

definition grants_nodes :: "heap \<Rightarrow> bool" where
  "grants_nodes h \<longleftrightarrow> (\<forall>n. host_grants h n 56)"

lemma grants_nodes_quiet: "quiet c w c' w' \<Longrightarrow> grants_nodes (memory w) \<Longrightarrow> grants_nodes (memory w')"
  by (simp add: quiet_def grants_nodes_def)

lemma node_granted:
  assumes "grants_nodes (memory w)"
  obtains a w' where "in_memory (make_ast_node_expression e) c w = Inr (AST_NODE_EXPRESSION a e 0 0, c, w')"
    and "quiet c w c w'"
proof -
  have "host_grants (memory w) (requests (memory w)) 56" using assms by (simp add: grants_nodes_def)
  then show thesis
    using that by (simp add: in_memory_def make_ast_node_expression_def allocate_def c_malloc_def Let_def
        sizeof_ASTNode_def quiet_def)
qed

text \<open>The precedence the parser gives to a token is at most \<open>p\<close>.\<close>

definition binds :: "Token \<Rightarrow> Precedence \<Rightarrow> bool" where
  "binds t p \<longleftrightarrow> (\<exists>rule. get_parse_rule (token_type t) = Inr rule \<and> rule_precedence rule \<le> p)"

lemma binds_mono: "binds t p \<Longrightarrow> p \<le> q \<Longrightarrow> binds t q"
  by (auto simp: binds_def intro: order_trans)

lemma rule_precedence_le: "get_parse_rule type = Inr rule \<Longrightarrow> rule_precedence rule \<le> PREC_FACTOR"
  by (cases type) (auto simp: get_parse_rule_def less_eq_Precedence_def)

lemma binds_factor: "binds t p \<Longrightarrow> binds t PREC_FACTOR"
  by (auto simp: binds_def intro: rule_precedence_le)

lemma loop_stops:
  assumes "feeds s c (t # ts)" and "binds t q" and "q < p" and "0 < k"
  shows "compiler_infix_loop k parse p node c w = Inr (node, c, w)"
  using assms by (cases k) (auto simp: binds_def)

text \<open>The rules of the tokens expressions are spelled with.\<close>

lemma operator_rule:
  assumes "token_type t = snd (operator_word operator)" and "operator \<noteq> COUNT_OTORS"
  shows "\<exists>prefix_rule. get_parse_rule (token_type t) =
    Inr \<lparr>rule_prefix = prefix_rule, rule_infix = Some Parse_binary, rule_precedence = operator_level operator\<rparr>"
  using assms by (cases operator) (auto simp: operator_word_def operator_level_def get_parse_rule_def Let_def)

lemma level_less: "operator_level operator < level e \<Longrightarrow> next_precedence (operator_level operator) \<le> level e"
  by (cases e; cases operator)
    (auto simp: operator_level_def less_Precedence_def less_eq_Precedence_def split: if_splits)

lemma next_operator_level: "operator_level operator < next_precedence (operator_level operator)"
  by (simp add: operator_level_def less_Precedence_def)

lemma build_binary:
  assumes "token_type (previous c) = snd (operator_word operator)" and "operator \<noteq> COUNT_OTORS"
    and "parse (next_precedence (operator_level operator)) c w = Inr (second, c', w')"
  shows "compiler_parse_binary parse c first w = in_memory (make_ast_node_binary first second operator) c' w'"
  using assms
  by (cases operator)
    (simp_all add: compiler_parse_binary_def operator_word_def operator_level_def get_parse_rule_def Let_def)

lemma build_unary:
  assumes "token_type (previous c) = snd (operator_word operator)" and "operator \<in> {OTOR_PLUS, OTOR_MINUS}"
    and "parse PREC_UNARY c w = Inr (child, c', w')"
  shows "compiler_parse_unary parse c w = in_memory (make_ast_node_unary child operator) c' w'"
  using assms by (auto simp: compiler_parse_unary_def operator_word_def Let_def)

lemma first_advance:
  assumes "feeds s c (t0 # tokens @ t # ts)"
  obtains c' where "compiler_advance c w = Inr (c', w)" and "feeds s c' (tokens @ t # ts)"
    and "previous c' = t0" and "quiet c w c' w"
proof -
  obtain t1 rest where rest: "tokens @ t # ts = t1 # rest" by (cases "tokens @ t # ts") auto
  from feeds_advance [OF assms [unfolded rest]] that rest show thesis by metis
qed

lemma digits_NUL: "list_all is_digit i \<Longrightarrow> NUL \<notin> set i"
  by (auto simp: list_all_iff is_digit_def less_eq_char_def)

text \<open>
  The parser takes the tokens of an expression, builds its tree, reports nothing, and goes on
  with the loop over the operators that may follow.
\<close>

definition parses_to ::
    "string \<Rightarrow> expr \<Rightarrow> nat \<Rightarrow> nat \<Rightarrow> Precedence \<Rightarrow> Compiler \<Rightarrow> process \<Rightarrow> Token list \<Rightarrow> bool" where
  "parses_to s e n len precedence c w ts \<longleftrightarrow>
     (\<exists>k node c' w'. n \<le> k + len \<and> is_tree e node \<and> feeds s c' ts \<and> quiet c w c' w'
        \<and> compiler_parse_precedence (Suc n) precedence c w =
            compiler_infix_loop k (compiler_parse_precedence n) precedence node c' w')"

lemma parses_to_stops:
  assumes "parses_to s e n len precedence c w (t # ts)" and "len < n" and "binds t q" and "q < precedence"
  obtains node c' w' where "compiler_parse_precedence (Suc n) precedence c w = Inr (node, c', w')"
    and "is_tree e node" and "feeds s c' (t # ts)" and "quiet c w c' w'"
proof -
  from assms(1) obtain k node c' w' where k: "n \<le> k + len" and *: "is_tree e node" "feeds s c' (t # ts)"
    "quiet c w c' w'" "compiler_parse_precedence (Suc n) precedence c w =
      compiler_infix_loop k (compiler_parse_precedence n) precedence node c' w'"
    using parses_to_def by blast
  with assms(2) have "0 < k" by simp
  from loop_stops [OF *(2) assms(3,4) this] * that show thesis by simp
qed

lemma parse_literal:
  assumes t0: "stands s t0 (word, type)" and s: "terminated s" and word: "NUL \<notin> set word"
    and type: "type = TOKEN_LIT_INT \<or> type = TOKEN_LIT_REAL"
    and rule: "get_parse_rule type = Inr \<lparr>rule_prefix = Some prefix_rule, rule_infix = None, rule_precedence = PREC_NONE\<rparr>"
    and make: "\<And>c w r. token_c_string c (previous c) = Inr (word @ r) \<Longrightarrow> ends_word r \<Longrightarrow>
      call_prefix prefix_rule (compiler_parse_precedence n) c w = in_memory (make_ast_node_expression x) c w"
    and tree: "\<And>a. is_tree e (AST_NODE_EXPRESSION a x 0 0)"
    and feeds: "feeds s c (t0 # t # ts)" and host: "grants_nodes (memory w)"
  shows "parses_to s e n 1 precedence c w (t # ts)"
proof -
  from feeds_advance [OF feeds, of w] obtain c1 where c1: "compiler_advance c w = Inr (c1, w)"
    "feeds s c1 (t # ts)" "previous c1 = t0" "quiet c w c1 w" .
  obtain r where "token_c_string c1 t0 = Inr (word @ r)" "ends_word r"
    by (rule feeds_c_string [OF c1(2) s t0 word type])
  with make c1(3) have call: "call_prefix prefix_rule (compiler_parse_precedence n) c1 w =
      in_memory (make_ast_node_expression x) c1 w" by simp
  obtain a w' where node: "in_memory (make_ast_node_expression x) c1 w = Inr (AST_NODE_EXPRESSION a x 0 0, c1, w')"
    "quiet c1 w c1 w'" by (rule node_granted [OF host])
  have "token_type t0 = type" using t0 by (simp add: stands_def)
  then have "compiler_parse_precedence (Suc n) precedence c w =
      compiler_infix_loop n (compiler_parse_precedence n) precedence (AST_NODE_EXPRESSION a x 0 0) c1 w'"
    using c1 rule call node by simp
  then show ?thesis
    unfolding parses_to_def using tree c1 node quiet_trans by (metis le_add1)
qed

lemma parse_spelled:
  "grammatical e \<Longrightarrow> list_all2 (stands s) tokens (spelling e) \<Longrightarrow> terminated s \<Longrightarrow>
    feeds s c (tokens @ t # ts) \<Longrightarrow> binds t (level e) \<Longrightarrow> precedence \<le> level e \<Longrightarrow>
    length tokens < n \<Longrightarrow> grants_nodes (memory w) \<Longrightarrow>
    parses_to s e n (length tokens) precedence c w (t # ts)"
proof (induction e arbitrary: tokens c w t ts precedence n)
  case (Int_literal i)
  then obtain t0 where tokens: "tokens = [t0]" and t0: "stands s t0 (i, TOKEN_LIT_INT)"
    by (auto simp: list_all2_Cons2)
  have "parses_to s (Int_literal i) n 1 precedence c w (t # ts)"
    by (rule parse_literal [OF t0 Int_literal.prems(3), where prefix_rule = Parse_int
          and x = "AST_EXPR_VALUE make_skard_type_int (make_value_int (c_strtoll i))"])
      (use Int_literal.prems tokens strtoll_ends in \<open>simp_all add: digits_def digits_NUL get_parse_rule_def
        Let_def call_prefix_def compiler_parse_int_def make_ast_node_value_def [abs_def]\<close>)
  with tokens show ?case by simp
next
  case (Real_literal i f)
  let ?w = "i @ CHR ''.'' # f"
  from Real_literal.prems obtain t0 where tokens: "tokens = [t0]" and t0: "stands s t0 (?w, TOKEN_LIT_REAL)"
    by (auto simp: list_all2_Cons2)
  have "parses_to s (Real_literal i f) n 1 precedence c w (t # ts)"
    by (rule parse_literal [OF t0 Real_literal.prems(3), where prefix_rule = Parse_real
          and x = "AST_EXPR_VALUE make_skard_type_real (make_value_real (c_strtod ?w))"])
      (use Real_literal.prems tokens strtod_ends in \<open>simp_all add: digits_def digits_NUL get_parse_rule_def
        Let_def call_prefix_def compiler_parse_real_def make_ast_node_value_def [abs_def]\<close>)
  with tokens show ?case by simp
next
  case (Signed operator e)
  then have op: "operator \<in> {OTOR_PLUS, OTOR_MINUS}" and e: "grammatical e" "PREC_UNARY \<le> level e"
    by simp_all
  from Signed.prems(2) obtain t0 tokens' where tokens: "tokens = t0 # tokens'"
    and t0: "token_type t0 = snd (operator_word operator)"
    and tokens': "list_all2 (stands s) tokens' (spelling e)"
    by (auto simp: list_all2_Cons2 dest: stands_type)
  have "feeds s c (t0 # tokens' @ t # ts)" using Signed.prems(4) tokens by simp
  then obtain c1 where
    c1: "compiler_advance c w = Inr (c1, w)" "feeds s c1 (tokens' @ t # ts)" "previous c1 = t0" "quiet c w c1 w"
    by (rule first_advance)
  obtain n' where n: "n = Suc n'" using Signed.prems(7) by (cases n) auto
  have t: "binds t PREC_FACTOR" by (rule binds_factor [OF Signed.prems(5)])
  have "parses_to s e n' (length tokens') PREC_UNARY c1 w (t # ts)"
    by (rule Signed.IH [OF e(1) tokens' Signed.prems(3) c1(2) binds_mono [OF t] e(2)])
      (use e(2) Signed.prems(7,8) tokens n in \<open>auto simp: less_eq_Precedence_def\<close>)
  moreover have "length tokens' < n'" using tokens n Signed.prems(7) by simp
  moreover have "PREC_FACTOR < PREC_UNARY" by (simp add: less_Precedence_def)
  ultimately obtain child c2 w2 where
    child: "compiler_parse_precedence n PREC_UNARY c1 w = Inr (child, c2, w2)" "is_tree e child"
      "feeds s c2 (t # ts)" "quiet c1 w c2 w2"
    unfolding n by (rule parses_to_stops [OF _ _ t])
  obtain a w3 where node: "in_memory (make_ast_node_unary child operator) c2 w2 = Inr
      (AST_NODE_EXPRESSION a (AST_EXPR_UNARY make_skard_type_unknown child operator) 0 0, c2, w3)"
    "quiet c2 w2 c2 w3"
    unfolding make_ast_node_unary_def [abs_def]
    by (rule node_granted [OF grants_nodes_quiet [OF quiet_trans [OF c1(4) child(4)] Signed.prems(8)]])
  have "get_parse_rule (token_type t0) =
      Inr \<lparr>rule_prefix = Some Parse_unary, rule_infix = Some Parse_binary, rule_precedence = PREC_TERM\<rparr>"
    using t0 op by (auto simp: operator_word_def get_parse_rule_def Let_def)
  moreover have "call_prefix Parse_unary (compiler_parse_precedence n) c1 w =
      in_memory (make_ast_node_unary child operator) c2 w2"
    using build_unary [where parse = "compiler_parse_precedence n", OF _ op child(1)] t0 c1(3)
    by (simp add: call_prefix_def)
  ultimately have "compiler_parse_precedence (Suc n) precedence c w = compiler_infix_loop n
      (compiler_parse_precedence n) precedence
      (AST_NODE_EXPRESSION a (AST_EXPR_UNARY make_skard_type_unknown child operator) 0 0) c2 w3"
    using c1(1,3) node(1) by simp
  moreover have "quiet c w c2 w3" by (rule quiet_trans [OF quiet_trans [OF c1(4) child(4)] node(2)])
  moreover have "is_tree (Signed operator e)
      (AST_NODE_EXPRESSION a (AST_EXPR_UNARY make_skard_type_unknown child operator) 0 0)"
    using child(2) by simp
  ultimately show ?case unfolding parses_to_def using child(3) le_add1 by blast
next
  case (Operation e1 operator e2)
  then have op: "operator \<noteq> COUNT_OTORS" and e1: "grammatical e1" "operator_level operator \<le> level e1"
    and e2: "grammatical e2" "operator_level operator < level e2" by simp_all
  from Operation.prems(2) obtain ta t0 tb where tokens: "tokens = ta @ t0 # tb"
    and ta: "list_all2 (stands s) ta (spelling e1)" and tb: "list_all2 (stands s) tb (spelling e2)"
    and t0: "token_type t0 = snd (operator_word operator)"
    by (auto simp: list_all2_append2 list_all2_Cons2 dest: stands_type)
  from operator_rule [OF t0 op] obtain prefix_rule where rule: "get_parse_rule (token_type t0) =
    Inr \<lparr>rule_prefix = prefix_rule, rule_infix = Some Parse_binary, rule_precedence = operator_level operator\<rparr>"
    by blast
  have t: "binds t (operator_level operator)" using Operation.prems(5) by simp
  have prec: "precedence \<le> operator_level operator" using Operation.prems(6) by simp
  have "parses_to s e1 n (length ta) precedence c w (t0 # (tb @ t # ts))"
    by (rule Operation.IH(1) [OF e1(1) ta Operation.prems(3) _ _ order_trans [OF prec e1(2)]])
      (use Operation.prems(4,7,8) tokens rule e1(2) in \<open>auto simp: binds_def\<close>)
  then obtain ka first c1 w1 where ka: "n \<le> ka + length ta" and first: "is_tree e1 first"
    and c1: "feeds s c1 (t0 # (tb @ t # ts))" "quiet c w c1 w1"
    and run1: "compiler_parse_precedence (Suc n) precedence c w =
      compiler_infix_loop ka (compiler_parse_precedence n) precedence first c1 w1"
    using parses_to_def by blast
  have len: "length tokens = Suc (length ta + length tb)" using tokens by simp
  obtain k where k: "ka = Suc k" using ka len Operation.prems(7) by (cases ka) auto
  obtain n' where n: "n = Suc n'" using Operation.prems(7) by (cases n) auto
  obtain c2 where
    c2: "compiler_advance c1 w1 = Inr (c2, w1)" "feeds s c2 (tb @ t # ts)" "previous c2 = t0" "quiet c1 w1 c2 w1"
    by (rule first_advance [OF c1(1)])
  have host2: "grants_nodes (memory w1)" by (rule grants_nodes_quiet [OF c1(2) Operation.prems(8)])
  have "parses_to s e2 n' (length tb) (next_precedence (operator_level operator)) c2 w1 (t # ts)"
    by (rule Operation.IH(2) [OF e2(1) tb Operation.prems(3) c2(2) binds_mono [OF t less_imp_le [OF e2(2)]]
          level_less [OF e2(2)] _ host2])
      (use Operation.prems(7) len n in simp)
  moreover have "length tb < n'" using len n Operation.prems(7) by simp
  ultimately obtain second c3 w3 where
    second: "compiler_parse_precedence n (next_precedence (operator_level operator)) c2 w1 = Inr (second, c3, w3)"
      "is_tree e2 second" "feeds s c3 (t # ts)" "quiet c2 w1 c3 w3"
    unfolding n by (rule parses_to_stops [OF _ _ t next_operator_level])
  have calm: "quiet c w c3 w3" by (rule quiet_trans [OF quiet_trans [OF c1(2) c2(4)] second(4)])
  obtain a w4 where node: "in_memory (make_ast_node_binary first second operator) c3 w3 = Inr
      (AST_NODE_EXPRESSION a (AST_EXPR_BINARY make_skard_type_unknown first second operator) 0 0, c3, w4)"
    "quiet c3 w3 c3 w4"
    unfolding make_ast_node_binary_def [abs_def]
    by (rule node_granted [OF grants_nodes_quiet [OF calm Operation.prems(8)]])
  have "token_type (previous c2) = snd (operator_word operator)" using c2(3) t0 by simp
  from build_binary [where parse = "compiler_parse_precedence n", OF this op second(1)] have
    "compiler_parse_binary (compiler_parse_precedence n) c2 first w1 =
      in_memory (make_ast_node_binary first second operator) c3 w3" .
  with run1 k rule prec c1(1) c2(1,3) node(1)
  have "compiler_parse_precedence (Suc n) precedence c w = compiler_infix_loop k
      (compiler_parse_precedence n) precedence
      (AST_NODE_EXPRESSION a (AST_EXPR_BINARY make_skard_type_unknown first second operator) 0 0) c3 w4"
    by simp
  moreover have "quiet c w c3 w4" by (rule quiet_trans [OF calm node(2)])
  moreover have "is_tree (Operation e1 operator e2)
      (AST_NODE_EXPRESSION a (AST_EXPR_BINARY make_skard_type_unknown first second operator) 0 0)"
    using first second(2) by simp
  moreover have "n \<le> k + length tokens" using ka k len by simp
  ultimately show ?case unfolding parses_to_def using second(3) by blast
next
  case (Parenthesised e)
  from Parenthesised.prems(2) obtain t0 tokens' t1 where tokens: "tokens = t0 # tokens' @ [t1]"
    and places: "stands s t0 (''('', TOKEN_LEFT_PAREN)" "stands s t1 ('')'', TOKEN_RIGHT_PAREN)"
    and tokens': "list_all2 (stands s) tokens' (spelling e)"
    by (auto simp: list_all2_Cons2 list_all2_append2)
  then have types: "token_type t0 = TOKEN_LEFT_PAREN" "token_type t1 = TOKEN_RIGHT_PAREN"
    using stands_type by fastforce+
  have "feeds s c (t0 # tokens' @ t1 # t # ts)" using Parenthesised.prems(4) tokens by simp
  then obtain c1 where c1: "compiler_advance c w = Inr (c1, w)" "feeds s c1 (tokens' @ t1 # t # ts)"
      "previous c1 = t0" "quiet c w c1 w"
    by (rule first_advance)
  obtain n' where n: "n = Suc n'" using Parenthesised.prems(7) by (cases n) auto
  have t1: "binds t1 PREC_NONE" using types(2) by (simp add: binds_def get_parse_rule_def Let_def)
  have least: "PREC_NONE \<le> level e" "PREC_ASSIGNMENT \<le> level e"
    by (cases e; simp add: less_eq_Precedence_def operator_level_def)+
  have "parses_to s e n' (length tokens') PREC_ASSIGNMENT c1 w (t1 # t # ts)"
    by (rule Parenthesised.IH [OF _ tokens' Parenthesised.prems(3) _ binds_mono [OF t1 least(1)] least(2)])
      (use Parenthesised.prems(1,7,8) tokens n c1(2) in simp_all)
  moreover have "length tokens' < n'" using tokens n Parenthesised.prems(7) by simp
  moreover have "PREC_NONE < PREC_ASSIGNMENT" by (simp add: less_Precedence_def)
  ultimately obtain child c2 w2 where
    child: "compiler_parse_precedence n PREC_ASSIGNMENT c1 w = Inr (child, c2, w2)" "is_tree e child"
      "feeds s c2 (t1 # t # ts)" "quiet c1 w c2 w2"
    unfolding n by (rule parses_to_stops [OF _ _ t1])
  from feeds_advance [OF child(3), of w2] obtain c3 where
    c3: "compiler_advance c2 w2 = Inr (c3, w2)" "feeds s c3 (t # ts)" "quiet c2 w2 c3 w2" by metis
  have calm: "quiet c w c3 w2" by (rule quiet_trans [OF quiet_trans [OF c1(4) child(4)] c3(3)])
  obtain a w3 where node: "in_memory (make_ast_node_grouping child) c3 w2 = Inr
      (AST_NODE_EXPRESSION a (AST_EXPR_GROUPING make_skard_type_unknown child) 0 0, c3, w3)"
    "quiet c3 w2 c3 w3"
    unfolding make_ast_node_grouping_def [abs_def]
    by (rule node_granted [OF grants_nodes_quiet [OF calm Parenthesised.prems(8)]])
  have "call_prefix Parse_grouping (compiler_parse_precedence n) c1 w =
      in_memory (make_ast_node_grouping child) c3 w2"
    using child(1,3) types(2) c3(1)
    by (simp add: call_prefix_def compiler_parse_grouping_def compiler_parse_expression_def compiler_consume_def
        del: compiler_parse_precedence.simps)
  then have "compiler_parse_precedence (Suc n) precedence c w = compiler_infix_loop n
      (compiler_parse_precedence n) precedence
      (AST_NODE_EXPRESSION a (AST_EXPR_GROUPING make_skard_type_unknown child) 0 0) c3 w3"
    using c1(1,3) types(1) node(1) by (simp add: get_parse_rule_def Let_def)
  moreover have "quiet c w c3 w3" by (rule quiet_trans [OF calm node(2)])
  moreover have "is_tree (Parenthesised e)
      (AST_NODE_EXPRESSION a (AST_EXPR_GROUPING make_skard_type_unknown child) 0 0)"
    using child(2) by simp
  ultimately show ?case unfolding parses_to_def using c3(2) le_add1 by blast
qed

end
