(* ===== verification/Expressions.thy ===== *)
theory Expressions
  imports Grammar
begin

text \<open>
  Whole source texts. The words of a source are its tokens' texts and types; a source whose words
  are those of an expression is parsed to the tree of the expression, whatever white space and
  comments are between them, and compiled with the kind of its value. Two operators have no
  function to call, and an operator without an operand leaves a null pointer in the tree.
\<close>

subsection \<open>The words of a source\<close>

definition token_words :: "string \<Rightarrow> Token list \<Rightarrow> (string \<times> TokenType) list" where
  "token_words s tokens = map (\<lambda>t. (token_text s t, token_type t)) tokens"

text \<open>No letter can follow a literal when the next token is not a word.\<close>

definition wordless :: "TokenType \<Rightarrow> bool" where
  "wordless type \<longleftrightarrow> type \<notin> insert TOKEN_IDENTIFIER (snd ` set keyword_table)"

lemma word_type_wordless: "\<not> wordless (word_type w)"
  by (auto simp: word_type_def wordless_def split: option.splits dest!: map_of_SomeD intro: rev_image_eqI)

lemma spelling_wordless:
  "x \<in> set (spelling e) \<Longrightarrow> grammatical e \<Longrightarrow> wordless (snd x) \<and> snd x \<noteq> TOKEN_ERROR"
  by (induction e) (auto simp: wordless_def keyword_table_def operator_word_def split: ASTOperator.splits)

lemma stream_wordless:
  assumes t: "terminated t" and stream: "token_stream line position t = Some (token # tokens)"
    and alpha: "is_alpha (hd t)"
  shows "\<not> wordless (token_type token)"
proof -
  obtain c r where c: "t = c # r" using terminated_NUL [OF t] by (cases t) auto
  with alpha have alpha: "is_alpha c" by simp
  then have skip: "skip_length t = 0"
    unfolding c by (subst skip_length.simps) (auto simp: is_insignificant_whitespace_def is_alpha_def less_eq_char_def)
  have "\<not> is_digit c \<and> c \<noteq> NUL \<and> c \<noteq> newline" using alpha by (auto simp: is_alpha_def is_digit_def less_eq_char_def)
  with alpha c have "lexeme_of t = Lexeme (word_type (takeWhile is_word t)) (length (takeWhile is_word t))"
    by (simp add: lexeme_of_def lexeme_at_def Let_def)
  moreover obtain line' where "token = stream_token line' position (lexeme_of t)"
    using stream skip by (subst (asm) token_stream.simps) (auto simp: Let_def split: if_splits)
  ultimately show ?thesis using word_type_wordless by (simp add: stream_token_def)
qed

lemma takeWhile_hd: "takeWhile p t = u \<Longrightarrow> drop (length u) t = c # r \<Longrightarrow> \<not> p c"
  by (metis dropWhile_eq_drop hd_dropWhile list.distinct(1) list.sel(1))

lemma number_at_ends:
  assumes "number_at t = Lexeme type n" and "drop n t = c # r"
  shows "\<not> is_digit c"
proof -
  let ?i = "takeWhile is_digit t"
  let ?r = "drop (length ?i + 1) t"
  consider "n = length ?i" | "n = length ?i + 1 + length (takeWhile is_digit ?r)"
    using assms(1) unfolding number_at_def Let_def by (simp split: if_splits)
  then show ?thesis
  proof cases
    case 1
    with assms(2) have "drop (length ?i) t = c # r" by simp
    then show ?thesis by (rule takeWhile_hd [OF refl])
  next
    case 2
    with assms(2) have "drop (length (takeWhile is_digit ?r)) ?r = c # r" by (simp add: add_ac)
    then show ?thesis by (rule takeWhile_hd [OF refl])
  qed
qed

lemma literal_lexeme:
  assumes "lexeme_at t = Lexeme type n" and "type = TOKEN_LIT_INT \<or> type = TOKEN_LIT_REAL"
  shows "number_at t = Lexeme type n"
proof -
  have "\<forall>x \<in> set operator_table. snd x \<noteq> TOKEN_LIT_INT \<and> snd x \<noteq> TOKEN_LIT_REAL" by (simp add: operator_table_def)
  then have "map_of operator_table w \<noteq> Some TOKEN_LIT_INT" "map_of operator_table w \<noteq> Some TOKEN_LIT_REAL" for w
    by (auto dest!: map_of_SomeD)
  then have operators: "operator_at t \<noteq> Some (TOKEN_LIT_INT, n)" "operator_at t \<noteq> Some (TOKEN_LIT_REAL, n)" for n
    by (auto simp: operator_at_def split: option.splits)
  have "wordless TOKEN_LIT_INT" "wordless TOKEN_LIT_REAL" by (simp_all add: wordless_def keyword_table_def)
  then have words: "word_type w \<noteq> TOKEN_LIT_INT" "word_type w \<noteq> TOKEN_LIT_REAL" for w
    using word_type_wordless [of w] by metis+
  show ?thesis
    using assms operators words by (auto simp: lexeme_at_def Let_def split: if_splits option.splits)
qed

lemma stream_stands:
  "terminated t \<Longrightarrow> drop position s = t \<Longrightarrow> length s < 2 ^ 63 \<Longrightarrow>
    token_stream line position t = Some (tokens @ token # rest) \<Longrightarrow>
    list_all (\<lambda>t. wordless (token_type t)) (tokens @ [token]) \<Longrightarrow>
    list_all2 (stands s) tokens (token_words s tokens)"
proof (induction tokens arbitrary: t position line)
  case Nil
  then show ?case by (simp add: token_words_def)
next
  case (Cons first tokens)
  let ?rest = "drop (skip_length t) t" and ?here = "position + skip_length t"
  note stream_cases = token_stream_terminated [of t line position]
  from Cons.prems(1) show ?case
  proof (cases rule: stream_cases)
    case eof
    with Cons.prems(4) show ?thesis by simp
  next
    case runaway
    with Cons.prems(4) show ?thesis by simp
  next
    case (lexeme n line')
    with Cons.prems(4) have first: "first = stream_token line' ?here (lexeme_at ?rest)"
      and stream: "token_stream line' (?here + n) (drop n ?rest) = Some (tokens @ token # rest)" by auto
    have drop: "drop ?here s = ?rest" "drop (?here + n) s = drop n ?rest"
      using Cons.prems(2) by (metis add.commute drop_drop)+
    have "list_all2 (stands s) tokens (token_words s tokens)"
      by (rule Cons.IH [OF lexeme(5) drop(2) Cons.prems(3) stream]) (use Cons.prems(5) in simp)
    moreover have "stands s first (token_text s first, token_type first)"
    proof (cases "token_type first = TOKEN_LIT_INT \<or> token_type first = TOKEN_LIT_REAL")
      case literal: True
      then obtain type where lex: "lexeme_at ?rest = Lexeme type n"
        and type: "type = TOKEN_LIT_INT \<or> type = TOKEN_LIT_REAL"
        using first lexeme(2,3) by (cases "lexeme_at ?rest") (auto simp: stream_token_def)
      obtain c r where c: "drop n ?rest = c # r" using terminated_NUL [OF lexeme(5)] by (cases "drop n ?rest") auto
      have "\<not> is_digit c" by (rule number_at_ends [OF literal_lexeme [OF lex type] c])
      moreover have "\<not> is_alpha c"
      proof
        assume "is_alpha c"
        moreover obtain x xs where x: "tokens @ token # rest = x # xs" "wordless (token_type x)"
          using Cons.prems(5) by (cases tokens) auto
        ultimately show False using stream_wordless [OF lexeme(5) stream [unfolded x(1)]] c by simp
      qed
      ultimately have "ends_word (c # r)" by (auto simp: ends_word_def ends_literal_def is_alpha_def less_eq_char_def)
      moreover have "token_text s first = take n ?rest"
      proof -
        have "n < length ?rest" using c by (cases "n < length ?rest") auto
        moreover have "length t \<le> length s" using Cons.prems(2) by (metis diff_le_self length_drop)
        ultimately have "n < 2 ^ 64" using Cons.prems(3) by simp
        with first lex drop(1) show ?thesis
          by (simp add: stream_token_def token_text_def unat_size_of_nat)
      qed
      moreover have "drop ?here s = take n ?rest @ c # r" using drop(1) c by (metis append_take_drop_id)
      moreover have "token_start first = In_source ?here" using first lex by (simp add: stream_token_def)
      ultimately show ?thesis by (simp add: stands_def)
    qed (simp add: stands_def)
    ultimately show ?thesis by (simp add: token_words_def)
  qed
qed

text \<open>The compiler in front of a source whose tokens are \<open>tokens\<close> and the end of the file.\<close>

lemma stream_eof:
  assumes "source_ok p s" and "token_stream 1 0 s = Some (tokens @ [eof])"
  shows "token_type eof = TOKEN_EOF"
proof -
  have "terminated s" "0 + length s < 2 ^ 63" using assms(1) by (simp_all add: source_ok_def)
  from token_stream_in_order [OF this assms(2)] show ?thesis by simp
qed

lemma stream_feeds:
  assumes source: "source_ok p s" and stream: "token_stream 1 0 s = Some (tokens @ [eof])"
    and good: "list_all (\<lambda>t. token_type t \<noteq> TOKEN_ERROR) tokens"
    and lexer: "compiler_lexer c = Some (lexer_init p)"
  obtains c' where "compiler_advance c w = Inr (c', w)" and "feeds s c' (tokens @ [eof])"
    and "length tokens < compiler_room c" and "quiet c w c' w"
proof -
  from source_delivers [OF source stream] obtain final where
    d: "delivers (lexer_init p) (tokens @ [eof]) final" by blast
  have "length tokens < compiler_room c" using delivers_room [OF d] lexer by (simp add: compiler_room_def)
  moreover have "list_all (\<lambda>t. token_type t \<noteq> TOKEN_ERROR) (tokens @ [eof])"
    using good stream_eof [OF source stream] by simp
  with delivers_supplies [OF d source_ok_reads [OF source]] source
  have "supplies s (lexer_init p) (tokens @ [eof])" by (simp add: source_ok_def)
  moreover obtain t0 rest where rest: "tokens @ [eof] = t0 # rest" by (cases "tokens @ [eof]") auto
  ultimately show thesis
    using supplies_advance [OF lexer, of s t0 rest w] that by (metis rest)
qed

lemma stream_expression:
  assumes e: "grammatical e" and source: "source_ok p s"
    and stream: "token_stream 1 0 s = Some (tokens @ token # rest)"
    and words: "token_words s tokens = spelling e" and behind: "wordless (token_type token)"
  shows "list_all2 (stands s) tokens (spelling e)" and "list_all (\<lambda>t. token_type t \<noteq> TOKEN_ERROR) tokens"
proof -
  have types: "list_all (\<lambda>t. wordless (token_type t) \<and> token_type t \<noteq> TOKEN_ERROR) tokens"
  proof -
    have "list_all (\<lambda>x. wordless (snd x) \<and> snd x \<noteq> TOKEN_ERROR) (token_words s tokens)"
      unfolding words using spelling_wordless [OF _ e] by (auto simp: list_all_iff)
    then show ?thesis by (simp add: token_words_def list_all_iff)
  qed
  then show "list_all (\<lambda>t. token_type t \<noteq> TOKEN_ERROR) tokens" by (simp add: list_all_iff)
  show "list_all2 (stands s) tokens (spelling e)"
    unfolding words [symmetric]
    by (rule stream_stands [OF _ _ _ stream]) (use types source behind in \<open>auto simp: source_ok_def list_all_iff\<close>)
qed

lemma least_level: "PREC_ASSIGNMENT \<le> level e" "PREC_TERM \<le> level e"
  by (cases e; simp add: less_eq_Precedence_def operator_level_def)+

lemma wordless_types [simp]:
  "wordless TOKEN_EOF" "wordless TOKEN_PLUS_ASSIGN" "wordless TOKEN_RIGHT_ARROW"
  "operator \<noteq> COUNT_OTORS \<Longrightarrow> wordless (snd (operator_word operator))"
  by (auto simp: wordless_def keyword_table_def operator_word_def split: ASTOperator.splits)

text \<open>A source that spells an expression.\<close>

lemma parse_program_spelled:
  assumes e: "grammatical e" and source: "source_ok p s"
    and stream: "token_stream 1 0 s = Some (tokens @ [eof])" and words: "token_words s tokens = spelling e"
    and lexer: "compiler_lexer c = Some (lexer_init p)" and host: "grants_nodes (memory w)"
  obtains node c' w' where "parse_program c w = Inr (node, c', w')" and "is_tree e node" and "quiet c w c' w'"
proof -
  note eof = stream_eof [OF source stream]
  from eof have "wordless (token_type eof)" by simp
  note stands = stream_expression [OF e source stream words this]
  obtain c1 where c1: "compiler_advance c w = Inr (c1, w)" "feeds s c1 (tokens @ [eof])"
    and len: "length tokens < compiler_room c" and quiet: "quiet c w c1 w"
    by (rule stream_feeds [OF source stream stands(2) lexer])
  obtain n where n: "parse_fuel c = Suc n" by (simp add: parse_fuel_def)
  with len have "length tokens < n" by (simp add: parse_fuel_def)
  have none: "binds eof PREC_NONE" using eof by (simp add: binds_def get_parse_rule_def Let_def)
  have "PREC_NONE \<le> level e" by (cases e) (simp_all add: less_eq_Precedence_def operator_level_def)
  then have "parses_to s e n (length tokens) PREC_ASSIGNMENT c1 w (eof # [])"
    using parse_spelled [OF e stands(1) _ c1(2) binds_mono [OF none] least_level(1) \<open>length tokens < n\<close> host]
      source by (simp add: source_ok_def)
  then obtain node c2 w2 where
    tree: "compiler_parse_precedence (parse_fuel c) PREC_ASSIGNMENT c1 w = Inr (node, c2, w2)" "is_tree e node"
      "feeds s c2 (eof # [])" "quiet c1 w c2 w2"
    unfolding n by (rule parses_to_stops [OF _ \<open>length tokens < n\<close> none]) (simp add: less_Precedence_def)
  obtain c3 where c3: "compiler_advance c2 w2 = Inr (c3, w2)" "quiet c2 w2 c3 w2"
    using feeds_end [OF tree(3)] by metis
  have "parse_program c w = Inr (node, c3, w2)"
    using c1(1) tree(1,3) c3(1) eof
    by (simp add: parse_program_def compiler_parse_expression_def compiler_consume_def Let_def)
  with tree(2) quiet_trans [OF quiet_trans [OF quiet tree(4)] c3(2)] show thesis by (intro that)
qed

text \<open>The two operators whose rule has a precedence and no function.\<close>

lemma parse_program_null_rule:
  assumes e: "grammatical e" and source: "source_ok p s"
    and stream: "token_stream 1 0 s = Some (te @ t # ts)" and words: "token_words s te = spelling e"
    and t: "token_type t = TOKEN_PLUS_ASSIGN \<or> token_type t = TOKEN_RIGHT_ARROW"
    and good: "list_all (\<lambda>t. token_type t \<noteq> TOKEN_ERROR) ts"
    and lexer: "compiler_lexer c = Some (lexer_init p)" and host: "grants_nodes (memory w)"
  shows "parse_program c w = Inl NullCall"
proof -
  from t have "wordless (token_type t)" by auto
  note stands = stream_expression [OF e source stream words this]
  have "ts \<noteq> []"
  proof
    assume "ts = []"
    with stream_eof [OF source, of te t] stream t show False by auto
  qed
  then obtain ts' eof where ts: "ts = ts' @ [eof]" by (cases ts rule: rev_cases) auto
  have stream': "token_stream 1 0 s = Some ((te @ t # ts') @ [eof])" using stream ts by simp
  have "list_all (\<lambda>t. token_type t \<noteq> TOKEN_ERROR) (te @ t # ts')" using stands(2) good t ts by auto
  then obtain c1 where c1: "compiler_advance c w = Inr (c1, w)" "feeds s c1 ((te @ t # ts') @ [eof])"
    and len: "length (te @ t # ts') < compiler_room c" and "quiet c w c1 w"
    by (rule stream_feeds [OF source stream' _ lexer])
  have rule: "\<exists>prefix_rule. get_parse_rule (token_type t) =
      Inr \<lparr>rule_prefix = prefix_rule, rule_infix = None, rule_precedence = PREC_TERM\<rparr>"
    using t by (auto simp: get_parse_rule_def Let_def)
  then have bind: "binds t PREC_TERM" by (auto simp: binds_def)
  obtain n where n: "parse_fuel c = Suc n" by (simp add: parse_fuel_def)
  with len have le: "length te < n" by (simp add: parse_fuel_def)
  have feeds: "feeds s c1 (te @ t # ts)" using c1(2) ts by simp
  have "parses_to s e n (length te) PREC_ASSIGNMENT c1 w (t # ts)"
    using parse_spelled [OF e stands(1) _ feeds binds_mono [OF bind least_level(2)] least_level(1) le host]
      source by (simp add: source_ok_def)
  then obtain k node c2 w2 where k: "n \<le> k + length te" and c2: "feeds s c2 (t # ts)"
    and run: "compiler_parse_precedence (Suc n) PREC_ASSIGNMENT c1 w =
            compiler_infix_loop k (compiler_parse_precedence n) PREC_ASSIGNMENT node c2 w2"
    using parses_to_def by blast
  obtain k' where k': "k = Suc k'" using k le by (cases k) auto
  obtain t1 rest where rest: "ts = t1 # rest" using ts by (cases "ts' @ [eof]") auto
  from feeds_advance [OF c2 [unfolded rest], of w2] obtain c3 where
    "compiler_advance c2 w2 = Inr (c3, w2)" "previous c3 = t" by metis
  with rule c2 run k' have "compiler_parse_precedence (parse_fuel c) PREC_ASSIGNMENT c1 w = Inl NullCall"
    unfolding n by (auto simp: less_eq_Precedence_def)
  with c1(1) show ?thesis
    by (simp add: parse_program_def compiler_parse_expression_def)
qed

text \<open>
  An operator at the end: the operand that is missing is reported, and the tree that is
  returned has a null pointer in its place.
\<close>

lemma parse_missing:
  assumes "feeds s c [eof]" and "token_type eof = TOKEN_EOF" and "\<not> is_panic c"
  obtains c' w' eof' where "compiler_parse_precedence (Suc n) precedence c w = Inr (NULL_NODE, c', w')"
    and "feeds s c' [eof']" and "token_type eof' = TOKEN_EOF" and "memory w' = memory w"
proof -
  obtain c1 eof' where c1: "compiler_advance c w = Inr (c1, w)" "feeds s c1 [eof']" "token_type eof' = TOKEN_EOF"
    "previous c1 = eof" "quiet c w c1 w"
    by (rule feeds_end [OF assms(1)])
  with assms(2,3) that show thesis
    by (simp add: get_parse_rule_def Let_def compiler_parse_error_at_previous_def compiler_parse_error_def
        error_at_def quiet_def)
qed

lemma parse_program_missing_operand:
  assumes e: "grammatical e" and op: "operator \<noteq> COUNT_OTORS" "operator_level operator \<le> level e"
    and source: "source_ok p s" and stream: "token_stream 1 0 s = Some (te @ [t, eof])"
    and words: "token_words s te = spelling e" and t: "token_type t = snd (operator_word operator)"
    and lexer: "compiler_lexer c = Some (lexer_init p)" and calm: "\<not> is_panic c" and host: "grants_nodes (memory w)"
  obtains node c' w' where "parse_program c w = Inr (node, c', w')" and "node \<noteq> NULL_NODE"
    and "\<not> node_complete node"
proof -
  have stream': "token_stream 1 0 s = Some ((te @ [t]) @ [eof])" using stream by simp
  note eof = stream_eof [OF source stream']
  from t op(1) have "wordless (token_type t)" by simp
  note stands = stream_expression [OF e source stream words this]
  have "token_type t \<noteq> TOKEN_ERROR" using t by (cases operator) (simp_all add: operator_word_def)
  with stands(2) have "list_all (\<lambda>t. token_type t \<noteq> TOKEN_ERROR) (te @ [t])" by simp
  then obtain c1 where c1: "compiler_advance c w = Inr (c1, w)" "feeds s c1 ((te @ [t]) @ [eof])"
    and len: "length (te @ [t]) < compiler_room c" and quiet1: "quiet c w c1 w"
    by (rule stream_feeds [OF source stream' _ lexer])
  from operator_rule [OF t op(1)] obtain prefix_rule where rule: "get_parse_rule (token_type t) =
    Inr \<lparr>rule_prefix = prefix_rule, rule_infix = Some Parse_binary, rule_precedence = operator_level operator\<rparr>"
    by blast
  then have bind: "binds t (level e)" using op(2) by (auto simp: binds_def)
  obtain n where n: "parse_fuel c = Suc n" by (simp add: parse_fuel_def)
  with len have le: "Suc (length te) < n" by (simp add: parse_fuel_def)
  then obtain n' where n': "n = Suc n'" by (cases n) auto
  have feeds: "feeds s c1 (te @ t # [eof])" using c1(2) by simp
  have "parses_to s e n (length te) PREC_ASSIGNMENT c1 w (t # [eof])"
    using parse_spelled [OF e stands(1) _ feeds bind least_level(1) _ host] le
      source by (simp add: source_ok_def)
  then obtain k first c2 w2 where k: "n \<le> k + length te" and c2: "feeds s c2 (t # [eof])" and quiet2: "quiet c1 w c2 w2"
    and run: "compiler_parse_precedence (Suc n) PREC_ASSIGNMENT c1 w =
            compiler_infix_loop k (compiler_parse_precedence n) PREC_ASSIGNMENT first c2 w2"
    using parses_to_def by blast
  obtain k' where k': "k = Suc (Suc k')" using k le by (cases k; cases "k - 1") auto
  obtain c3 where c3: "compiler_advance c2 w2 = Inr (c3, w2)" "feeds s c3 [eof]" "previous c3 = t" "quiet c2 w2 c3 w2"
    by (rule feeds_advance [OF c2])
  have quiet3: "quiet c w c3 w2" by (rule quiet_trans [OF quiet_trans [OF quiet1 quiet2] c3(4)])
  have "\<not> is_panic c3" using calm quiet3 by (simp add: quiet_def)
  then obtain c4 w4 eof' where second: "compiler_parse_precedence n (next_precedence (operator_level operator)) c3 w2 =
      Inr (NULL_NODE, c4, w4)" and c4: "feeds s c4 [eof']" and eof': "token_type eof' = TOKEN_EOF"
      and memory: "memory w4 = memory w2"
    unfolding n' by (rule parse_missing [OF c3(2) eof])
  have "grants_nodes (memory w4)" using grants_nodes_quiet [OF quiet3 host] memory by simp
  then obtain a w5 where node: "in_memory (make_ast_node_binary first NULL_NODE operator) c4 w4 = Inr
      (AST_NODE_EXPRESSION a (AST_EXPR_BINARY make_skard_type_unknown first NULL_NODE operator) 0 0, c4, w5)"
    unfolding make_ast_node_binary_def [abs_def] by (rule node_granted)
  have "token_type (previous c3) = snd (operator_word operator)" using c3(3) t by simp
  from build_binary [where parse = "compiler_parse_precedence n", OF this op(1) second] have
    build: "compiler_parse_binary (compiler_parse_precedence n) c3 first w2 =
      in_memory (make_ast_node_binary first NULL_NODE operator) c4 w4" .
  have "binds eof' PREC_NONE" using eof' by (simp add: binds_def get_parse_rule_def Let_def)
  from loop_stops [OF c4 this, of PREC_ASSIGNMENT "Suc k'"] have
    stop: "compiler_infix_loop (Suc k') (compiler_parse_precedence n) PREC_ASSIGNMENT node c4 w5 = Inr (node, c4, w5)"
    for node by (simp add: less_Precedence_def)
  have "PREC_ASSIGNMENT \<le> operator_level operator" by (simp add: operator_level_def less_eq_Precedence_def)
  moreover have "current c2 = t" using c2 by simp
  ultimately have step: "compiler_infix_loop (Suc (Suc k')) (compiler_parse_precedence n) PREC_ASSIGNMENT first c2 w2 =
      Inr (AST_NODE_EXPRESSION a (AST_EXPR_BINARY make_skard_type_unknown first NULL_NODE operator) 0 0, c4, w5)"
    using rule c3(1,3) build node stop
    by (subst compiler_infix_loop.simps(2)) (simp del: compiler_parse_precedence.simps compiler_infix_loop.simps(2))
  then have parse: "compiler_parse_precedence (parse_fuel c) PREC_ASSIGNMENT c1 w = Inr
      (AST_NODE_EXPRESSION a (AST_EXPR_BINARY make_skard_type_unknown first NULL_NODE operator) 0 0, c4, w5)"
    by (simp only: n run k')
  obtain c6 where "compiler_advance c4 w5 = Inr (c6, w5)" using feeds_end [OF c4] by metis
  with c1(1) parse c4 eof' that show thesis
    by (simp add: parse_program_def compiler_parse_expression_def compiler_consume_def Let_def)
qed

subsection \<open>The kind of an expression\<close>

fun expr_kind :: "expr \<Rightarrow> TypeKind option" where
  "expr_kind (Int_literal i) = Some TYPE_INT"
| "expr_kind (Real_literal i f) = Some TYPE_REAL"
| "expr_kind (Signed operator e) = Option.bind (expr_kind e) (unary_kind operator)"
| "expr_kind (Operation e1 operator e2) =
     Option.bind (expr_kind e1) (\<lambda>k1. Option.bind (expr_kind e2) (binary_kind operator k1))"
| "expr_kind (Parenthesised e) = expr_kind e"

lemma tree_kind: "is_tree e node \<Longrightarrow> node_kind_of node = expr_kind e"
  by (induction e arbitrary: node)
    (auto simp: make_skard_type_int_def make_skard_type_real_def make_skard_type_simple_def numeric_def)

lemma tree_fresh: "grammatical e \<Longrightarrow> is_tree e node \<Longrightarrow> node_fresh node"
  by (induction e arbitrary: node)
    (auto simp: make_skard_type_int_def make_skard_type_real_def make_skard_type_unknown_def
      make_skard_type_simple_def make_value_int_def make_value_real_def numeric_def)

text \<open>
  An expression has no kind exactly when it, or one of its parts, divides by \<open>|\<close> with an operand
  that is not an integer.
\<close>

lemma expr_kind_numeric: "expr_kind e = Some k \<Longrightarrow> numeric k"
  by (induction e arbitrary: k)
    (auto simp: unary_kind_def binary_kind_def numeric_def split: bind_splits if_splits)

fun integral :: "expr \<Rightarrow> bool" where
  "integral (Int_literal i) \<longleftrightarrow> True"
| "integral (Real_literal i f) \<longleftrightarrow> False"
| "integral (Signed operator e) \<longleftrightarrow> integral e"
| "integral (Operation e1 operator e2) \<longleftrightarrow> operator \<noteq> OTOR_SLASH \<and> integral e1 \<and> integral e2"
| "integral (Parenthesised e) \<longleftrightarrow> integral e"

fun div_ok :: "expr \<Rightarrow> bool" where
  "div_ok (Signed operator e) \<longleftrightarrow> div_ok e"
| "div_ok (Operation e1 operator e2) \<longleftrightarrow>
     div_ok e1 \<and> div_ok e2 \<and> (operator = OTOR_DIV \<longrightarrow> integral e1 \<and> integral e2)"
| "div_ok (Parenthesised e) \<longleftrightarrow> div_ok e"
| "div_ok _ \<longleftrightarrow> True"

lemma expr_kind_correct:
  "grammatical e \<Longrightarrow> expr_kind e = (if div_ok e then Some (if integral e then TYPE_INT else TYPE_REAL) else None)"
proof (induction e)
  case (Operation e1 operator e2)
  then show ?case by (cases operator) (auto simp: binary_kind_def numeric_def)
qed (auto simp: unary_kind_def numeric_def)

subsection \<open>Compiling\<close>

text \<open>A source that spells an expression is parsed without a report, its tree printed, checked and released.\<close>

lemma generate_expression:
  assumes e: "grammatical e" and source: "source_ok p s"
    and stream: "token_stream 1 0 s = Some (tokens @ [eof])" and words: "token_words s tokens = spelling e"
    and lexer: "compiler_lexer c = Some (lexer_init p)" and host: "grants_nodes (memory w)"
  obtains node c' h out1 out2 err where "is_tree e node"
    and "compiler_generate_ast c w = Inr (\<not> is_error c, out1 @ out2, c',
      w\<lparr>memory := h, errors := errors w @ err\<rparr>)"
    and "ast_node_print node True = Inr out1" and "ast_node_print (node_annotate node) True = Inr out2"
    and "err = [] \<longleftrightarrow> div_ok e" and "is_error c' = is_error c" and "mset (live h) = mset (live (memory w))"
proof -
  obtain node c1 w1 where program: "parse_program c w = Inr (node, c1, w1)" and tree: "is_tree e node"
    and quiet: "quiet c w c1 w1"
    by (rule parse_program_spelled [OF e source stream words lexer host])
  note fresh = tree_fresh [OF e tree]
  from parse_program_ok [OF source_ok_has_lexer [OF source lexer], of w] program
  have live: "mset (live (memory w1)) = node_blocks node + mset (live (memory w))" by simp
  from finish_fresh [OF fresh this, of c1] obtain out1 out2 err h where
    finish: "finish_program (node, c1, w1) =
       Inr (\<not> is_error c1, out1 @ out2, c1, w1\<lparr>memory := h, errors := errors w1 @ err\<rparr>)"
    "ast_node_print node True = Inr out1" "ast_node_print (node_annotate node) True = Inr out2"
    "err = [] \<longleftrightarrow> node_kind_of node \<noteq> None" "mset (live h) = mset (live (memory w))" by blast
  have "w1\<lparr>memory := h, errors := errors w1 @ err\<rparr> = w\<lparr>memory := h, errors := errors w @ err\<rparr>"
    using quiet by (simp add: quiet_def)
  moreover have "is_error c1 = is_error c" using quiet by (simp add: quiet_def)
  ultimately have "compiler_generate_ast c w = Inr (\<not> is_error c, out1 @ out2, c1,
      w\<lparr>memory := h, errors := errors w @ err\<rparr>)"
    using program finish(1) by (simp add: compiler_generate_ast_def)
  moreover have "err = [] \<longleftrightarrow> div_ok e"
    using finish(4) tree_kind [OF tree] expr_kind_correct [OF e] by simp
  ultimately show thesis using that tree finish(2,3,5) \<open>is_error c1 = is_error c\<close> by blast
qed

text \<open>What \<open>compiler_compile_source\<close> makes of a source with the tokens \<open>tokens\<close>: their rows, then the tree.\<close>

lemma compile_source_rows:
  assumes "source_ok p s" and "token_stream 1 0 s = Some tokens"
  shows "compiler_compile_source c p w =
    res_bind (compiler_generate_ast (c\<lparr>compiler_lexer := Some (lexer_init p)\<rparr>) w) (\<lambda>(_, out, c, w).
      Inr (False, concat (map (token_row s) tokens) @ out, c, w))"
  using source_print [OF assms(1)] assms(2) by (auto simp: compiler_compile_source_def)

lemma compile_expression:
  assumes "grammatical e" and "source_ok p s"
    and "token_stream 1 0 s = Some (tokens @ [eof])" and "token_words s tokens = spelling e"
    and "grants_nodes (memory w)"
  obtains node out1 out2 err c' h where "is_tree e node"
    and "compiler_compile_source c p w = Inr (False, concat (map (token_row s) (tokens @ [eof])) @ out1 @ out2,
        c', w\<lparr>memory := h, errors := errors w @ err\<rparr>)"
    and "ast_node_print node True = Inr out1" and "ast_node_print (node_annotate node) True = Inr out2"
    and "err = [] \<longleftrightarrow> div_ok e" and "is_error c' = is_error c" and "mset (live h) = mset (live (memory w))"
proof -
  let ?c = "c\<lparr>compiler_lexer := Some (lexer_init p)\<rparr>"
  have "compiler_lexer ?c = Some (lexer_init p)" by simp
  from generate_expression [OF assms(1-4) this assms(5)] obtain node c' h out1 out2 err where
    "is_tree e node" "compiler_generate_ast ?c w = Inr (\<not> is_error ?c, out1 @ out2, c',
      w\<lparr>memory := h, errors := errors w @ err\<rparr>)"
    "ast_node_print node True = Inr out1" "ast_node_print (node_annotate node) True = Inr out2"
    "err = [] \<longleftrightarrow> div_ok e" "is_error c' = is_error ?c" "mset (live h) = mset (live (memory w))" .
  with compile_source_rows [OF assms(2,3), of c w] show thesis
    by (intro that [of node out1 out2 c' err h]) simp_all
qed

subsection \<open>Expressions as source texts\<close>

definition expression_words :: "expr \<Rightarrow> string list" where
  "expression_words e = map fst (spelling e)"

definition expression_source :: "expr \<Rightarrow> string" where
  "expression_source e = spaced (expression_words e)"

lemma spells_table: "map_of operator_table w = Some type \<Longrightarrow> spells w type"
  by (simp add: spells_def)

lemma operator_spells: "operator \<noteq> COUNT_OTORS \<Longrightarrow> spells (fst (operator_word operator)) (snd (operator_word operator))"
  by (cases operator; simp; intro spells_table) (simp_all add: operator_word_def operator_table_def)

lemma expression_spells:
  "grammatical e \<Longrightarrow> list_all2 spells (expression_words e) (map snd (spelling e))"
proof (induction e)
  case (Real_literal i f)
  then show ?case by (auto simp: expression_words_def digits_def spells_def)
next
  case (Signed operator e)
  then show ?case using operator_spells [of operator] by (auto simp: expression_words_def)
next
  case (Operation e1 operator e2)
  then show ?case using operator_spells [of operator] by (auto simp: expression_words_def intro: list_all2_appendI)
next
  case (Parenthesised e)
  then show ?case
    using spells_table [of "''(''" TOKEN_LEFT_PAREN] spells_table [of "'')''" TOKEN_RIGHT_PAREN]
    by (auto simp: expression_words_def operator_table_def intro!: list_all2_appendI)
qed (simp_all add: expression_words_def digits_def spells_def)

lemma expression_source_ok:
  "grammatical e \<Longrightarrow> holds_text p (expression_source e) \<Longrightarrow> length (expression_source e) < 2 ^ 31 \<Longrightarrow>
    source_ok p (expression_source e)"
  using spaced_terminated [OF expression_spells] by (simp add: source_ok_def expression_source_def)

lemma map_pairs: "map f xs = map fst ys \<Longrightarrow> map g xs = map snd ys \<Longrightarrow> map (\<lambda>x. (f x, g x)) xs = ys"
  by (induction xs arbitrary: ys) auto

text \<open>The words between blanks are the words of the source.\<close>

lemma expression_stream:
  assumes e: "grammatical e" and small: "length (expression_source e) < 2 ^ 31"
  obtains tokens eof where "token_stream 1 0 (expression_source e) = Some (tokens @ [eof])"
    and "token_words (expression_source e) tokens = spelling e"
proof -
  let ?s = "expression_source e"
  have zip: "zip (expression_words e) (map snd (spelling e)) = spelling e"
    by (simp add: expression_words_def zip_map_fst_snd)
  obtain tokens eof where stream: "token_stream 1 0 ?s = Some (tokens @ [eof])"
    and placed: "list_all2 (placed ?s) tokens (spelling e)"
    using token_stream_spaced [OF expression_spells [OF e], of 0 ?s 1] zip by (auto simp: expression_source_def)
  have "map token_type tokens = map snd (spelling e) \<and> map (token_text ?s) tokens = expression_words e"
    by (rule placed_texts) (use placed zip small in \<open>simp_all add: expression_words_def\<close>)
  then have "token_words ?s tokens = spelling e"
    unfolding token_words_def expression_words_def by (intro map_pairs) simp_all
  with stream show thesis by (rule that)
qed

end
