(* ===== verification/Entry_Points.thy ===== *)
theory Entry_Points
  imports Expressions Assembly
begin

text \<open>
  The entry points on any input: reading a file, compiling a source or a file, and the program
  \<^verbatim>\<open>main.c\<close> with its chunk.
\<close>

subsection \<open>Reading a file\<close>

lemma unat_minus_one: "unat (- 1 :: size_t) = 2 ^ 64 - 1"
  by (simp add: unsigned_minus_1_eq_mask mask_eq_exp_minus_1)

lemma write_last: "buffer_write (Block a (resize (Suc (length xs)) (map Some xs))) (length xs) x =
    Inr (Block a (map Some (xs @ [x])))"
  by (simp add: buffer_write_def resize_def list_update_append)

lemma read_file_cases:
  assumes "fs filename = Some file"
  obtains (refused) "read_file fs filename h = Inl (error_not_enough_memory_to_read filename)"
      "\<not> host_grants h (requests h) (unat (file_tell file + 1))"
  | (short) "read_file fs filename h = Inl (error_could_not_read filename)"
      "length (file_data file) < unat (file_tell file)"
  | (overflow) "read_file fs filename h = Inl OutOfBounds" "file_tell file = - 1" "file_data file \<noteq> []"
  | (content) a h' where
      "read_file fs filename h = Inr (Block a (map Some (take (unat (file_tell file)) (file_data file) @ [NUL])), h')"
      "mset (live h') = add_mset a (mset (live h))" "host_grants h' = host_grants h"
      "unat (file_tell file) \<le> length (file_data file)"
proof -
  let ?n = "file_tell file" and ?got = "take (unat (file_tell file)) (file_data file)"
  have succ: "unat (?n + 1) = (if ?n = - 1 then 0 else Suc (unat ?n))"
    using unatSuc [of ?n] by (auto simp: add.commute eq_neg_iff_add_eq_0)
  show thesis
  proof (cases "host_grants h (requests h) (unat (?n + 1))")
    case False
    with refused assms show thesis by (simp add: read_file_def c_malloc_def Let_def)
  next
    case granted: True
    show thesis
    proof (cases "?n = - 1")
      case True
      with unat_minus_one True granted assms short overflow show thesis
        by (cases "file_data file = []") (auto simp: read_file_def c_malloc_def Let_def)
    next
      case False
      show thesis
      proof (cases "length (file_data file) < unat ?n")
        case True
        with False granted assms short succ show thesis by (simp add: read_file_def c_malloc_def Let_def)
      next
        case enough: False
        then have len: "length ?got = unat ?n" by simp
        have "buffer_write (Block (Suc (requests h)) (resize (Suc (unat ?n)) (map Some ?got))) (length ?got) NUL =
            Inr (Block (Suc (requests h)) (map Some (?got @ [NUL])))"
          using write_last [of "Suc (requests h)" ?got NUL] by (simp only: len)
        with False granted assms succ len enough content show thesis
          by (simp add: read_file_def c_malloc_def Let_def)
      qed
    qed
  qed
qed

subsection \<open>Compiling\<close>

text \<open>The faults of a compilation of the source \<open>s\<close>.\<close>

definition compile_fault :: "string \<Rightarrow> fault \<Rightarrow> bool" where
  "compile_fault s e \<longleftrightarrow> fault_ok s e \<or> e = NullDeref"

lemma compile_source_ok:
  assumes "source_ok p s"
  shows "case compiler_compile_source c p w of
      Inl e \<Rightarrow> compile_fault s e
    | Inr (result, out, c', w') \<Rightarrow> \<not> result \<and> mset (live (memory w')) = mset (live (memory w))"
proof (cases "token_stream 1 0 s")
  case None
  with source_print [OF assms] token_stream_None [OF _ None] assms show ?thesis
    by (simp add: compiler_compile_source_def compile_fault_def fault_ok_def source_ok_def)
next
  case (Some tokens)
  let ?c = "c\<lparr>compiler_lexer := Some (lexer_init p)\<rparr>"
  note run = compile_source_rows [OF assms Some, of c w]
  have "has_lexer s ?c" by (rule source_ok_has_lexer [OF assms]) simp
  then show ?thesis
    by (cases rule: generate_ast_cases [where w = w]) (simp_all add: run compile_fault_def)
qed

lemma compile_file_ok:
  assumes "fs filename = Some file" and "unat (file_tell file) < 2 ^ 31 - 1"
    and "NUL \<notin> set (take (unat (file_tell file)) (file_data file))"
  shows "case compiler_compile_file fs c filename w of
      Inl e \<Rightarrow> e = error_not_enough_memory_to_read filename \<or> e = error_could_not_read filename
        \<or> compile_fault (take (unat (file_tell file)) (file_data file) @ [NUL]) e
    | Inr (result, out, c', w') \<Rightarrow> \<not> result \<and> mset (live (memory w')) = mset (live (memory w))"
  using assms(1)
proof (cases rule: read_file_cases [where h = "memory w"])
  case overflow
  with assms(2) show ?thesis by (simp add: unat_minus_one)
next
  case (content a h')
  let ?s = "take (unat (file_tell file)) (file_data file) @ [NUL]" and ?w = "w\<lparr>memory := h'\<rparr>"
  let ?p = "Block a (map Some ?s)"
  have "source_ok ?p ?s"
    using assms(2,3) content(4) by (simp add: source_ok_def holds_text_def terminated_def)
  from compile_source_ok [OF this, where c = c and w = ?w] show ?thesis
  proof (cases "compiler_compile_source c ?p ?w")
    case (Inl e)
    with \<open>case compiler_compile_source c ?p ?w of Inl e \<Rightarrow> _ e | Inr x \<Rightarrow> _ x\<close> content(1) show ?thesis
      by (simp add: compiler_compile_file_def)
  next
    case (Inr x)
    obtain result out c' w' where x: "x = (result, out, c', w')" by (cases x)
    from \<open>case compiler_compile_source c ?p ?w of Inl e \<Rightarrow> _ e | Inr x \<Rightarrow> _ x\<close> Inr x content(2)
    have "\<not> result" and "mset (live (memory w')) = add_mset a (mset (live (memory w)))" by simp_all
    with c_free_live [OF this(2)] content(1) Inr x show ?thesis
      by (auto simp: compiler_compile_file_def free_source_def)
  qed
qed (simp_all add: compiler_compile_file_def)

subsection \<open>The chunk of the program\<close>

lemma main_chunk_dump: "main_chunk = dump_program main_constant"
  by (rule ext) (simp add: main_chunk_def dump_program_def)

text \<open>What \<^verbatim>\<open>main.c\<close> prints for its chunk.\<close>

definition main_text :: string where
  "main_text =
     ''DISASSEMBLING CHUNK: TEST'' @ [newline] @
     ''OFFSET |  LINE  | COLUMN |      OPCODE      | OPERAND | VALUE'' @ [newline] @ disassemble_rule @
     ''000000 | 000000 | 000000 | OP_CONSTANT      | 0000000 | 0.420000'' @ [newline] @
     ''000002 | 000001 | 000000 | OP_DUMP          | '' @ [newline] @
     ''000003 | 000002 | 000000 | OP_RETURN        | '' @ [newline] @ disassemble_rule @
     ''RUNNING...'' @ [newline] @ ''0.420000'' @ [newline]"

text \<open>The constant as a bit pattern, and its text.\<close>

lemma main_constant_bits: "c_strtod ''0.42'' = 0x3FDAE147AE147AE1"
proof -
  have "ratio_log2 42 100 = - 2" by (simp add: ratio_log2_def ge_power_def ilog2_eval Let_def)
  then have "binary64_of_ratio 42 100 = 0x3FDAE147AE147AE1"
    by (simp add: binary64_of_ratio_def ratio_unit_def scaled_round_def round_half_even_def Let_def)
  then show ?thesis
    by (simp add: c_strtod_def is_digit_def less_eq_char_def exponent_part_def digits_value_def digit_value_def Let_def)
qed

lemma print_main_constant: "print_value main_constant = ''0.420000''"
proof -
  let ?w = "0x3FDAE147AE147AE1 :: 64 word"
  have e: "b64_exponent ?w = 1021" by (simp add: b64_exponent_def)
  have f: "\<not> b64_negative ?w" "b64_significand ?w = 7566047373982433" "b64_unit ?w = - 54"
    by (simp_all add: b64_negative_def b64_significand_def e b64_fraction_def b64_unit_def)
  have "round_half_even (7566047373982433 * 10 ^ 6) (2 ^ 54) = 420000" by (simp add: round_half_even_def)
  moreover have "show_nat 0 = ''0''" "show_nat 420000 = ''420000''" by (simp_all add: show_nat_eval digit_char_def)
  ultimately have "print_lf ?w = ''0.420000''" by (simp add: print_lf_def e f pad_zero_def)
  then show ?thesis by (simp add: main_constant_def main_constant_bits make_value_real_def print_value_def)
qed

lemma dump_listing:
  assumes "chunk_constants chunk = [v]" and "debug_list (debug_info chunk) = [(0, 0), (0, 0), (1, 0), (2, 0)]"
  shows "listing chunk 0 [Load 0, Dump, Return] =
      ''000000 | 000000 | 000000 | OP_CONSTANT      | 0000000 | '' @ print_value v @ [newline] @
      ''000002 | 000001 | 000000 | OP_DUMP          | '' @ [newline] @
      ''000003 | 000002 | 000000 | OP_RETURN        | '' @ [newline]"
proof -
  have load: "encode_instr (Load 0) = [2, 0]" by (simp add: encode_constant_def)
  show ?thesis
    using load by (simp add: line_text_def instr_text_def assms print_instruction_name_def
        eval del: encode_instr.simps(3))
qed

lemma main_vm_text:
  assumes sane: "sane h"
  shows "case main_vm vm h of
      Inl e \<Rightarrow> e = error_not_enough_memory \<and> \<not> generous h
    | Inr (text, h') \<Rightarrow> text = main_text \<and> mset (live h') = mset (live h)
        \<and> host_grants h' = host_grants h"
proof -
  let ?vm = "vm_init vm"
  from sane refl [of "mset (live h)"] show ?thesis
  proof (cases rule: dump_program_cases [where v = main_constant])
    case refused
    then show ?thesis by (simp add: main_vm_def main_chunk_dump Let_def)
  next
    case (written chunk h1)
    have host: "sane h1" "generous h1 = generous h" using written(5) sane by (simp_all add: sane_def generous_def)
    have "exec [main_constant] [Load 0, Dump, Return] [] = Some ([main_constant], [])" by simp
    with vm_run_refines [OF written(2) _ host(1), of ?vm "chunk_blocks chunk + mset (live h)"] written(3,6)
    obtain ip where run: "run_post True (chunk_blocks chunk + mset (live h)) (?vm\<lparr>vm_chunk := chunk, vm_ip := 0\<rparr>) h1
        ip INTERPRETER_OK ([main_constant], []) (vm_run False ?vm chunk h1)"
      by (auto simp: vm_init_def)
    note printed = disassemble_chunk_text [OF written(2), of "''TEST''"] dump_listing [OF written(3,4)]
    show ?thesis
    proof (cases "vm_run False ?vm chunk h1")
      case (Inl e)
      with run host(2) written(1) printed show ?thesis
        by (simp add: run_post_def main_vm_def main_chunk_dump Let_def)
    next
      case (Inr x)
      obtain out res vm2 h2 where x: "x = (out, res, vm2, h2)" by (cases x)
      from run Inr x have out: "out = dump_text [main_constant]"
        and h2: "host_grants h2 = host_grants h1" "mset (live h2) = stack_blocks (vm_stack vm2) + (chunk_blocks chunk + mset (live h))"
        by (simp_all add: run_post_def)
      from h2(2) have "mset (live h2) = chunk_blocks chunk + (stack_blocks (vm_stack vm2) + mset (live h))"
        by (simp add: ac_simps)
      from chunk_free_ok [OF this] obtain h3 where h3: "chunk_free chunk h2 = Inr (chunk_init, h3)"
        "mset (live h3) = stack_blocks (vm_stack vm2) + mset (live h)" "host_grants h3 = host_grants h2" by blast
      from vm_free_ok [OF h3(2)] obtain vm4 h4 where "vm_free vm2 h3 = Inr (vm4, h4)"
        "mset (live h4) = mset (live h)" "host_grants h4 = host_grants h3" by blast
      with h3 h2(1) written(1,5) printed Inr x out show ?thesis
        by (simp add: main_vm_def main_chunk_dump Let_def main_text_def dump_text_def print_main_constant)
    qed
  qed
qed

subsection \<open>The program on a file with an expression\<close>

lemma compile_file_expression:
  assumes "fs filename = Some file" and "file_tell file = word_of_nat (length (file_data file))"
    and "generous (memory w)" and "grammatical e"
    and "terminated (file_data file @ [NUL])" and "length (file_data file) < 2 ^ 31 - 1"
    and "token_stream 1 0 (file_data file @ [NUL]) = Some (tokens @ [eof])"
    and "token_words (file_data file @ [NUL]) tokens = spelling e"
  obtains node out1 out2 err c' h where "is_tree e node"
    and "compiler_compile_file fs c filename w = Inr (False,
      concat (map (token_row (file_data file @ [NUL])) (tokens @ [eof])) @ out1 @ out2,
      c', w\<lparr>memory := h, errors := errors w @ err\<rparr>)"
    and "ast_node_print node True = Inr out1" and "ast_node_print (node_annotate node) True = Inr out2"
    and "err = [] \<longleftrightarrow> div_ok e" and "mset (live h) = mset (live (memory w))"
proof -
  have tell: "unat (file_tell file) = length (file_data file)"
    using assms(2,6) by (simp add: unat_size_of_nat)
  let ?s = "file_data file @ [NUL]"
  from assms(1) show thesis
  proof (cases rule: read_file_cases [where h = "memory w"])
    case refused
    moreover have "unat (file_tell file + 1) < 2 ^ 63"
      using tell assms(6) unatSuc [of "file_tell file"] by (cases "1 + file_tell file = 0") (simp_all add: add.commute)
    ultimately show ?thesis using assms(3) by (simp add: generous_def)
  next
    case short
    with tell show ?thesis by simp
  next
    case overflow
    with tell assms(6) unat_minus_one show ?thesis by simp
  next
    case (content a h')
    let ?w = "w\<lparr>memory := h'\<rparr>" and ?p = "Block a (map Some ?s)"
    have "source_ok ?p ?s" using assms(5,6) by (simp add: source_ok_def holds_text_def)
    moreover have "grants_nodes (memory ?w)"
      using assms(3) content(3) by (simp add: grants_nodes_def generous_def)
    ultimately obtain node out1 out2 err c' h where run: "is_tree e node"
      "compiler_compile_source c ?p ?w = Inr (False, concat (map (token_row ?s) (tokens @ [eof])) @ out1 @ out2,
          c', ?w\<lparr>memory := h, errors := errors ?w @ err\<rparr>)"
      "ast_node_print node True = Inr out1" "ast_node_print (node_annotate node) True = Inr out2"
      "err = [] \<longleftrightarrow> div_ok e" "mset (live h) = mset (live (memory ?w))"
      by (rule compile_expression [OF assms(4) _ assms(7,8), of ?p ?w c])
    have "mset (live h) = add_mset a (mset (live (memory w)))" using run(6) content(2) by simp
    from c_free_live [OF this] obtain h2 where
      "c_free a h = Inr h2" "mset (live h2) = mset (live (memory w))" by blast
    moreover have "w\<lparr>errors := errors w @ err, memory := h2\<rparr> = w\<lparr>memory := h2, errors := errors w @ err\<rparr>"
      by (cases w) simp
    ultimately have "compiler_compile_file fs c filename w = Inr (False,
        concat (map (token_row ?s) (tokens @ [eof])) @ out1 @ out2, c', w\<lparr>memory := h2, errors := errors w @ err\<rparr>)"
      using content(1) run(2) tell by (simp add: compiler_compile_file_def free_source_def)
    from that [OF run(1) this run(3,4,5)] \<open>mset (live h2) = mset (live (memory w))\<close> show ?thesis by simp
  qed
qed

end
