(* ===== verification/Acceptance.thy ===== *)
theory Acceptance
  imports Expressions
begin

text \<open>
  The converse of \<open>Expressions\<close>: a source that the parser takes without a report spells an
  expression of the grammar. The first part is that a report is never forgotten, so that a run
  without one at its end had none on its way.
\<close>

subsection \<open>Panic persists\<close>

lemma panic_error: "compiler_parse_error c t message w = Inr (c', w') \<Longrightarrow> is_panic c'"
  using compiler_parse_error_keeps by blast

lemma advance_loop_keeps:
  "compiler_advance_loop c w = Inr (c', w') \<Longrightarrow> previous c' = previous c \<and> (is_panic c \<longrightarrow> is_panic c')"
proof (induction c w rule: compiler_advance_loop.induct)
  case (1 c w)
  from "1.prems" obtain lexer token lexer' where lexer: "compiler_lexer c = Some lexer"
    "lexer_scan_token lexer = Inr (token, lexer')"
    by (subst (asm) compiler_advance_loop.simps) (auto split: option.splits elim!: res_bindE)
  show ?case
  proof (cases "token_type token = TOKEN_ERROR")
    case False
    with "1.prems" lexer show ?thesis by (simp add: compiler_advance_loop.simps [of c] Let_def) auto
  next
    case True
    with "1.prems" lexer obtain message c1 w1 where report:
      "token_c_string (c\<lparr>compiler_lexer := Some lexer', current := token\<rparr>) token = Inr message"
      "compiler_parse_error_at_current (c\<lparr>compiler_lexer := Some lexer', current := token\<rparr>) message w = Inr (c1, w1)"
      "compiler_advance_loop c1 w1 = Inr (c', w')"
      by (subst (asm) compiler_advance_loop.simps) (auto simp: Let_def elim!: res_bindE)
    then have "is_panic c1" "previous c1 = previous c"
      using compiler_parse_error_keeps by (fastforce simp: compiler_parse_error_at_current_def)+
    moreover have "previous c' = previous c1 \<and> (is_panic c1 \<longrightarrow> is_panic c')"
      by (rule "1.IH" [OF lexer refl refl _ _ _ refl report(3)]) (use True report in simp_all)
    ultimately show ?thesis by simp
  qed
qed

lemma panic_advance_loop: "compiler_advance_loop c w = Inr (c', w') \<Longrightarrow> is_panic c \<Longrightarrow> is_panic c'"
  using advance_loop_keeps by blast

lemma advance_previous: "compiler_advance c w = Inr (c', w') \<Longrightarrow> previous c' = current c"
  by (auto simp: compiler_advance_def dest: advance_loop_keeps)

lemma panic_advance: "compiler_advance c w = Inr (c', w') \<Longrightarrow> is_panic c \<Longrightarrow> is_panic c'"
  by (auto simp: compiler_advance_def dest: panic_advance_loop)

lemma panic_consume: "compiler_consume c type message w = Inr (c', w') \<Longrightarrow> is_panic c \<Longrightarrow> is_panic c'"
  by (auto simp: compiler_consume_def compiler_parse_error_at_current_def split: if_splits
      dest: panic_advance panic_error)

text \<open>A mismatch is reported: without panic the token was the expected one.\<close>

lemma calm_consume:
  "compiler_consume c type message w = Inr (c', w') \<Longrightarrow> \<not> is_panic c' \<Longrightarrow>
    token_type (current c) = type \<and> compiler_advance c w = Inr (c', w')"
  by (auto simp: compiler_consume_def compiler_parse_error_at_current_def split: if_splits dest: panic_error)

definition keeps_panic :: "parse_call \<Rightarrow> bool" where
  "keeps_panic parse \<longleftrightarrow>
     (\<forall>p c w node c' w'. parse p c w = Inr (node, c', w') \<longrightarrow> is_panic c \<longrightarrow> is_panic c')"

lemma keeps_panicD: "keeps_panic parse \<Longrightarrow> parse p c w = Inr (node, c', w') \<Longrightarrow> is_panic c \<Longrightarrow> is_panic c'"
  unfolding keeps_panic_def by blast

lemma in_memory_compiler: "in_memory alloc c w = Inr (node, c', w') \<Longrightarrow> c' = c"
  by (auto simp: in_memory_def elim!: res_bindE)

lemma panic_binary:
  assumes "keeps_panic parse" and "compiler_parse_binary parse c first w = Inr (node, c', w')"
  shows "is_panic c \<Longrightarrow> is_panic c'"
  using assms
  by (auto simp: compiler_parse_binary_def Let_def elim!: res_bindE dest!: in_memory_compiler dest: keeps_panicD
      split: TokenType.splits)

lemma panic_prefix:
  assumes "keeps_panic parse" and "call_prefix f parse c w = Inr (node, c', w')"
  shows "is_panic c \<Longrightarrow> is_panic c'"
  using assms
  by (cases f)
    (auto simp: call_prefix_def compiler_parse_grouping_def compiler_parse_expression_def compiler_parse_unary_def
      compiler_parse_int_def compiler_parse_real_def Let_def elim!: res_bindE
      dest!: in_memory_compiler dest: keeps_panicD panic_consume split: TokenType.splits)

lemma infix_loop_cases:
  assumes "compiler_infix_loop (Suc k) parse p first c w = Inr (node, c', w')"
  obtains (stop) rule where "get_parse_rule (token_type (current c)) = Inr rule" and "\<not> p \<le> rule_precedence rule"
      and "c' = c"
    | (step) rule c1 w1 rule1 second c2 w2 where "get_parse_rule (token_type (current c)) = Inr rule"
      and "p \<le> rule_precedence rule" and "compiler_advance c w = Inr (c1, w1)"
      and "get_parse_rule (token_type (previous c1)) = Inr rule1" and "rule_infix rule1 = Some Parse_binary"
      and "compiler_parse_binary parse c1 first w1 = Inr (second, c2, w2)"
      and "compiler_infix_loop k parse p second c2 w2 = Inr (node, c', w')"
proof -
  obtain rule where rule: "get_parse_rule (token_type (current c)) = Inr rule"
    using assms by (cases "get_parse_rule (token_type (current c))") auto
  show thesis
  proof (cases "p \<le> rule_precedence rule")
    case False
    moreover from this assms rule have "c' = c" by simp
    ultimately show thesis by (rule stop [OF rule])
  next
    case True
    with assms rule obtain c1 w1 where c1: "compiler_advance c w = Inr (c1, w1)"
      by (cases "compiler_advance c w") auto
    with True assms rule obtain rule1 where rule1: "get_parse_rule (token_type (previous c1)) = Inr rule1"
      by (cases "get_parse_rule (token_type (previous c1))") auto
    with c1 True assms rule obtain second c2 w2 where
      call: "call_infix (rule_infix rule1) parse c1 first w1 = Inr (second, c2, w2)"
      by (cases "call_infix (rule_infix rule1) parse c1 first w1") auto
    then have "rule_infix rule1 = Some Parse_binary"
      by (cases "(rule_infix rule1, parse, c1, first, w1)" rule: call_infix.cases) auto
    moreover from c1 rule1 call True assms rule
    have "compiler_infix_loop k parse p second c2 w2 = Inr (node, c', w')" by simp
    moreover from call \<open>rule_infix rule1 = Some Parse_binary\<close>
    have "compiler_parse_binary parse c1 first w1 = Inr (second, c2, w2)" by simp
    ultimately show thesis using step [OF rule True c1 rule1] by blast
  qed
qed

lemma panic_loop:
  "keeps_panic parse \<Longrightarrow> compiler_infix_loop k parse p first c w = Inr (node, c', w') \<Longrightarrow> is_panic c \<Longrightarrow> is_panic c'"
proof (induction k arbitrary: first c w)
  case 0
  then show ?case by simp
next
  case (Suc k)
  from Suc.prems(2) show ?case
  proof (cases rule: infix_loop_cases)
    case stop
    with Suc.prems(3) show ?thesis by simp
  next
    case (step rule c1 w1 rule1 second c2 w2)
    from panic_advance [OF step(3) Suc.prems(3)] have "is_panic c1" .
    from panic_binary [OF Suc.prems(1) step(6) this] Suc.IH [OF Suc.prems(1) step(7)] show ?thesis by blast
  qed
qed

lemma panic_precedence: "keeps_panic (compiler_parse_precedence n)"
proof (induction n)
  case 0
  show ?case by (simp add: keeps_panic_def)
next
  case (Suc n)
  show ?case unfolding keeps_panic_def
  proof (intro allI impI)
    fix p c w node c' w'
    assume run: "compiler_parse_precedence (Suc n) p c w = Inr (node, c', w')" and panic: "is_panic c"
    then obtain c1 w1 rule where c1: "compiler_advance c w = Inr (c1, w1)"
      and rule: "get_parse_rule (token_type (previous c1)) = Inr rule"
      by (auto elim!: res_bindE)
    with panic have "is_panic c1" by (auto dest: panic_advance)
    show "is_panic c'"
    proof (cases "rule_prefix rule")
      case None
      with run c1 rule show ?thesis
        by (auto simp: compiler_parse_error_at_previous_def elim!: res_bindE dest: panic_error)
    next
      case (Some f)
      with run c1 rule obtain first c2 w2 where
        "call_prefix f (compiler_parse_precedence n) c1 w1 = Inr (first, c2, w2)"
        and loop: "compiler_infix_loop n (compiler_parse_precedence n) p first c2 w2 = Inr (node, c', w')"
        by (auto elim!: res_bindE)
      with \<open>is_panic c1\<close> have "is_panic c2" by (auto dest: panic_prefix [OF Suc.IH])
      with panic_loop [OF Suc.IH loop] show ?thesis .
    qed
  qed
qed

subsection \<open>Tokens that may be errors\<close>

text \<open>The lexer has \<open>ts\<close> in front of it, and more.\<close>

inductive offers :: "Lexer \<Rightarrow> Token list \<Rightarrow> bool" where
  nothing: "offers lexer []"
| token: "lexer_scan_token lexer = Inr (t, lexer') \<Longrightarrow> offers lexer' ts \<Longrightarrow> offers lexer (t # ts)"

inductive_cases offersE: "offers lexer (t # ts)"

lemma delivers_offers: "delivers lexer tokens final \<Longrightarrow> offers lexer tokens"
  by (induction rule: delivers.induct) (auto intro: offers.intros)

fun sees :: "Compiler \<Rightarrow> Token list \<Rightarrow> bool" where
  "sees c [] \<longleftrightarrow> False"
| "sees c (t # ts) \<longleftrightarrow> current c = t \<and> (\<exists>lexer. compiler_lexer c = Some lexer \<and> offers lexer ts)"

lemma calm_offers:
  assumes "compiler_lexer c = Some lexer" and "offers lexer (t # ts)"
    and run: "compiler_advance c w = Inr (c', w')" and calm: "\<not> is_panic c'"
  shows "sees c' (t # ts) \<and> previous c' = current c \<and> token_type t \<noteq> TOKEN_ERROR"
proof -
  from assms(2) obtain lexer' where lexer': "lexer_scan_token lexer = Inr (t, lexer')" "offers lexer' ts"
    by (rule offersE)
  have "token_type t \<noteq> TOKEN_ERROR"
  proof
    assume "token_type t = TOKEN_ERROR"
    with run assms(1) lexer'(1) obtain c1 message c2 w2 where
      "compiler_parse_error_at_current c1 message w = Inr (c2, w2)" "compiler_advance_loop c2 w2 = Inr (c', w')"
      unfolding compiler_advance_def
      by (subst (asm) compiler_advance_loop.simps) (auto simp: Let_def elim!: res_bindE)
    with calm show False
      by (auto simp: compiler_parse_error_at_current_def dest: panic_error panic_advance_loop)
  qed
  with run assms(1) lexer' show ?thesis
    by (auto simp: compiler_advance_def compiler_advance_loop.simps Let_def)
qed

lemma calm_advance:
  assumes "sees c (t # t' # ts)" and "compiler_advance c w = Inr (c', w')" and "\<not> is_panic c'"
  shows "sees c' (t' # ts)" and "previous c' = t"
  using assms calm_offers by auto

subsection \<open>The texts of tokens\<close>

text \<open>A token whose text is a word of its type, or one that no expression has.\<close>

definition token_fits :: "string \<Rightarrow> Token \<Rightarrow> bool" where
  "token_fits s t \<longleftrightarrow> token_type t \<in> {TOKEN_EOF, TOKEN_EOL, TOKEN_ERROR, TOKEN_LIT_STRING}
     \<or> spells (token_text s t) (token_type t)"

lemma number_at_spells:
  assumes "number_at t = Lexeme type n" and "is_digit (hd t)" and "t \<noteq> []"
  shows "spells (take n t) type"
proof -
  let ?i = "takeWhile is_digit t" and ?r = "drop (length (takeWhile is_digit t)) t"
  have t: "t = ?i @ ?r" by (simp add: dropWhile_eq_drop [symmetric])
  have i: "?i \<noteq> []" "list_all is_digit ?i"
    using assms(2,3) by (cases t; auto simp: list_all_iff dest: set_takeWhileD)+
  show ?thesis
  proof (cases "take 1 ?r = ''.''")
    case True
    let ?f = "takeWhile is_digit (drop (length ?i + 1) t)"
    from True obtain u where u: "?r = CHR ''.'' # u" by (cases ?r) auto
    then have u': "drop (length ?i + 1) t = u" by (metis add.commute drop_drop drop_Suc_Cons drop0 One_nat_def plus_1_eq_Suc)
    have n: "type = TOKEN_LIT_REAL" "n = length ?i + 1 + length ?f"
      using assms(1) True by (simp_all add: number_at_def Let_def)
    have "take n t = ?i @ CHR ''.'' # take (length ?f) u"
      by (subst t, subst u) (simp add: n)
    also have "take (length ?f) u = ?f" unfolding u' by (simp add: takeWhile_eq_take [symmetric])
    finally have "take n t = ?i @ CHR ''.'' # ?f" .
    moreover have "list_all is_digit ?f" by (auto simp: list_all_iff dest: set_takeWhileD)
    ultimately show ?thesis using i n(1) unfolding spells_def by blast
  next
    case False
    then have "type = TOKEN_LIT_INT" "n = length ?i"
      using assms(1) by (simp_all add: number_at_def Let_def)
    moreover have "take (length ?i) t = ?i" by (simp add: takeWhile_eq_take [symmetric])
    ultimately show ?thesis using i unfolding spells_def by simp
  qed
qed

lemma lexeme_at_spells:
  assumes "lexeme_at t = Lexeme type n" and "t \<noteq> []"
  shows "type \<in> {TOKEN_EOL, TOKEN_LIT_STRING} \<or> spells (take n t) type"
proof -
  let ?c = "hd t"
  consider "?c = newline" | "?c \<noteq> newline" "is_alpha ?c" | "?c \<noteq> newline" "\<not> is_alpha ?c" "is_digit ?c"
    | "?c \<noteq> newline" "\<not> is_alpha ?c" "\<not> is_digit ?c" "?c = quote"
    | "?c \<noteq> newline" "\<not> is_alpha ?c" "\<not> is_digit ?c" "?c \<noteq> quote" by blast
  then show ?thesis
  proof cases
    case 2
    let ?w = "takeWhile is_word t"
    have "take (length ?w) t = ?w" by (simp add: takeWhile_eq_take [symmetric])
    moreover have "?w \<noteq> []" "hd ?w = ?c" using 2(2) assms(2) by (cases t; simp add: is_word_def)+
    moreover have "list_all is_word ?w" by (auto simp: list_all_iff dest: set_takeWhileD)
    ultimately show ?thesis using assms(1) 2 unfolding spells_def lexeme_at_def Let_def by auto
  next
    case 3
    with assms have "number_at t = Lexeme type n" by (simp add: lexeme_at_def)
    with number_at_spells 3(3) assms(2) show ?thesis by blast
  next
    case 5
    with assms(1) have "operator_at t = Some (type, n)"
      by (auto simp: lexeme_at_def split: option.splits)
    moreover have "take (min (length t) 2) t = take 2 t" by (simp add: min_def)
    ultimately have "map_of operator_table (take n t) = Some type"
      by (auto simp: operator_at_def split: option.splits)
    then show ?thesis by (simp add: spells_table)
  qed (use assms(1) in \<open>auto simp: lexeme_at_def split: if_splits\<close>)
qed

lemma stream_fits:
  "terminated t \<Longrightarrow> drop position s = t \<Longrightarrow> length s < 2 ^ 63 \<Longrightarrow>
    token_stream line position t = Some tokens \<Longrightarrow> list_all (token_fits s) tokens"
proof (induction "length t" arbitrary: t position line tokens rule: less_induct)
  case less
  let ?rest = "drop (skip_length t) t" and ?here = "position + skip_length t"
  note stream_cases = token_stream_terminated [of t line position]
  from less.prems(1) show ?case
  proof (cases rule: stream_cases)
    case eof
    with less.prems(4) show ?thesis by (auto simp: token_fits_def stream_token_def)
  next
    case runaway
    with less.prems(4) show ?thesis by simp
  next
    case (lexeme n line')
    with less.prems(4) obtain rest where tokens: "tokens = stream_token line' ?here (lexeme_at ?rest) # rest"
      and stream: "token_stream line' (?here + n) (drop n ?rest) = Some rest" by auto
    have drop: "drop ?here s = ?rest" "drop (?here + n) s = drop n ?rest"
      using less.prems(2) by (metis add.commute drop_drop)+
    have n: "n < length ?rest" using lexeme(5) terminated_NUL by (cases "n < length ?rest") fastforce+
    have "length t \<le> length s" using less.prems(2) by (metis diff_le_self length_drop)
    with n less.prems(3) have size: "n < 2 ^ 64" by simp
    have "length (drop n ?rest) < length t" using n lexeme(4) by simp
    from less.hyps [OF this lexeme(5) drop(2) less.prems(3) stream]
    have rest: "list_all (token_fits s) rest" .
    have "token_fits s (stream_token line' ?here (lexeme_at ?rest))"
    proof (cases "lexeme_at ?rest")
      case (Lexeme type m)
      then have m: "m = n" using lexeme(3) by simp
      have "?rest \<noteq> []" using n by auto
      from lexeme_at_spells [OF Lexeme this] drop(1) size m Lexeme show ?thesis
        by (auto simp: token_fits_def stream_token_def token_text_def unat_size_of_nat)
    next
      case (Bad message k)
      then show ?thesis by (simp add: token_fits_def stream_token_def)
    next
      case Runaway
      with lexeme(2) show ?thesis by simp
    qed
    with rest show ?thesis by (simp add: tokens)
  qed
qed

text \<open>What the words of an expression are spelled with.\<close>

lemma spells_operator_word:
  assumes "spells w (snd (operator_word operator))" and "operator \<noteq> COUNT_OTORS"
  shows "w = fst (operator_word operator)"
proof -
  have "snd (operator_word operator) \<noteq> word_type w" using word_type_wordless [of w] wordless_types(4) [OF assms(2)] by auto
  with assms have "map_of operator_table w = Some (snd (operator_word operator))"
    by (cases operator) (auto simp: spells_def operator_word_def)
  then have "(w, snd (operator_word operator)) \<in> set operator_table" by (rule map_of_SomeD)
  then show ?thesis using assms(2)
    by (cases operator) (auto simp: operator_word_def operator_table_def)
qed

lemma wordless_paren: "wordless TOKEN_LIT_INT" "wordless TOKEN_LIT_REAL" "wordless TOKEN_LEFT_PAREN"
  "wordless TOKEN_RIGHT_PAREN"
  by (simp_all add: wordless_def keyword_table_def)

lemma spells_literal:
  shows "spells w TOKEN_LIT_INT \<Longrightarrow> digits w"
    and "spells w TOKEN_LIT_REAL \<Longrightarrow> \<exists>i f. w = i @ CHR ''.'' # f \<and> digits i \<and> list_all is_digit f"
    and "spells w TOKEN_LEFT_PAREN \<Longrightarrow> w = ''(''"
    and "spells w TOKEN_RIGHT_PAREN \<Longrightarrow> w = '')''"
proof -
  have word: "word_type w \<noteq> TOKEN_LIT_INT" "word_type w \<noteq> TOKEN_LIT_REAL" "word_type w \<noteq> TOKEN_LEFT_PAREN"
    "word_type w \<noteq> TOKEN_RIGHT_PAREN"
    using word_type_wordless [of w] wordless_paren by metis+
  have table: "map_of operator_table w = Some type \<Longrightarrow> (w, type) \<in> set operator_table" for type
    by (rule map_of_SomeD)
  show "spells w TOKEN_LIT_INT \<Longrightarrow> digits w"
    using word(1) table by (auto simp: spells_def digits_def operator_table_def)
  show "spells w TOKEN_LIT_REAL \<Longrightarrow> \<exists>i f. w = i @ CHR ''.'' # f \<and> digits i \<and> list_all is_digit f"
    using word(2) table by (auto simp: spells_def digits_def operator_table_def)
  show "spells w TOKEN_LEFT_PAREN \<Longrightarrow> w = ''(''"
    using word(3) table by (auto simp: spells_def operator_table_def)
  show "spells w TOKEN_RIGHT_PAREN \<Longrightarrow> w = '')''"
    using word(4) table by (auto simp: spells_def operator_table_def)
qed

subsection \<open>What a run without a report has read\<close>

text \<open>The tokens from the current one to the end of the file, as the lexer makes them.\<close>

definition fitting :: "string \<Rightarrow> Token list \<Rightarrow> bool" where
  "fitting s ts \<longleftrightarrow> ts \<noteq> [] \<and> token_type (last ts) = TOKEN_EOF \<and> list_all (token_fits s) ts"

lemma fitting_Cons: "fitting s (t # ts) \<Longrightarrow> token_type t \<noteq> TOKEN_EOF \<Longrightarrow> fitting s ts"
  by (cases ts) (auto simp: fitting_def)

lemma fitting_append: "fitting s (te @ t # ts) \<Longrightarrow> fitting s (t # ts)"
  by (auto simp: fitting_def)

lemma fitting_next:
  assumes "fitting s (t # ts)" and "token_type t \<noteq> TOKEN_EOF"
  obtains t' ts' where "ts = t' # ts'" and "fitting s (t' # ts')"
  using fitting_Cons [OF assms] that by (cases ts) (auto simp: fitting_def)

text \<open>The rule of the token has at most, and less than, a precedence.\<close>

definition weak :: "Token \<Rightarrow> Precedence \<Rightarrow> bool" where
  "weak t p \<longleftrightarrow> (\<forall>rule. get_parse_rule (token_type t) = Inr rule \<longrightarrow> rule_precedence rule \<le> p)"

text \<open>
  From the tokens \<open>ts\<close> an expression of at least the level \<open>p\<close> was taken, and what follows does not
  bind as strong as \<open>p\<close>.
\<close>

definition took_expression :: "string \<Rightarrow> Precedence \<Rightarrow> Token list \<Rightarrow> Compiler \<Rightarrow> bool" where
  "took_expression s p ts c' \<longleftrightarrow>
     (\<exists>e te t ts'. ts = te @ t # ts' \<and> sees c' (t # ts') \<and> grammatical e \<and> token_words s te = spelling e
        \<and> p \<le> level e \<and> (\<exists>rule. get_parse_rule (token_type t) = Inr rule \<and> \<not> p \<le> rule_precedence rule))"

definition sound :: "string \<Rightarrow> parse_call \<Rightarrow> bool" where
  "sound s parse \<longleftrightarrow>
     (\<forall>p c w node c' w' ts. PREC_NONE < p \<longrightarrow> p \<le> PREC_UNARY \<longrightarrow> sees c ts \<longrightarrow> fitting s ts \<longrightarrow>
        parse p c w = Inr (node, c', w') \<longrightarrow> \<not> is_panic c' \<longrightarrow> took_expression s p ts c')"

lemma soundD:
  "sound s parse \<Longrightarrow> parse p c w = Inr (node, c', w') \<Longrightarrow> PREC_NONE < p \<Longrightarrow> p \<le> PREC_UNARY \<Longrightarrow> sees c ts \<Longrightarrow>
    fitting s ts \<Longrightarrow> \<not> is_panic c' \<Longrightarrow> took_expression s p ts c'"
  unfolding sound_def by blast

lemma infix_rule:
  assumes "get_parse_rule type = Inr rule" and "rule_infix rule = Some f"
  obtains operator where "operator \<noteq> COUNT_OTORS" and "type = snd (operator_word operator)"
    and "rule_precedence rule = operator_level operator"
proof -
  from get_parse_rule_cases(4) [OF assms(1)] assms(2) consider "type = TOKEN_PLUS" | "type = TOKEN_MINUS"
    | "type = TOKEN_STAR" | "type = TOKEN_SLASH" | "type = TOKEN_DIV" by auto
  then show thesis
  proof cases
    case 1
    with assms(1) show thesis
      by (intro that [of OTOR_PLUS]) (auto simp: get_parse_rule_def operator_word_def operator_level_def)
  next
    case 2
    with assms(1) show thesis
      by (intro that [of OTOR_MINUS]) (auto simp: get_parse_rule_def operator_word_def operator_level_def)
  next
    case 3
    with assms(1) show thesis
      by (intro that [of OTOR_STAR]) (auto simp: get_parse_rule_def operator_word_def operator_level_def)
  next
    case 4
    with assms(1) show thesis
      by (intro that [of OTOR_SLASH]) (auto simp: get_parse_rule_def operator_word_def operator_level_def)
  next
    case 5
    with assms(1) show thesis
      by (intro that [of OTOR_DIV]) (auto simp: get_parse_rule_def operator_word_def operator_level_def)
  qed
qed

lemma token_words_simps [simp]:
  "token_words s [] = []" "token_words s (t # ts) = (token_text s t, token_type t) # token_words s ts"
  "token_words s (ts @ us) = token_words s ts @ token_words s us"
  by (simp_all add: token_words_def)

lemma fits_operator:
  assumes "token_fits s t" and "operator \<noteq> COUNT_OTORS" and "token_type t = snd (operator_word operator)"
  shows "(token_text s t, token_type t) = operator_word operator"
proof -
  have "spells (token_text s t) (snd (operator_word operator))"
    using assms by (cases operator) (auto simp: token_fits_def operator_word_def)
  from spells_operator_word [OF this assms(2)] assms(3) show ?thesis by simp
qed

lemma stronger_level:
  "operator \<noteq> COUNT_OTORS \<Longrightarrow> next_precedence (operator_level operator) \<le> p \<Longrightarrow> operator_level operator < p"
  "\<not> next_precedence (operator_level operator) \<le> p \<Longrightarrow> p \<le> operator_level operator"
  by (cases operator; cases p; simp add: operator_level_def less_Precedence_def less_eq_Precedence_def)+

lemma loop_sound:
  assumes parse: "sound s parse" "keeps_panic parse" and p: "PREC_NONE < p" and calm: "\<not> is_panic c'"
  shows "compiler_infix_loop k parse p first c w = Inr (node, c', w') \<Longrightarrow> sees c (t # ts) \<Longrightarrow> fitting s (t # ts) \<Longrightarrow>
    grammatical e \<Longrightarrow> token_words s te = spelling e \<Longrightarrow> p \<le> level e \<Longrightarrow> weak t (level e) \<Longrightarrow>
    took_expression s p (te @ t # ts) c'"
proof (induction k arbitrary: first c w t ts e te)
  case 0
  then show ?case by simp
next
  case (Suc k)
  from Suc.prems(1) show ?case
  proof (cases rule: infix_loop_cases)
    case (stop rule)
    with Suc.prems show ?thesis unfolding took_expression_def
      by (intro exI [of _ e] exI [of _ te] exI [of _ t] exI [of _ ts]) auto
  next
    case (step rule c1 w1 rule1 second c2 w2)
    from step(1) Suc.prems(2) have rule: "get_parse_rule (token_type t) = Inr rule" by simp
    have "PREC_NONE < rule_precedence rule" using p step(2) by (rule less_le_trans)
    then have "token_type t \<noteq> TOKEN_EOF" by (rule get_parse_rule_cases(2) [OF rule])
    with Suc.prems(3) obtain t1 ts1 where ts: "ts = t1 # ts1" and fit: "fitting s (t1 # ts1)" by (rule fitting_next)
    have calm2: "\<not> is_panic c2" using panic_loop [OF parse(2) step(7)] calm by blast
    then have "\<not> is_panic c1" using panic_binary [OF parse(2) step(6)] by blast
    from calm_advance [OF Suc.prems(2) [unfolded ts] step(3) this]
    have c1: "sees c1 (t1 # ts1)" and t: "previous c1 = t" .
    from rule t step(4) have "rule1 = rule" by simp
    with step(5) obtain operator where op: "operator \<noteq> COUNT_OTORS" "token_type t = snd (operator_word operator)"
      "rule_precedence rule = operator_level operator"
      by (metis infix_rule [OF rule])
    from step(6) rule t obtain node2 w3 where
      second: "parse (next_precedence (operator_level operator)) c1 w1 = Inr (node2, c2, w3)"
      by (auto simp: compiler_parse_binary_def Let_def op(3) elim!: res_bindE dest!: in_memory_compiler
          split: TokenType.splits)
    have "PREC_NONE < next_precedence (operator_level operator)" "next_precedence (operator_level operator) \<le> PREC_UNARY"
      by (simp_all add: operator_level_def less_Precedence_def less_eq_Precedence_def)
    from soundD [OF parse(1) second this c1 fit calm2] obtain e2 te2 t2 ts2 rule2 where
      e2: "t1 # ts1 = te2 @ t2 # ts2" "sees c2 (t2 # ts2)" "grammatical e2" "token_words s te2 = spelling e2"
      "next_precedence (operator_level operator) \<le> level e2" "get_parse_rule (token_type t2) = Inr rule2"
      "\<not> next_precedence (operator_level operator) \<le> rule_precedence rule2"
      unfolding took_expression_def by blast
    let ?e = "Operation e operator e2"
    have "operator_level operator \<le> level e" using Suc.prems(7) rule op(3) by (simp add: weak_def)
    then have "grammatical ?e"
      using Suc.prems(4) e2(3) op(1) stronger_level(1) [OF op(1) e2(5)] by simp
    moreover have "token_words s (te @ t # te2) = spelling ?e"
      using Suc.prems(3,5) e2(4) fits_operator [OF _ op(1,2)] by (simp add: fitting_def)
    moreover have "p \<le> level ?e" using step(2) op(3) by simp
    moreover have "weak t2 (level ?e)" using e2(6) stronger_level(2) [OF e2(7)] by (simp add: weak_def)
    moreover have "fitting s (t2 # ts2)" using fit e2(1) by (auto intro: fitting_append)
    ultimately have "took_expression s p ((te @ t # te2) @ t2 # ts2) c'"
      by (intro Suc.IH [OF step(7) e2(2)])
    then show ?thesis by (simp add: ts e2(1))
  qed
qed

lemma prefix_rule_type:
  assumes "get_parse_rule type = Inr rule" and "rule_prefix rule = Some f"
  shows "f = Parse_int \<Longrightarrow> type = TOKEN_LIT_INT" and "f = Parse_real \<Longrightarrow> type = TOKEN_LIT_REAL"
    and "f = Parse_grouping \<Longrightarrow> type = TOKEN_LEFT_PAREN"
    and "f = Parse_unary \<Longrightarrow> \<exists>operator \<in> {OTOR_PLUS, OTOR_MINUS}. type = snd (operator_word operator)"
  using assms by (cases type; auto simp: get_parse_rule_def Let_def operator_word_def)+

definition took_operand :: "string \<Rightarrow> Token list \<Rightarrow> Compiler \<Rightarrow> bool" where
  "took_operand s ts c' \<longleftrightarrow>
     (\<exists>e te t ts'. ts = te @ t # ts' \<and> sees c' (t # ts') \<and> grammatical e \<and> token_words s te = spelling e
        \<and> PREC_UNARY \<le> level e)"

lemma took_operandI:
  "sees c' (t # ts') \<Longrightarrow> grammatical e \<Longrightarrow> token_words s te = spelling e \<Longrightarrow> PREC_UNARY \<le> level e \<Longrightarrow>
    took_operand s (te @ t # ts') c'"
  unfolding took_operand_def by blast

lemma prefix_sound:
  assumes parse: "sound s parse" and rule: "get_parse_rule (token_type t0) = Inr rule" "rule_prefix rule = Some f"
    and t0: "previous c = t0" "token_fits s t0" and c: "sees c (t1 # ts)" "fitting s (t1 # ts)"
    and call: "call_prefix f parse c w = Inr (node, c', w')" and calm: "\<not> is_panic c'"
  shows "took_operand s (t0 # t1 # ts) c'"
proof (cases f)
  case Parse_int
  with call have "c' = c"
    by (auto simp: call_prefix_def compiler_parse_int_def elim!: res_bindE dest!: in_memory_compiler)
  have type: "token_type t0 = TOKEN_LIT_INT" by (rule prefix_rule_type(1) [OF rule Parse_int])
  with t0(2) have "digits (token_text s t0)" by (intro spells_literal(1)) (simp add: token_fits_def)
  with took_operandI [of c t1 ts "Int_literal (token_text s t0)" s "[t0]"] c(1) type \<open>c' = c\<close> show ?thesis by simp
next
  case Parse_real
  with call have "c' = c"
    by (auto simp: call_prefix_def compiler_parse_real_def elim!: res_bindE dest!: in_memory_compiler)
  have type: "token_type t0 = TOKEN_LIT_REAL" by (rule prefix_rule_type(2) [OF rule Parse_real])
  with t0(2) obtain i fr where "token_text s t0 = i @ CHR ''.'' # fr" "digits i" "list_all is_digit fr"
    using spells_literal(2) [of "token_text s t0"] by (auto simp: token_fits_def)
  with took_operandI [of c t1 ts "Real_literal i fr" s "[t0]"] c(1) type \<open>c' = c\<close> show ?thesis by simp
next
  case Parse_unary
  from prefix_rule_type(4) [OF rule Parse_unary] obtain operator where op: "operator \<in> {OTOR_PLUS, OTOR_MINUS}"
    "token_type t0 = snd (operator_word operator)" by blast
  from call Parse_unary obtain child w1 where "parse PREC_UNARY c w = Inr (child, c', w1)"
    by (auto simp: call_prefix_def compiler_parse_unary_def Let_def elim!: res_bindE dest!: in_memory_compiler
        split: TokenType.splits)
  moreover have "PREC_NONE < PREC_UNARY" "PREC_UNARY \<le> PREC_UNARY"
    by (simp_all add: less_Precedence_def less_eq_Precedence_def)
  ultimately obtain e te t ts' where e: "t1 # ts = te @ t # ts'" "sees c' (t # ts')" "grammatical e"
    "token_words s te = spelling e" "PREC_UNARY \<le> level e"
    using soundD [OF parse _ _ _ c(1,2) calm] unfolding took_expression_def by blast
  have "(token_text s t0, token_type t0) = operator_word operator"
    by (rule fits_operator [OF t0(2) _ op(2)]) (use op(1) in auto)
  with took_operandI [OF e(2), of "Signed operator e" s "t0 # te"] e op(1) show ?thesis by auto
next
  case Parse_grouping
  have type: "token_type t0 = TOKEN_LEFT_PAREN" by (rule prefix_rule_type(3) [OF rule Parse_grouping])
  with t0(2) have open_paren: "token_text s t0 = ''(''" by (intro spells_literal(3)) (simp add: token_fits_def)
  from call Parse_grouping obtain child c1 w1 message w2 where
    child: "parse PREC_ASSIGNMENT c w = Inr (child, c1, w1)"
    and consume: "compiler_consume c1 TOKEN_RIGHT_PAREN message w1 = Inr (c', w2)"
    by (auto simp: call_prefix_def compiler_parse_grouping_def compiler_parse_expression_def elim!: res_bindE
        dest!: in_memory_compiler)
  have "\<not> is_panic c1" using panic_consume [OF consume] calm by blast
  moreover have "PREC_NONE < PREC_ASSIGNMENT" "PREC_ASSIGNMENT \<le> PREC_UNARY"
    by (simp_all add: less_Precedence_def less_eq_Precedence_def)
  ultimately obtain e te t ts' where e: "t1 # ts = te @ t # ts'" "sees c1 (t # ts')" "grammatical e"
    "token_words s te = spelling e"
    using soundD [OF parse child _ _ c(1,2)] unfolding took_expression_def by blast
  from calm_consume [OF consume calm] e(2) have close_paren: "token_type t = TOKEN_RIGHT_PAREN"
    and advance: "compiler_advance c1 w1 = Inr (c', w2)" by simp_all
  have fit: "fitting s (t # ts')" using c(2) e(1) by (auto intro: fitting_append)
  with close_paren obtain t3 ts3 where ts': "ts' = t3 # ts3" by (auto elim: fitting_next)
  have "token_text s t = '')''"
    using fit close_paren by (intro spells_literal(4)) (simp add: fitting_def token_fits_def)
  with took_operandI [OF calm_advance(1) [OF e(2) [unfolded ts'] advance calm], of "Parenthesised e" s "t0 # te @ [t]"]
    e type open_paren close_paren ts' show ?thesis by simp
qed

lemma precedence_factor: "PREC_FACTOR \<le> PREC_UNARY"
  by (simp add: less_eq_Precedence_def)

lemma precedence_sound: "sound s (compiler_parse_precedence n)"
proof (induction n)
  case 0
  show ?case by (simp add: sound_def)
next
  case (Suc n)
  show ?case unfolding sound_def
  proof (intro allI impI)
    fix p c w node c' w' ts
    assume p: "PREC_NONE < p" "p \<le> PREC_UNARY" and sees: "sees c ts" and fit: "fitting s ts"
      and run: "compiler_parse_precedence (Suc n) p c w = Inr (node, c', w')" and calm: "\<not> is_panic c'"
    obtain t0 ts1 where ts: "ts = t0 # ts1" using fit by (cases ts) (auto simp: fitting_def)
    obtain c1 w1 where c1: "compiler_advance c w = Inr (c1, w1)"
      using run by (cases "compiler_advance c w") auto
    with run obtain rule where rule: "get_parse_rule (token_type (previous c1)) = Inr rule"
      by (cases "get_parse_rule (token_type (previous c1))") auto
    show "took_expression s p ts c'"
    proof (cases "rule_prefix rule")
      case None
      with run c1 rule calm show ?thesis
        by (auto simp: compiler_parse_error_at_previous_def elim!: res_bindE dest: panic_error)
    next
      case (Some f)
      with run c1 rule obtain first c2 w2 where
        prefix_call: "call_prefix f (compiler_parse_precedence n) c1 w1 = Inr (first, c2, w2)"
        and loop: "compiler_infix_loop n (compiler_parse_precedence n) p first c2 w2 = Inr (node, c', w')"
        by (cases "call_prefix f (compiler_parse_precedence n) c1 w1") auto
      have calm2: "\<not> is_panic c2" using panic_loop [OF panic_precedence loop] calm by blast
      then have calm1: "\<not> is_panic c1" using panic_prefix [OF panic_precedence prefix_call] by blast
      have t0: "previous c1 = t0"
        using sees advance_previous [OF c1] by (simp add: ts)
      then have "token_type t0 \<noteq> TOKEN_EOF" using get_parse_rule_cases(1) [OF rule] Some by simp
      with fit ts obtain t1 ts2 where ts1: "ts1 = t1 # ts2" "fitting s (t1 # ts2)"
        by (auto elim: fitting_next)
      have c1': "sees c1 (t1 # ts2)"
        using calm_advance(1) [OF _ c1 calm1] sees by (simp only: ts ts1(1))
      have "token_fits s t0" using fit ts by (simp add: fitting_def)
      from prefix_sound [OF Suc.IH rule [unfolded t0] Some t0 this c1' ts1(2) prefix_call calm2]
      obtain e te t ts' where e: "t0 # t1 # ts2 = te @ t # ts'" "sees c2 (t # ts')" "grammatical e"
        "token_words s te = spelling e" "PREC_UNARY \<le> level e" unfolding took_operand_def by blast
      have "fitting s (t # ts')" using fit e(1) unfolding ts ts1(1) by (auto intro: fitting_append)
      moreover have "weak t (level e)"
        using e(5) rule_precedence_le precedence_factor unfolding weak_def by (meson order_trans)
      moreover have "p \<le> level e" using p(2) e(5) by (rule order_trans)
      ultimately have "took_expression s p (te @ t # ts') c'"
        by (intro loop_sound [OF Suc.IH panic_precedence p(1) calm loop e(2) _ e(3,4)])
      then show ?thesis using e(1) ts ts1(1) by simp
    qed
  qed
qed

subsection \<open>Accepted programs\<close>

lemma accepted_words:
  assumes source: "source_ok p s" and stream: "token_stream 1 0 s = Some (tokens @ [eof])"
    and lexer: "compiler_lexer c = Some (lexer_init p)"
    and run: "parse_program c w = Inr (node, c', w')" and calm: "\<not> is_panic c'"
  obtains e where "grammatical e" and "token_words s tokens = spelling e"
proof -
  from source_delivers [OF source stream] obtain final where
    d: "delivers (lexer_init p) (tokens @ [eof]) final" by blast
  note offers = delivers_offers [OF d]
  have eof: "token_type eof = TOKEN_EOF" by (rule stream_eof [OF source stream])
  have fit: "fitting s (tokens @ [eof])"
    using stream_fits [OF _ _ _ stream] source eof by (simp add: fitting_def source_ok_def)
  obtain c1 w1 where c1: "compiler_advance c w = Inr (c1, w1)"
    using run by (cases "compiler_advance c w") (auto simp: parse_program_def Let_def)
  with run obtain node2 c2 w2 where
    parse: "compiler_parse_precedence (parse_fuel c) PREC_ASSIGNMENT c1 w1 = Inr (node2, c2, w2)"
    by (cases "compiler_parse_precedence (parse_fuel c) PREC_ASSIGNMENT c1 w1")
      (auto simp: parse_program_def compiler_parse_expression_def Let_def)
  with run c1 obtain w3 message where consume: "compiler_consume c2 TOKEN_EOF message w2 = Inr (c', w3)"
    by (auto simp: parse_program_def compiler_parse_expression_def Let_def elim!: res_bindE)
  have calm2: "\<not> is_panic c2" using panic_consume [OF consume] calm by blast
  then have calm1: "\<not> is_panic c1" using keeps_panicD [OF panic_precedence parse] by blast
  obtain t0 rest where rest: "tokens @ [eof] = t0 # rest" by (cases "tokens @ [eof]") auto
  have "sees c1 (t0 # rest)" using calm_offers [OF lexer offers [unfolded rest] c1 calm1] by blast
  moreover have "PREC_NONE < PREC_ASSIGNMENT" "PREC_ASSIGNMENT \<le> PREC_UNARY"
    by (simp_all add: less_Precedence_def less_eq_Precedence_def)
  ultimately obtain e te t ts' where e: "t0 # rest = te @ t # ts'" "sees c2 (t # ts')" "grammatical e"
    "token_words s te = spelling e"
    using soundD [OF precedence_sound parse _ _ _ fit [unfolded rest] calm2] unfolding took_expression_def by blast
  have t: "token_type t = TOKEN_EOF" using calm_consume [OF consume calm] e(2) by simp
  have only: "token_type x \<noteq> TOKEN_EOF" if "x \<in> set tokens" for x
  proof -
    have "terminated s" "0 + length s < 2 ^ 63" using source by (simp_all add: source_ok_def)
    from token_stream_in_order [OF this stream] that show ?thesis by simp
  qed
  have "te @ t # ts' = tokens @ [eof]" using e(1) rest by simp
  with only t have "te = tokens" by (auto simp: append_eq_append_conv2 append_eq_Cons_conv Cons_eq_append_conv)
  with that e(3,4) show thesis by blast
qed

end
