(* ===== verification/Depth.thy ===== *)
theory Depth
  imports Compilation
begin

text \<open>
  The bound on the depth of the parser's calls is not part of the code. A run that does not reach
  its bound is the same with every larger one, and the bound of \<open>parse_program\<close> is never reached:
  the result is that of the unbounded recursion of \<^verbatim>\<open>compiler.c\<close>.
\<close>

subsection \<open>Runs with larger bounds\<close>

definition extends :: "'a result \<Rightarrow> 'a result \<Rightarrow> bool" where
  "extends r r' \<longleftrightarrow> r = Inl OutOfFuel \<or> r' = r"

lemma extends_refl [simp]: "extends r r"
  by (simp add: extends_def)

lemma extends_trans: "extends r r' \<Longrightarrow> extends r' r'' \<Longrightarrow> extends r r''"
  by (auto simp: extends_def)

lemma extends_bind: "extends m m' \<Longrightarrow> (\<And>x. extends (f x) (f' x)) \<Longrightarrow> extends (res_bind m f) (res_bind m' f')"
  by (cases m) (auto simp: extends_def)

lemma extends_bind3:
  "extends m m' \<Longrightarrow> (\<And>x y z. extends (f x y z) (f' x y z)) \<Longrightarrow>
    extends (res_bind m (\<lambda>(x, y, z). f x y z)) (res_bind m' (\<lambda>(x, y, z). f' x y z))"
  by (rule extends_bind) auto

definition deeper :: "parse_call \<Rightarrow> parse_call \<Rightarrow> bool" where
  "deeper parse parse' \<longleftrightarrow> (\<forall>p c w. extends (parse p c w) (parse' p c w))"

lemma deeperD: "deeper parse parse' \<Longrightarrow> extends (parse p c w) (parse' p c w)"
  by (simp add: deeper_def)

lemma prefix_deeper:
  assumes "deeper parse parse'"
  shows "extends (call_prefix f parse c w) (call_prefix f parse' c w)"
  by (cases f)
    (simp_all add: call_prefix_def compiler_parse_grouping_def compiler_parse_expression_def
      compiler_parse_unary_def Let_def extends_bind3 deeperD [OF assms])

lemma binary_deeper:
  assumes "deeper parse parse'"
  shows "extends (compiler_parse_binary parse c first w) (compiler_parse_binary parse' c first w)"
  unfolding compiler_parse_binary_def Let_def
  by (intro extends_bind extends_bind3 deeperD [OF assms] extends_refl)

lemma infix_deeper:
  assumes "deeper parse parse'"
  shows "extends (call_infix f parse c first w) (call_infix f parse' c first w)"
  by (cases "(f, parse, c, first, w)" rule: call_infix.cases) (simp_all add: binary_deeper [OF assms])

lemma loop_deeper:
  assumes "deeper parse parse'"
  shows "extends (compiler_infix_loop k parse p first c w) (compiler_infix_loop (Suc k) parse' p first c w)"
proof (induction k arbitrary: first c w)
  case 0
  show ?case by (simp add: extends_def)
next
  case (Suc k)
  have "extends
    (res_bind (compiler_advance c w) (\<lambda>(c, w). res_bind (get_parse_rule (token_type (previous c))) (\<lambda>rule.
       res_bind (call_infix (rule_infix rule) parse c first w) (\<lambda>(first, c, w). compiler_infix_loop k parse p first c w))))
    (res_bind (compiler_advance c w) (\<lambda>(c, w). res_bind (get_parse_rule (token_type (previous c))) (\<lambda>rule.
       res_bind (call_infix (rule_infix rule) parse' c first w) (\<lambda>(first, c, w). compiler_infix_loop (Suc k) parse' p first c w))))"
    unfolding split_beta by (intro extends_bind infix_deeper [OF assms] Suc.IH extends_refl)
  then show ?case
    by (subst (1 2) compiler_infix_loop.simps(2)) (auto intro!: extends_bind simp del: compiler_infix_loop.simps)
qed

lemma precedence_deeper: "deeper (compiler_parse_precedence n) (compiler_parse_precedence (Suc n))"
proof (induction n)
  case 0
  show ?case by (simp add: deeper_def extends_def)
next
  case (Suc n)
  show ?case unfolding deeper_def
  proof (intro allI)
    fix p c w
    have "extends
      (case rule_prefix rule of None \<Rightarrow> fault
        | Some f \<Rightarrow> res_bind (call_prefix f (compiler_parse_precedence n) c w) (\<lambda>(first, c, w).
            compiler_infix_loop n (compiler_parse_precedence n) p first c w))
      (case rule_prefix rule of None \<Rightarrow> fault
        | Some f \<Rightarrow> res_bind (call_prefix f (compiler_parse_precedence (Suc n)) c w) (\<lambda>(first, c, w).
            compiler_infix_loop (Suc n) (compiler_parse_precedence (Suc n)) p first c w))" for rule fault c w
      unfolding split_beta
      by (cases "rule_prefix rule")
        (auto intro!: extends_bind prefix_deeper [OF Suc.IH] loop_deeper [OF Suc.IH]
          simp del: compiler_infix_loop.simps compiler_parse_precedence.simps)
    then show "extends (compiler_parse_precedence (Suc n) p c w) (compiler_parse_precedence (Suc (Suc n)) p c w)"
      unfolding compiler_parse_precedence.simps(2) [of n] compiler_parse_precedence.simps(2) [of "Suc n"] split_beta
      by (intro extends_bind extends_refl)
  qed
qed

lemma precedence_extends:
  "n \<le> m \<Longrightarrow> extends (compiler_parse_precedence n p c w) (compiler_parse_precedence m p c w)"
proof (induction m rule: dec_induct)
  case base
  show ?case by simp
next
  case (step m)
  from step.IH deeperD [OF precedence_deeper] show ?case by (rule extends_trans)
qed

subsection \<open>The bound of \<open>parse_program\<close>\<close>

definition parse_program_within :: "nat \<Rightarrow> Compiler \<Rightarrow> process \<Rightarrow> parsed" where
  "parse_program_within n compiler w =
     res_bind (compiler_advance compiler w) (\<lambda>(compiler, w).
     res_bind (compiler_parse_expression (compiler_parse_precedence n) compiler w) (\<lambda>(ast, compiler, w).
     res_bind (compiler_consume compiler TOKEN_EOF ''Expected end of expression.'' w) (\<lambda>(compiler, w).
       Inr (ast, compiler, w))))"

lemma parse_program_within_fuel: "parse_program c = parse_program_within (parse_fuel c) c"
  by (rule ext) (simp add: parse_program_def parse_program_within_def Let_def)

lemma program_extends: "n \<le> m \<Longrightarrow> extends (parse_program_within n c w) (parse_program_within m c w)"
  unfolding parse_program_within_def compiler_parse_expression_def split_beta
  by (intro extends_bind extends_refl precedence_extends)

lemma program_bound:
  assumes "has_lexer s c" and "parse_fuel c \<le> n"
  shows "parse_program_within n c w = parse_program c w \<and> parse_program c w \<noteq> Inl OutOfFuel"
proof -
  have "parse_program c w \<noteq> Inl OutOfFuel"
    using parse_program_ok [OF assms(1), of w] by (auto simp: fault_ok_def error_not_enough_memory_def)
  with program_extends [OF assms(2), of c w] show ?thesis
    by (auto simp: extends_def parse_program_within_fuel)
qed

end
