(* ===== verification/Compiler_Properties.thy ===== *)
theory Compiler_Properties
  imports Entry_Points Acceptance Depth Lexer_Properties
begin

text \<open>
  The properties of the compiler: what it makes of expressions, which faults and reports other
  sources cause, that type inference follows the typing rules, and that no memory is lost.
\<close>

subsection \<open>Examples\<close>

text \<open>A compiler and a process, for examples.\<close>

definition sample_token :: Token where
  "sample_token = \<lparr>token_type = TOKEN_EOF, token_start = Message [], token_length = 0,
     token_line = 0, token_column = 0\<rparr>"

definition sample_compiler :: "string \<Rightarrow> Compiler" where
  "sample_compiler s = \<lparr>compiler_lexer = Some (lexer_init (text_block s)), current = sample_token,
     previous = sample_token, is_error = False, is_panic = False\<rparr>"

definition sample_process :: process where
  "sample_process = \<lparr>memory = generous_heap, errors = []\<rparr>"

lemma sample_simps [simp]:
  "compiler_lexer (sample_compiler s) = Some (lexer_init (text_block s))"
  "\<not> is_error (sample_compiler s)" "\<not> is_panic (sample_compiler s)"
  "grants_nodes (memory sample_process)" "live (memory sample_process) = []" "errors sample_process = []"
  by (simp_all add: sample_compiler_def sample_process_def grants_nodes_def generous_heap_def)

lemma sample_source: "terminated s \<Longrightarrow> length s < 2 ^ 31 \<Longrightarrow> source_ok (text_block s) s"
  by (simp add: source_ok_def)

definition sample_words :: "string \<Rightarrow> (string \<times> TokenType) list option" where
  "sample_words s =
     (case token_stream 1 0 s of
        None \<Rightarrow> None
      | Some tokens \<Rightarrow> if tokens = [] then None else Some (token_words s (butlast tokens)))"

lemma sample_stream:
  assumes "sample_words s = Some words"
  obtains tokens eof where "token_stream 1 0 s = Some (tokens @ [eof])" and "token_words s tokens = words"
  using assms that [of "butlast (the (token_stream 1 0 s))" "last (the (token_stream 1 0 s))"]
  by (auto simp: sample_words_def split: option.splits if_splits)

text \<open>The text of the file \<^verbatim>\<open>examples/basic/00_dump.sk\<close> and the expression it spells.\<close>

definition example_text :: string where
  "example_text = ''(((4.3 + 2.3) * 2.5) - (2.3 - 1.2 * -4.3)) | 2''"

definition example_expression :: expr where
  "example_expression = Operation (Parenthesised (Operation
        (Parenthesised (Operation (Parenthesised (Operation (Real_literal ''4'' ''3'') OTOR_PLUS (Real_literal ''2'' ''3'')))
          OTOR_STAR (Real_literal ''2'' ''5'')))
        OTOR_MINUS (Parenthesised (Operation (Real_literal ''2'' ''3'') OTOR_MINUS
          (Operation (Real_literal ''1'' ''2'') OTOR_STAR (Signed OTOR_MINUS (Real_literal ''4'' ''3'')))))))
      OTOR_DIV (Int_literal ''2'')"

lemma example_grammatical: "grammatical example_expression" "\<not> div_ok example_expression"
  by (simp_all add: example_expression_def digits_def is_digit_def less_eq_char_def operator_level_def
      less_eq_Precedence_def less_Precedence_def)

lemma example_words: "sample_words (example_text @ [NUL]) = Some (spelling example_expression)"
  by code_simp

subsection \<open>Expressions\<close>

text \<open>C3: A source whose words are those of an expression of the grammar, whatever white space and
  comments are between them, is compiled as follows: the rows of its tokens are printed, then the
  tree of the expression, in which operators associate to the left and \<open>*\<close>, \<open>/\<close>, \<open>|\<close> bind
  stronger than \<open>+\<close>, \<open>-\<close>, then the tree with its types. Exactly when some \<open>|\<close> has an operand that is not an
  integer a type error is reported; nothing else is reported and all memory is given back.\<close>

theorem expressions_compiled:
  assumes "grammatical e" and "source_ok p s"
    and "token_stream 1 0 s = Some (tokens @ [eof])" and "token_words s tokens = spelling e"
    and "grants_nodes (memory w)"
  shows "\<exists>node out1 out2 err c' h. is_tree e node
    \<and> compiler_compile_source c p w = Inr (False, concat (map (token_row s) (tokens @ [eof])) @ out1 @ out2,
        c', w\<lparr>memory := h, errors := errors w @ err\<rparr>)
    \<and> ast_node_print node True = Inr out1 \<and> ast_node_print (node_annotate node) True = Inr out2
    \<and> (err = [] \<longleftrightarrow> div_ok e) \<and> is_error c' = is_error c \<and> mset (live h) = mset (live (memory w))"
  by (rule compile_expression [OF assms, of c]) blast

text \<open>The source \<open>1+2*0.5\<close>.\<close>

theorem expressions_compiled_witness:
  "\<exists>node out c' h. is_tree (Operation (Int_literal ''1'') OTOR_PLUS
        (Operation (Int_literal ''2'') OTOR_STAR (Real_literal ''0'' ''5''))) node
    \<and> compiler_compile_source (sample_compiler []) (text_block (''1+2*0.5'' @ [NUL])) sample_process =
        Inr (False, out, c', sample_process\<lparr>memory := h\<rparr>) \<and> live h = []"
proof -
  let ?s = "''1+2*0.5'' @ [NUL]"
  let ?e = "Operation (Int_literal ''1'') OTOR_PLUS
        (Operation (Int_literal ''2'') OTOR_STAR (Real_literal ''0'' ''5''))"
  have e: "grammatical ?e" "div_ok ?e"
    by (simp_all add: digits_def is_digit_def less_eq_char_def operator_level_def less_eq_Precedence_def
        less_Precedence_def)
  have "sample_words ?s = Some (spelling ?e)" by code_simp
  then obtain tokens eof where "token_stream 1 0 ?s = Some (tokens @ [eof])" "token_words ?s tokens = spelling ?e"
    by (rule sample_stream)
  from expressions_compiled [OF e(1) sample_source this, of sample_process "sample_compiler []"]
  obtain node out1 out2 err c' h where *: "is_tree ?e node"
    "compiler_compile_source (sample_compiler []) (text_block ?s) sample_process = Inr (False,
      concat (map (token_row ?s) (tokens @ [eof])) @ out1 @ out2, c',
      sample_process\<lparr>memory := h, errors := errors sample_process @ err\<rparr>)"
    "err = [] \<longleftrightarrow> div_ok ?e" "mset (live h) = mset (live (memory sample_process))"
    by (fastforce simp: terminated_Cons simp del: is_tree.simps)
  then have "sample_process\<lparr>memory := h, errors := errors sample_process @ err\<rparr> = sample_process\<lparr>memory := h\<rparr>"
    "live h = []" using e(2) by (simp_all add: sample_process_def)
  with *(1,2) show ?thesis by metis
qed

text \<open>C34: An expression with a \<open>|\<close> whose operands are not both integers is reported as a type error, yet
  \<open>compiler_generate_ast\<close> returns true: the result of the type check is dropped.\<close>

theorem ill_typed_accepted:
  assumes "grammatical e" and "\<not> div_ok e" and "source_ok p s"
    and "token_stream 1 0 s = Some (tokens @ [eof])" and "token_words s tokens = spelling e"
    and "compiler_lexer c = Some (lexer_init p)" and "\<not> is_error c" and "grants_nodes (memory w)"
  shows "\<exists>out c' w'. compiler_generate_ast c w = Inr (True, out, c', w') \<and> \<not> is_error c'
    \<and> errors w' \<noteq> errors w"
proof -
  from generate_expression [OF assms(1,3-6,8)] obtain out c' w' err where
    "compiler_generate_ast c w = Inr (\<not> is_error c, out, c', w')"
    "errors w' = errors w @ err" "err = [] \<longleftrightarrow> div_ok e" "is_error c' = is_error c" by (metis process.select_convs(2)
      process.surjective process.update_convs(2))
  with assms(2,7) show ?thesis by auto
qed

theorem ill_typed_accepted_witness:
  "\<exists>out c' w'. compiler_generate_ast
      (sample_compiler (example_text @ [NUL])) sample_process = Inr (True, out, c', w')
    \<and> errors w' \<noteq> []"
proof -
  let ?s = "example_text @ [NUL]"
  note e = example_grammatical
  have "sample_words ?s = Some (spelling example_expression)" by (rule example_words)
  then obtain tokens eof where "token_stream 1 0 ?s = Some (tokens @ [eof])" "token_words ?s tokens = spelling example_expression"
    by (rule sample_stream)
  from ill_typed_accepted [OF e sample_source this, of "sample_compiler ?s" sample_process]
  show ?thesis by (auto simp: example_text_def terminated_Cons)
qed

text \<open>C1: The parser accepts exactly the expressions of the grammar: from a state without a report it returns without
  one if and only if the words of the source are those of an expression, and then this expression is the only one
  with these words and the tree is its tree.\<close>

theorem accepts_exactly_expressions:
  assumes "source_ok p s" and "token_stream 1 0 s = Some (tokens @ [eof])"
    and "compiler_lexer c = Some (lexer_init p)" and "\<not> is_panic c" and "grants_nodes (memory w)"
  shows "case parse_program c w of
      Inl e \<Rightarrow> \<nexists>e. grammatical e \<and> token_words s tokens = spelling e
    | Inr (node, c', w') \<Rightarrow>
        (if is_panic c' then \<nexists>e. grammatical e \<and> token_words s tokens = spelling e
         else \<exists>e. is_tree e node \<and> (\<forall>e'. grammatical e' \<and> token_words s tokens = spelling e' \<longleftrightarrow> e' = e))"
proof (cases "\<exists>e. grammatical e \<and> token_words s tokens = spelling e")
  case True
  then obtain e where e: "grammatical e" "token_words s tokens = spelling e" by blast
  obtain node c' w' where run: "parse_program c w = Inr (node, c', w')" "is_tree e node" "quiet c w c' w'"
    by (rule parse_program_spelled [OF e(1) assms(1,2) e(2) assms(3,5)])
  have "e' = e" if e': "grammatical e'" "token_words s tokens = spelling e'" for e'
  proof (rule is_tree_unique [OF _ run(2) e'(1) e(1)])
    obtain node' c'' w'' where "parse_program c w = Inr (node', c'', w'')" "is_tree e' node'"
      by (rule parse_program_spelled [OF e'(1) assms(1,2) e'(2) assms(3,5)])
    with run(1) show "is_tree e' node" by simp
  qed (use e(2) e'(2) in simp)
  with e have "grammatical e' \<and> token_words s tokens = spelling e' \<longleftrightarrow> e' = e" for e' by blast
  with run(2) have "\<exists>e. is_tree e node \<and> (\<forall>e'. grammatical e' \<and> token_words s tokens = spelling e' \<longleftrightarrow> e' = e)"
    by blast
  with run(1,3) assms(4) show ?thesis by (simp add: quiet_def)
next
  case False
  show ?thesis
  proof (cases "parse_program c w")
    case (Inl e)
    with False show ?thesis by simp
  next
    case (Inr x)
    obtain node c' w' where x: "x = (node, c', w')" by (cases x)
    have "is_panic c'"
      using accepted_words [OF assms(1-3) Inr [unfolded x]] False by blast
    with Inr x False show ?thesis by simp
  qed
qed

text \<open>The source \<open>(1) - 2\<close>.\<close>

theorem accepts_exactly_expressions_witness:
  "\<exists>node c w. parse_program (sample_compiler (''(1) - 2'' @ [NUL])) sample_process = Inr (node, c, w) \<and> \<not> is_panic c
    \<and> is_tree (Operation (Parenthesised (Int_literal ''1'')) OTOR_MINUS (Int_literal ''2'')) node"
proof -
  let ?s = "''(1) - 2'' @ [NUL]"
  let ?e = "Operation (Parenthesised (Int_literal ''1'')) OTOR_MINUS (Int_literal ''2'')"
  let ?run = "parse_program (sample_compiler ?s) sample_process"
  have e: "grammatical ?e"
    by (simp add: digits_def is_digit_def less_eq_char_def operator_level_def less_eq_Precedence_def
        less_Precedence_def)
  have "sample_words ?s = Some (spelling ?e)" by code_simp
  then obtain tokens eof where stream: "token_stream 1 0 ?s = Some (tokens @ [eof])"
    and "token_words ?s tokens = spelling ?e" by (rule sample_stream)
  with e have expression: "grammatical ?e \<and> token_words ?s tokens = spelling ?e" by blast
  have source: "source_ok (text_block ?s) ?s" by (rule sample_source) (simp_all add: terminated_Cons)
  note accepts = accepts_exactly_expressions [OF source stream sample_simps(1,3,4)]
  show ?thesis
  proof (cases ?run)
    case (Inl f)
    with accepts expression show ?thesis by (simp only: sum.case) blast
  next
    case (Inr x)
    obtain node c w where x: "x = (node, c, w)" by (cases x)
    from accepts have calm: "\<not> is_panic c" unfolding Inr x sum.case prod.case using expression by metis
    from accepts obtain e where e': "is_tree e node"
      "\<forall>e'. grammatical e' \<and> token_words ?s tokens = spelling e' \<longleftrightarrow> e' = e"
      unfolding Inr x sum.case prod.case if_not_P [OF calm] by (elim exE conjE) (rule that)
    from e'(2) expression have "e = ?e" by metis
    with e'(1) have "is_tree ?e node" by (simp only:)
    with Inr [unfolded x] calm show ?thesis by (intro exI conjI)
  qed
qed

subsection \<open>Sources that are no expressions\<close>





text \<open>C6: Parsing any source from a state without a report ends, within the bound on the depth of its calls,
  in a fault that the memory or one of the two known kinds of source explains, or returns. If nothing
  was reported the tree is complete; otherwise exactly one report was written, for all errors of the
  source. The blocks that were allocated are those of the tree.\<close>

theorem parsing_any_source:
  assumes "source_ok p s" and "compiler_lexer c = Some (lexer_init p)" and "\<not> is_panic c"
  shows "case parse_program c w of
      Inl e \<Rightarrow> e = error_not_enough_memory \<or> e = OutOfBounds \<and> ends_in_quote s \<or> e = NullCall \<and> has_null_rule s
    | Inr (node, c', w') \<Rightarrow>
        (if is_panic c'
         then is_error c' \<and> (\<exists>token at message.
           errors w' = errors w @ error_place token @ at @ '': '' @ message @ [newline])
         else is_error c' = is_error c \<and> errors w' = errors w \<and> node_complete node)
        \<and> mset (live (memory w')) = node_blocks node + mset (live (memory w))"
proof (cases "parse_program c w")
  case (Inl e)
  with parse_program_ok [OF source_ok_has_lexer [OF assms(1,2)], of w] show ?thesis
    by (simp add: fault_ok_def)
next
  case (Inr x)
  obtain node c' w' where x: "x = (node, c', w')" by (cases x)
  from parse_program_ok [OF source_ok_has_lexer [OF assms(1,2)], of w] Inr x have
    "one_error c w c' w'" "tree_ok c' node"
    "mset (live (memory w')) = node_blocks node + mset (live (memory w))" by simp_all
  with Inr x assms(3) show ?thesis by (auto simp: one_error_def tree_ok_def dest: fresh_complete(1))
qed

text \<open>The source \<open>) 1 2\<close> has several errors.\<close>

theorem parsing_any_source_witness:
  "case parse_program (sample_compiler ('') 1 2'' @ [NUL])) sample_process of
      Inl e \<Rightarrow> e = error_not_enough_memory
    | Inr (node, c', w') \<Rightarrow> is_panic c' \<longrightarrow> is_error c' \<and> (\<exists>token at message.
        errors w' = error_place token @ at @ '': '' @ message @ [newline])"
proof -
  let ?s = "'') 1 2'' @ [NUL]"
  have source: "source_ok (text_block ?s) ?s" by (rule sample_source) (simp_all add: terminated_Cons)
  have "\<not> ends_in_quote ?s" "\<not> has_null_rule ?s"
    by (auto simp: ends_in_quote_def has_null_rule_def drop_Cons' take_Cons')
  with parsing_any_source [OF source, of "sample_compiler ?s" sample_process] show ?thesis
    by (auto split: sum.splits if_splits)
qed

text \<open>C12: The parser ends: its recursion and its loop stay within the bound that \<open>parse_program\<close> gives them, which is
  twice the length of the source plus two, and a larger bound changes nothing.\<close>

theorem depth_bound_suffices:
  assumes "source_ok p s" and "compiler_lexer c = Some (lexer_init p)" and "2 * length s + 2 \<le> n"
  shows "parse_program_within n c w = parse_program c w \<and> parse_program c w \<noteq> Inl OutOfFuel"
proof (rule program_bound [OF source_ok_has_lexer [OF assms(1,2)]])
  have "room (lexer_init p) = length s"
    using assms(1) by (simp add: room_def source_ok_def holds_text_def)
  with assms(2,3) show "parse_fuel c \<le> n" by (simp add: parse_fuel_def compiler_room_def)
qed

text \<open>The source \<open>((1\<close>.\<close>

theorem depth_bound_suffices_witness:
  "parse_program_within 1000 (sample_compiler (''((1'' @ [NUL])) sample_process =
      parse_program (sample_compiler (''((1'' @ [NUL])) sample_process
    \<and> parse_program (sample_compiler (''((1'' @ [NUL])) sample_process \<noteq> Inl OutOfFuel"
proof -
  have len: "length (''((1'' @ [NUL]) = 4" by simp
  have "source_ok (text_block (''((1'' @ [NUL])) (''((1'' @ [NUL])"
    by (rule sample_source) (simp_all add: terminated_Cons)
  moreover have "2 * length (''((1'' @ [NUL]) + 2 \<le> 1000" unfolding len by simp
  ultimately show ?thesis by (rule depth_bound_suffices [OF _ sample_simps(1)])
qed

text \<open>C14: Every expression of the grammar can be written down and read back: its words with blanks between
  them are a source that the compiler parses, without a report, to the tree of the expression.\<close>

theorem expression_read_back:
  assumes "grammatical e" and "holds_text p (expression_source e)" and "length (expression_source e) < 2 ^ 31"
    and "compiler_lexer c = Some (lexer_init p)" and "grants_nodes (memory w)"
  shows "\<exists>node c' w'. parse_program c w = Inr (node, c', w') \<and> is_tree e node
    \<and> is_panic c' = is_panic c \<and> errors w' = errors w"
proof -
  note source = expression_source_ok [OF assms(1-3)]
  obtain tokens eof where stream: "token_stream 1 0 (expression_source e) = Some (tokens @ [eof])"
    "token_words (expression_source e) tokens = spelling e" by (rule expression_stream [OF assms(1,3)])
  show ?thesis
    using parse_program_spelled [OF assms(1) source stream assms(4,5)] unfolding quiet_def by metis
qed

text \<open>The expression \<open>- ( 1 - 2 ) - 3\<close>.\<close>

theorem expression_read_back_witness:
  "\<exists>node c w. parse_program (sample_compiler ('' - ( 1 - 2 ) - 3 '' @ [NUL])) sample_process = Inr (node, c, w)
    \<and> is_tree (Operation (Signed OTOR_MINUS (Parenthesised (Operation (Int_literal ''1'') OTOR_MINUS (Int_literal ''2''))))
        OTOR_MINUS (Int_literal ''3'')) node \<and> errors w = []"
proof -
  let ?e = "Operation (Signed OTOR_MINUS (Parenthesised (Operation (Int_literal ''1'') OTOR_MINUS (Int_literal ''2''))))
        OTOR_MINUS (Int_literal ''3'')"
  have e: "grammatical ?e"
    by (simp add: digits_def is_digit_def less_eq_char_def operator_level_def less_eq_Precedence_def
        less_Precedence_def)
  have source: "expression_source ?e = '' - ( 1 - 2 ) - 3 '' @ [NUL]"
    by (simp add: expression_source_def expression_words_def operator_word_def)
  from expression_read_back [OF e, of "text_block ('' - ( 1 - 2 ) - 3 '' @ [NUL])"
      "sample_compiler ('' - ( 1 - 2 ) - 3 '' @ [NUL])" sample_process]
  show ?thesis unfolding source by (simp del: is_tree.simps) metis
qed

subsection \<open>Trees\<close>

text \<open>C7: Type inference on the tree of an expression finds the kind that the typing rules give it, which is
  unique, stores it in the root, and returns true; when the rules give it none it reports an error, returns false
  and marks the root invalid. It writes only types: the rest of the tree is as before.\<close>

theorem type_inference_correct:
  assumes "fresh e"
  shows "\<exists>err. compiler_typecheck_ast (AST_NODE_EXPRESSION a e line column) =
      Inr (\<exists>k. has_kind e k, AST_NODE_EXPRESSION a (annotate e) line column, err)
    \<and> (err = [] \<longleftrightarrow> (\<exists>k. has_kind e k))
    \<and> (\<forall>k. has_kind e k \<longleftrightarrow> numeric k \<and> expression_type (annotate e) = \<lparr>kind = k\<rparr>)
    \<and> ((\<nexists>k. has_kind e k) \<longleftrightarrow> expression_type (annotate e) = make_skard_type_invalid)"
proof -
  have some: "(\<exists>k. has_kind e k) = (kind_of e \<noteq> None)" by (simp add: has_kind_iff(2))
  have root: "expression_type (annotate e) = stored (kind_of e)"
    using assms by (cases e) (auto simp: stored_def)
  have "numeric k" if "kind_of e = Some k" for k by (rule kind_of_numeric(2) [OF that])
  then have kinds: "(kind_of e = Some k) = (numeric k \<and> stored (kind_of e) = \<lparr>kind = k\<rparr>)" for k
    by (cases "kind_of e") (auto simp: numeric_def make_skard_type_invalid_def make_skard_type_simple_def)
  have "(kind_of e = None) = (stored (kind_of e) = make_skard_type_invalid)"
    using kind_of_numeric(2) [of e]
    by (cases "kind_of e") (auto simp: numeric_def make_skard_type_invalid_def make_skard_type_simple_def)
  with typecheck_correct [of "AST_NODE_EXPRESSION a e line column"] assms kinds root some show ?thesis
    by (auto simp: has_kind_iff(2))
qed

text \<open>The tree of \<open>1 / 2\<close> has a real value.\<close>

theorem type_inference_correct_witness:
  "\<exists>err. compiler_typecheck_ast (AST_NODE_EXPRESSION 1 (AST_EXPR_BINARY make_skard_type_unknown
        (AST_NODE_EXPRESSION 2 (AST_EXPR_VALUE make_skard_type_int (make_value_int 1)) 0 0)
        (AST_NODE_EXPRESSION 3 (AST_EXPR_VALUE make_skard_type_int (make_value_int 2)) 0 0) OTOR_SLASH) 0 0) =
      Inr (True, AST_NODE_EXPRESSION 1 (AST_EXPR_BINARY make_skard_type_real
        (AST_NODE_EXPRESSION 2 (AST_EXPR_VALUE make_skard_type_int (make_value_int 1)) 0 0)
        (AST_NODE_EXPRESSION 3 (AST_EXPR_VALUE make_skard_type_int (make_value_int 2)) 0 0) OTOR_SLASH) 0 0, err)"
  using type_inference_correct [of "AST_EXPR_BINARY make_skard_type_unknown
        (AST_NODE_EXPRESSION 2 (AST_EXPR_VALUE make_skard_type_int (make_value_int 1)) 0 0)
        (AST_NODE_EXPRESSION 3 (AST_EXPR_VALUE make_skard_type_int (make_value_int 2)) 0 0) OTOR_SLASH" 1 0 0]
  by (auto simp: make_skard_type_unknown_def make_skard_type_int_def make_skard_type_real_def
      make_skard_type_simple_def make_value_int_def numeric_def has_kind_iff binary_kind_def)

text \<open>C26: \<open>ast_node_free\<close> on a tree without null pointers frees every node of the tree once and nothing else.\<close>

theorem trees_released:
  assumes "node_complete node" and "mset (live h) = node_blocks node + F"
  shows "\<exists>h'. ast_node_free node h = Inr h' \<and> mset (live h') = F"
  using tree_free(1) [OF assms] by blast

theorem trees_released_witness:
  "\<exists>h. ast_node_free (AST_NODE_EXPRESSION 1 (AST_EXPR_GROUPING make_skard_type_unknown
        (AST_NODE_EXPRESSION 2 (AST_EXPR_VALUE make_skard_type_int (make_value_int 1)) 0 0)) 0 0)
      (generous_heap\<lparr>live := [2, 3, 1]\<rparr>) = Inr h \<and> live h = [3]"
  using trees_released [of "AST_NODE_EXPRESSION 1 (AST_EXPR_GROUPING make_skard_type_unknown
        (AST_NODE_EXPRESSION 2 (AST_EXPR_VALUE make_skard_type_int (make_value_int 1)) 0 0)) 0 0"
      "generous_heap\<lparr>live := [2, 3, 1]\<rparr>" "{#3#}"]
  by auto

text \<open>C33: Printing a tree comes back exactly when no pointer in it is null; otherwise it follows that pointer.\<close>

theorem trees_printed:
  "case ast_node_print node end_line of Inl e \<Rightarrow> e = NullDeref \<and> \<not> node_complete node | Inr s \<Rightarrow> node_complete node"
proof (cases "ast_node_print node end_line")
  case (Inl e)
  with tree_print(1) [of node end_line] tree_print_fault(1) [OF Inl] show ?thesis by auto
next
  case (Inr s)
  with tree_print(1) [of node end_line] show ?thesis by auto
qed

subsection \<open>Entry points\<close>

text \<open>C17: Compiling any source in memory returns false and gives back all memory it took, or ends in a fault:
  no memory for a node, a null pointer in a tree with an error, or the two faults that the source explains.\<close>

theorem compiling_any_source:
  assumes "source_ok p s"
  shows "case compiler_compile_source c p w of
      Inl e \<Rightarrow> e = error_not_enough_memory \<or> e = NullDeref \<or> e = OutOfBounds \<and> ends_in_quote s
        \<or> e = NullCall \<and> has_null_rule s
    | Inr (result, out, c', w') \<Rightarrow> \<not> result \<and> mset (live (memory w')) = mset (live (memory w))"
  using compile_source_ok [OF assms, where c = c and w = w]
  by (auto simp: compile_fault_def fault_ok_def split: sum.splits)

text \<open>A source with a character that begins no token.\<close>

theorem compiling_any_source_witness:
  "case compiler_compile_source (sample_compiler []) (text_block (''# 1'' @ [NUL])) sample_process of
      Inl e \<Rightarrow> e = error_not_enough_memory \<or> e = NullDeref
    | Inr (result, out, c', w') \<Rightarrow> \<not> result \<and> live (memory w') = []"
proof -
  let ?s = "''# 1'' @ [NUL]"
  have source: "source_ok (text_block ?s) ?s" by (rule sample_source) (simp_all add: terminated_Cons)
  have "\<not> ends_in_quote ?s" "\<not> has_null_rule ?s"
    by (auto simp: ends_in_quote_def has_null_rule_def drop_Cons' take_Cons')
  with compiling_any_source [OF source, where c = "sample_compiler []" and w = sample_process] show ?thesis
    by (auto split: sum.splits)
qed

text \<open>C25: \<open>read_file\<close> returns a block with the characters of the file up to the length \<open>ftell\<close> told, and a terminator;
  it exits when the file cannot be opened, no memory is granted or fewer characters can be read. When \<open>ftell\<close>
  fails (\<open>-1\<close>) it writes a file that has characters behind a block of no bytes.\<close>

theorem read_file_correct:
  "case fs filename of
     None \<Rightarrow> read_file fs filename h = Inl (error_could_not_open_file filename)
   | Some file \<Rightarrow>
       (case read_file fs filename h of
          Inl e \<Rightarrow> e = error_not_enough_memory_to_read filename
              \<and> \<not> host_grants h (requests h) (unat (file_tell file + 1))
            \<or> e = error_could_not_read filename \<and> length (file_data file) < unat (file_tell file)
            \<or> e = OutOfBounds \<and> file_tell file = - 1 \<and> file_data file \<noteq> []
        | Inr (source, h') \<Rightarrow> \<exists>a. source = Block a (map Some (take (unat (file_tell file)) (file_data file) @ [NUL]))
            \<and> mset (live h') = add_mset a (mset (live h)) \<and> unat (file_tell file) \<le> length (file_data file))"
proof (cases "fs filename")
  case None
  then show ?thesis by (simp add: read_file_def)
next
  case (Some f)
  from Some show ?thesis by (cases rule: read_file_cases [where h = h]) (simp_all add: Some)
qed

text \<open>C24: Compiling a file whose text has no terminator and is shorter than \<open>2 ^ 31\<close> gives back the memory of the text
  and of the tree and returns false, or ends in a fault of reading or of compiling the text.\<close>

theorem compiling_any_file:
  assumes "fs filename = Some file" and "unat (file_tell file) < 2 ^ 31 - 1"
    and "NUL \<notin> set (take (unat (file_tell file)) (file_data file))"
  shows "case compiler_compile_file fs c filename w of
      Inl e \<Rightarrow> e = error_not_enough_memory_to_read filename \<or> e = error_could_not_read filename
        \<or> compile_fault (take (unat (file_tell file)) (file_data file) @ [NUL]) e
    | Inr (result, out, c', w') \<Rightarrow> \<not> result \<and> mset (live (memory w')) = mset (live (memory w))"
  by (rule compile_file_ok [where fs = fs, OF assms])

theorem compiling_any_file_witness:
  "case compiler_compile_file [''a.sk'' \<mapsto> \<lparr>file_tell = 3, file_data = ''1 2''\<rparr>] (sample_compiler []) ''a.sk'' sample_process of
      Inl e \<Rightarrow> e = error_not_enough_memory_to_read ''a.sk'' \<or> e = error_could_not_read ''a.sk''
        \<or> compile_fault (''1 2'' @ [NUL]) e
    | Inr (result, out, c', w') \<Rightarrow> \<not> result \<and> live (memory w') = []"
  using compiling_any_file [of "[''a.sk'' \<mapsto> \<lparr>file_tell = 3, file_data = ''1 2''\<rparr>]" "''a.sk''"
      "\<lparr>file_tell = 3, file_data = ''1 2''\<rparr>", where c = "sample_compiler []" and w = sample_process]
  by (auto split: sum.splits)

text \<open>C16: The program \<^verbatim>\<open>main.c\<close> on a generous host, with the text of an expression in its example file: it prints the
  listing of its chunk and, when it runs it, the constant \<open>0.420000\<close>; then the tokens and the trees of the expression. It returns
  0, reports only type errors, and has freed everything it allocated.\<close>

theorem main_program:
  assumes "fs ''examples/basic/00_dump.sk'' = Some file"
    and "file_tell file = word_of_nat (length (file_data file))"
    and "sane (memory w)" and "generous (memory w)" and "grammatical e"
    and "terminated (file_data file @ [NUL])" and "length (file_data file) < 2 ^ 31 - 1"
    and "token_stream 1 0 (file_data file @ [NUL]) = Some (tokens @ [eof])"
    and "token_words (file_data file @ [NUL]) tokens = spelling e"
  shows "\<exists>node out1 out2 err h. is_tree e node \<and> ast_node_print node True = Inr out1
    \<and> ast_node_print (node_annotate node) True = Inr out2 \<and> (err = [] \<longleftrightarrow> div_ok e)
    \<and> mset (live h) = mset (live (memory w))
    \<and> main fs vm c w = Inr (0, main_text @ ''Test tokenize...'' @ [newline]
        @ concat (map (token_row (file_data file @ [NUL])) (tokens @ [eof])) @ out1 @ out2,
        w\<lparr>memory := h, errors := errors w @ err\<rparr>)"
proof -
  obtain h where vm: "main_vm vm (memory w) = Inr (main_text, h)"
    and live: "mset (live h) = mset (live (memory w))" and host: "host_grants h = host_grants (memory w)"
    using main_vm_text [OF assms(3), of vm] assms(4) by (auto split: sum.splits)
  let ?w = "w\<lparr>memory := h\<rparr>"
  have "generous (memory ?w)" using assms(4) host by (simp add: generous_def)
  from compile_file_expression [where fs = fs and c = "compiler_init c", OF assms(1,2) this assms(5-9)]
  obtain node out1 out2 err c' h' where run: "is_tree e node"
    "compiler_compile_file fs (compiler_init c) ''examples/basic/00_dump.sk'' ?w = Inr (False,
      concat (map (token_row (file_data file @ [NUL])) (tokens @ [eof])) @ out1 @ out2,
      c', ?w\<lparr>memory := h', errors := errors ?w @ err\<rparr>)"
    "ast_node_print node True = Inr out1" "ast_node_print (node_annotate node) True = Inr out2"
    "err = [] \<longleftrightarrow> div_ok e" "mset (live h') = mset (live (memory ?w))" .
  then have "main fs vm c w = Inr (0, main_text @ ''Test tokenize...'' @ [newline]
        @ concat (map (token_row (file_data file @ [NUL])) (tokens @ [eof])) @ out1 @ out2,
        w\<lparr>memory := h', errors := errors w @ err\<rparr>)"
    using vm by (simp add: main_def)
  with run(1,3-6) live show ?thesis
    by (intro exI [of _ node] exI [of _ out1] exI [of _ out2] exI [of _ err] exI [of _ h'] conjI) simp_all
qed

text \<open>The program on its own example file, whose expression has a type error.\<close>

theorem main_program_witness:
  "\<forall>vm c. \<exists>out h err. main [''examples/basic/00_dump.sk'' \<mapsto> \<lparr>file_tell = 46, file_data = example_text\<rparr>]
      vm c sample_process = Inr (0, main_text @ out, \<lparr>memory = h, errors = err\<rparr>)
    \<and> live h = [] \<and> err \<noteq> []"
proof (intro allI)
  fix vm c
  let ?file = "\<lparr>file_tell = 46, file_data = example_text\<rparr>"
  let ?fs = "[''examples/basic/00_dump.sk'' \<mapsto> ?file]"
  have len: "length example_text = 46" by (simp add: example_text_def)
  note e = example_grammatical
  obtain tokens eof where tokens: "token_stream 1 0 (file_data ?file @ [NUL]) = Some (tokens @ [eof])"
    "token_words (file_data ?file @ [NUL]) tokens = spelling example_expression"
    by (rule sample_stream [OF example_words]) simp
  have host: "sane (memory sample_process)" "generous (memory sample_process)" by (simp_all add: sample_process_def)
  have found: "?fs ''examples/basic/00_dump.sk'' = Some ?file" "file_tell ?file = word_of_nat (length (file_data ?file))"
    "length (file_data ?file) < 2 ^ 31 - 1" using len by simp_all
  have terminated: "terminated (file_data ?file @ [NUL])" by (simp add: example_text_def terminated_Cons)
  from main_program [where fs = ?fs, OF found(1,2) host e(1) terminated found(3) tokens, of vm c]
  obtain node out1 out2 err h where *: "err = [] \<longleftrightarrow> div_ok example_expression"
    "mset (live h) = mset (live (memory sample_process))"
    "main ?fs vm c sample_process = Inr (0, main_text @ ''Test tokenize...'' @ [newline]
        @ concat (map (token_row (file_data ?file @ [NUL])) (tokens @ [eof])) @ out1 @ out2,
        sample_process\<lparr>memory := h, errors := errors sample_process @ err\<rparr>)" by (elim exE conjE)
  moreover have "sample_process\<lparr>memory := h, errors := errors sample_process @ err\<rparr> = \<lparr>memory = h, errors = err\<rparr>"
    by (simp add: sample_process_def)
  ultimately show "\<exists>out h err. main ?fs vm c sample_process =
      Inr (0, main_text @ out, \<lparr>memory = h, errors = err\<rparr>) \<and> live h = [] \<and> err \<noteq> []"
    using e(2) by (intro exI [of _ "''Test tokenize...'' @ [newline]
        @ concat (map (token_row (file_data ?file @ [NUL])) (tokens @ [eof])) @ out1 @ out2"] exI [of _ h] exI [of _ err]) simp
qed

end
