(* ===== verification/Decimals.thy ===== *)
theory Decimals
  imports Complex_Main Stdlib
begin

text \<open>
  Decimal numerals: what \<open>strtoll\<close> and \<open>strtod\<close> make of them and that \<open>printf\<close> writes them back.
\<close>

subsection \<open>Digits\<close>

lemma digit_char:
  assumes "d < 10"
  shows "is_digit (digit_char d)" and "digit_value (digit_char d) = d"
proof -
  have "d \<in> {0, 1, 2, 3, 4, 5, 6, 7, 8, 9}" using assms by auto
  then show "is_digit (digit_char d)" and "digit_value (digit_char d) = d"
    by (auto simp: digit_char_def is_digit_def digit_value_def less_eq_char_def)
qed

lemma digit_char_value:
  assumes "is_digit c"
  shows "digit_char (digit_value c) = c" and "digit_value c < 10"
proof -
  define n :: nat where "n = of_char c"
  have c: "c = char_of n" by (simp add: n_def)
  have "48 \<le> n" "n \<le> 57" using assms by (simp_all add: is_digit_def less_eq_char_def n_def)
  then have "n \<in> {48, 49, 50, 51, 52, 53, 54, 55, 56, 57}" by simp presburger
  then have "of_char (digit_char (n - 48)) = n" by (auto simp: digit_char_def)
  then have "digit_char (n - 48) = c" using c by (metis char_of_char)
  then show "digit_char (digit_value c) = c" by (simp add: digit_value_def n_def)
  show "digit_value c < 10" using \<open>n \<le> 57\<close> by (simp add: digit_value_def n_def)
qed

lemma digits_value_snoc [simp]: "digits_value (i @ [c]) = 10 * digits_value i + digit_value c"
  by (simp add: digits_value_def)

lemma digits_value_append: "digits_value (i @ j) = digits_value i * 10 ^ length j + digits_value j"
proof (induction j rule: rev_induct)
  case (snoc c j)
  then show ?case by (simp add: algebra_simps flip: append_assoc)
qed (simp add: digits_value_def)

lemma digits_value_zeros [simp]: "digits_value (replicate z (CHR ''0'')) = 0"
  by (induction z) (simp_all add: digits_value_def digit_value_def)

lemma digits_value_less: "list_all is_digit i \<Longrightarrow> digits_value i < 10 ^ length i"
proof (induction i rule: rev_induct)
  case (snoc c i)
  then show ?case using digit_char_value(2) [of c] by simp
qed (simp add: digits_value_def)

lemma digits_value_show: "list_all is_digit (show_nat n) \<and> digits_value (show_nat n) = n"
proof (induction n rule: show_nat.induct)
  case (1 n)
  show ?case
  proof (cases "n < 10")
    case True
    with digit_char [OF True] show ?thesis by (simp add: show_nat.simps digits_value_def)
  next
    case False
    with "1.IH" digit_char [of "n mod 10"] show ?thesis by (simp add: show_nat.simps [of n])
  qed
qed

lemma show_nat_nonempty [simp]: "show_nat n \<noteq> []"
  by (simp add: show_nat.simps [of n])

text \<open>Digits are their value, padded to their number.\<close>

lemma pad_zero_Suc:
  assumes "0 < k"
  shows "pad_zero (Suc k) (show_nat n) = pad_zero k (show_nat (n div 10)) @ [digit_char (n mod 10)]"
proof (cases "n < 10")
  case True
  obtain j where "k = Suc j" using assms gr0_implies_Suc by blast
  with True show ?thesis
    by (simp add: pad_zero_def show_nat.simps [of n] show_nat.simps [of 0] digit_char_def replicate_append_same)
next
  case False
  then show ?thesis by (simp add: pad_zero_def show_nat.simps [of n])
qed

lemma pad_zero_digits:
  "list_all is_digit i \<Longrightarrow> i \<noteq> [] \<Longrightarrow> pad_zero (length i) (show_nat (digits_value i)) = i"
proof (induction i rule: rev_induct)
  case (snoc c i)
  note c = digit_char_value [of c]
  show ?case
  proof (cases "i = []")
    case True
    with snoc.prems c show ?thesis
      by (simp add: digits_value_def pad_zero_def show_nat.simps)
  next
    case False
    with snoc c show ?thesis by (simp add: pad_zero_Suc)
  qed
qed simp

subsection \<open>Integers\<close>

text \<open>The number \<open>n\<close> with \<open>z\<close> leading zeros.\<close>

definition numeral_of :: "nat \<Rightarrow> nat \<Rightarrow> string" where
  "numeral_of z n = replicate z (CHR ''0'') @ show_nat n"

lemma numeral_digits: "list_all is_digit (numeral_of z n)" "numeral_of z n \<noteq> []" "digits_value (numeral_of z n) = n"
  using digits_value_show [of n]
  by (auto simp: numeral_of_def digits_value_append list_all_iff is_digit_def less_eq_char_def)

lemma sint_saturate64: "sint (saturate64 (int n)) = int (min n (2 ^ 63 - 1))"
  by (simp add: saturate64_def signed_of_int signed_take_bit_int_eq_self min_def of_nat_diff)

lemma print_saturate64: "print_lld (saturate64 (int n)) = show_nat (min n (2 ^ 63 - 1))"
  by (simp only: print_lld_def sint_saturate64) simp

subsection \<open>Rounding\<close>

lemma round_half_even_error:
  assumes "0 < d"
  shows "2 * n \<le> 2 * d * round_half_even n d + d" and "2 * d * round_half_even n d \<le> 2 * n + d"
proof -
  define x r where "x = d * (n div d)" and "r = n mod d"
  have n: "n = x + r" and r: "r < d" using assms by (simp_all add: x_def r_def)
  have "2 * r \<le> d \<and> d * round_half_even n d = x \<or> d \<le> 2 * r \<and> d * round_half_even n d = x + d"
    by (auto simp: round_half_even_def Let_def x_def r_def)
  with n r show "2 * n \<le> 2 * d * round_half_even n d + d" "2 * d * round_half_even n d \<le> 2 * n + d"
    by (auto simp: mult.assoc)
qed

text \<open>A multiple of \<open>d\<close> that is closer than \<open>d / 2\<close> is what is found.\<close>

lemma round_half_even_close:
  assumes "2 * n < 2 * (d * q) + d" and "2 * (d * q) < 2 * n + d"
  shows "round_half_even n d = q"
proof -
  have d: "0 < d" using assms by (cases d) auto
  note err = round_half_even_error [OF d, of n]
  let ?r = "round_half_even n d"
  have "2 * d * ?r < 2 * d * (q + 1)" "2 * d * q < 2 * d * (?r + 1)"
    using err assms by (simp_all add: algebra_simps)
  then have "?r < q + 1" "q < ?r + 1" by (simp_all only: mult_less_cancel1)
  then show ?thesis by simp
qed


subsection \<open>binary64\<close>

lemma ilog2_bounds: "0 < n \<Longrightarrow> 2 ^ ilog2 n \<le> n \<and> n < 2 ^ Suc (ilog2 n)"
proof (induction n rule: ilog2.induct)
  case (1 n)
  show ?case
  proof (cases "n < 2")
    case True
    with "1.prems" show ?thesis by (simp add: ilog2.simps)
  next
    case False
    with "1.IH" have "2 ^ ilog2 (n div 2) \<le> n div 2" "n div 2 < 2 ^ Suc (ilog2 (n div 2))" by auto
    with False show ?thesis by (simp add: ilog2.simps [of n]) linarith
  qed
qed

lemma ilog2_real:
  assumes "0 < n"
  shows "2 ^ ilog2 n \<le> real n" and "real n < 2 * 2 ^ ilog2 n"
proof -
  have "real (2 ^ ilog2 n) \<le> real n" "real n < real (2 ^ Suc (ilog2 n))"
    using ilog2_bounds [OF assms] by (simp_all only: of_nat_le_iff of_nat_less_iff)
  then show "2 ^ ilog2 n \<le> real n" "real n < 2 * 2 ^ ilog2 n" by simp_all
qed

lemma ge_power_real:
  assumes "0 < d"
  shows "ge_power m d k \<longleftrightarrow> real d * 2 powi k \<le> real m"
proof (cases "0 \<le> k")
  case True
  have "d * 2 ^ nat k \<le> m \<longleftrightarrow> real (d * 2 ^ nat k) \<le> real m" by (simp only: of_nat_le_iff)
  with True show ?thesis by (simp add: ge_power_def power_int_def)
next
  case False
  have "d \<le> m * 2 ^ nat (- k) \<longleftrightarrow> real d \<le> real (m * 2 ^ nat (- k))" by (simp only: of_nat_le_iff)
  with False show ?thesis by (simp add: ge_power_def power_int_def field_simps)
qed

lemma ratio_log2_bounds:
  assumes "0 < m" and "0 < d"
  shows "real d * 2 powi ratio_log2 m d \<le> real m" and "real m < real d * 2 powi (ratio_log2 m d + 1)"
proof -
  define k where "k = int (ilog2 m) - int (ilog2 d)"
  define a b where "a = (2 :: real) ^ ilog2 m" and "b = (2 :: real) ^ ilog2 d"
  have pos: "0 < a" "0 < b" by (simp_all add: a_def b_def)
  have m: "a \<le> real m" "real m < 2 * a" and d: "b \<le> real d" "real d < 2 * b"
    using ilog2_real assms by (simp_all add: a_def b_def)
  have k: "(2 :: real) powi k = a / b" by (simp add: k_def a_def b_def power_int_diff)
  have "real m * b < real d * (2 * a)" "real d * a \<le> 2 * b * real m"
    using mult_less_le_imp_less [OF m(2) d(1)] mult_mono [of "real d" "2 * b" a "real m"] m d pos
    by (simp_all add: mult.commute)
  then have up: "real m < real d * (2 * 2 powi k)" and low: "real d * (2 powi k / 2) \<le> real m"
    unfolding k using pos by (simp_all add: field_simps)
  have "2 * 2 powi k = (2 :: real) powi (k + 1)" "2 powi k / 2 = (2 :: real) powi (k - 1)"
    by (simp_all add: power_int_add power_int_diff)
  with up low ge_power_real [OF assms(2), of m k]
  show "real d * 2 powi ratio_log2 m d \<le> real m" "real m < real d * 2 powi (ratio_log2 m d + 1)"
    by (auto simp: ratio_log2_def Let_def k_def [symmetric] not_le)
qed


text \<open>A significand of 53 bits and a unit \<open>2 ^ - t\<close> as a bit pattern, and back.\<close>

lemma binary64_fields:
  assumes "t \<le> 1073" and "2 ^ 52 \<le> q" and "q < 2 ^ 53"
  defines "w \<equiv> word_of_nat ((1074 - t) * 2 ^ 52 + q) :: 64 word"
  shows "\<not> b64_negative w" and "b64_exponent w = 1075 - t" and "b64_significand w = q" and "b64_unit w = - int t"
proof -
  obtain f where q: "q = 2 ^ 52 + f" "f < 2 ^ 52" using assms(2,3) le_Suc_ex [OF assms(2)] by auto
  have n: "(1074 - t) * 2 ^ 52 + q = (1075 - t) * 2 ^ 52 + f"
    using assms(1) q(1) by (simp add: algebra_simps diff_mult_distrib)
  have less: "(1075 - t) * 2 ^ 52 + f < 1076 * 2 ^ 52" using q(2) by (simp add: diff_mult_distrib)
  then have w: "unat w = (1075 - t) * 2 ^ 52 + f"
    unfolding w_def n by (intro unat_size_of_nat) simp
  show "\<not> b64_negative w" using w less by (simp add: b64_negative_def)
  have "unat w div 2 ^ 52 = 1075 - t" "unat w mod 2 ^ 52 = f" using w q(2) by simp_all
  then have e: "b64_exponent w = 1075 - t" and "b64_fraction w = f"
    using assms(1) by (simp_all add: b64_exponent_def b64_fraction_def)
  with q(1) assms(1) show "b64_exponent w = 1075 - t" "b64_significand w = q" "b64_unit w = - int t"
    by (simp_all add: b64_significand_def b64_unit_def)
qed


lemma print_binary64_parts:
  assumes "\<not> b64_negative w" and "b64_exponent w < 2047" and "b64_unit w = - int u" and "0 < u"
    and "round_half_even (b64_significand w * 10 ^ 6) (2 ^ u) = M"
  shows "print_lf w = show_nat (M div 10 ^ 6) @ ''.'' @ pad_zero 6 (show_nat (M mod 10 ^ 6))"
  using assms by (simp add: print_lf_def Let_def)

text \<open>
  A number of millionths below \<open>2 ^ 52\<close> is closer to its binary64 value than half a millionth,
  so \<open>%lf\<close> writes it exactly.
\<close>

lemma print_binary64:
  assumes M: "M * d = m * 10 ^ 6" and range: "0 < M" "M < 2 ^ 52" and d: "0 < d"
  shows "print_lf (binary64_of_ratio m d) = show_nat (M div 10 ^ 6) @ ''.'' @ pad_zero 6 (show_nat (M mod 10 ^ 6))"
proof -
  define k where "k = ratio_log2 m d"
  have m: "0 < m" using M range(1) d by (cases m) auto
  have "real (M * d) = real (m * 10 ^ 6)" by (simp only: M)
  then have ratio: "real m = real d * (real M / 10 ^ 6)" by (simp add: mult.commute)
  have "2 powi k \<le> real M / 10 ^ 6" and "real M / 10 ^ 6 < 2 powi (k + 1)"
    using ratio_log2_bounds [OF m d] d unfolding k_def ratio by simp_all
  then have "2 powi k < (2 :: real) powi 33" and "(2 :: real) powi (- 20) < 2 powi (k + 1)"
    using range by (simp_all add: field_simps)
  then have "\<not> 33 \<le> k" "\<not> k + 1 \<le> - 20"
    using power_int_increasing [of 33 k "2 :: real"] power_int_increasing [of "k + 1" "- 20" "2 :: real"] by linarith+
  then have k: "- 20 \<le> k" "k < 33" by simp_all
  define t where "t = nat (52 - k)"
  have t: "k = 52 - int t" "20 \<le> t" "t \<le> 72" using k by (simp_all add: t_def)
  then have scale: "(2 :: real) powi k = 2 ^ 52 / 2 ^ t" by (simp add: power_int_diff)
  let ?N = "m * 2 ^ t"
  define q where "q = round_half_even ?N d"
  have "real (2 ^ 52 * d) \<le> real ?N" "real ?N < real (2 ^ 53 * d)"
    using ratio_log2_bounds [OF m d] unfolding k_def [symmetric] power_int_add [of "2 :: real" k 1, simplified] scale
    by (simp_all add: field_simps)
  then have N: "2 ^ 52 * d \<le> ?N" "?N < 2 ^ 53 * d" by (simp_all only: of_nat_le_iff of_nat_less_iff)
  note err = round_half_even_error [OF d, of ?N, folded q_def]
  have close: "x * 2 ^ 53 \<le> 2 * z + x \<and> 2 * z < x * 2 ^ 54 + x"
    if "2 * y \<le> 2 * z + x" "2 * z \<le> 2 * y + x" "2 ^ 52 * x \<le> y" "y < 2 ^ 53 * x" for x y z :: nat
    using that by simp
  have "d * 2 ^ 53 \<le> 2 * (d * q) + d \<and> 2 * (d * q) < d * 2 ^ 54 + d"
    by (rule close [of ?N]) (use err N in \<open>simp_all only: mult.assoc\<close>)
  then have "d * 2 ^ 53 \<le> d * (2 * q + 1)" "d * (2 * q) < d * (2 ^ 54 + 1)"
    by (simp_all only: distrib_left mult.left_commute [of d 2 q] mult_1_right)
  then have "2 ^ 53 \<le> 2 * q + 1" "2 * q < 2 ^ 54 + 1" by (simp_all only: mult_le_cancel1 mult_less_cancel1 d)
  then have q: "2 ^ 52 \<le> q" "q \<le> 2 ^ 53" by simp_all
  have e: "ratio_unit m d = - int t" using t by (simp add: ratio_unit_def k_def [symmetric])
  have small: "(1074 - t) * 2 ^ 52 + q \<le> 2047 * 2 ^ 52" using q(2) t(2) by simp
  have w: "binary64_of_ratio m d = word_of_nat ((1074 - t) * 2 ^ 52 + q)"
    using m e t(2,3) small by (simp add: binary64_of_ratio_def scaled_round_def q_def Let_def nat_diff_distrib')
  have whole: "2 * ?N * 10 ^ 6 = d * (2 * (2 ^ t * M))" using M by (simp add: algebra_simps)
  have "2 * ?N * 10 ^ 6 \<le> (2 * d * q + d) * 10 ^ 6" "2 * d * q * 10 ^ 6 \<le> (2 * ?N + d) * 10 ^ 6"
    using err by (simp_all only: mult_le_mono1)
  moreover have "(2 * d * q + d) * 10 ^ 6 = d * (2 * (q * 10 ^ 6) + 10 ^ 6)"
    "2 * d * q * 10 ^ 6 = d * (2 * (q * 10 ^ 6))" by (simp_all add: algebra_simps)
  ultimately have "d * (2 * (2 ^ t * M)) \<le> d * (2 * (q * 10 ^ 6) + 10 ^ 6)"
    "d * (2 * (q * 10 ^ 6)) \<le> d * (2 * (2 ^ t * M) + 10 ^ 6)"
    by (simp_all only: distrib_left distrib_right whole)
  then have micros: "2 * (2 ^ t * M) \<le> 2 * (q * 10 ^ 6) + 10 ^ 6" "2 * (q * 10 ^ 6) \<le> 2 * (2 ^ t * M) + 10 ^ 6"
    using d by (simp_all only: mult_le_cancel1)
  have "(2 :: nat) ^ 20 \<le> 2 ^ t" using t(2) by (intro power_increasing) simp_all
  then have near: "10 ^ 6 < (2 :: nat) ^ t" by simp
  have close: "2 * (q * 10 ^ 6) < 2 * (2 ^ t * M) + 2 ^ t" "2 * (2 ^ t * M) < 2 * (q * 10 ^ 6) + 2 ^ t"
    by (rule le_less_trans [OF micros(2)], use near in simp) (rule le_less_trans [OF micros(1)], use near in simp)
  show ?thesis
  proof (cases "q = 2 ^ 53")
    case False
    then have "q < 2 ^ 53" "t \<le> 1073" using q(2) t(3) by simp_all
    note fields = binary64_fields [OF this(2) q(1) this(1), folded w]
    have "round_half_even (q * 10 ^ 6) (2 ^ t) = M"
      by (rule round_half_even_close [OF close])
    with fields t(2,3) show ?thesis by (intro print_binary64_parts [where u = t]) simp_all
  next
    case True
    obtain u where u: "t = Suc u" using t(2) by (cases t) simp_all
    have "(1074 - t) * 2 ^ 52 + q = (1074 - u) * 2 ^ 52 + 2 ^ 52" using True u t(3) by (simp add: diff_mult_distrib)
    note w' = w [unfolded this]
    have "u \<le> 1073" "(2 :: nat) ^ 52 \<le> 2 ^ 52" "(2 :: nat) ^ 52 < 2 ^ 53" using u t(3) by simp_all
    note fields = binary64_fields [OF this, folded w']
    have "2 * (2 ^ 52 * 10 ^ 6) < 2 * (2 ^ u * M) + 2 ^ u" "2 * (2 ^ u * M) < 2 * (2 ^ 52 * 10 ^ 6) + (2 :: nat) ^ u"
      using close unfolding True u power_Suc by simp_all
    then have "round_half_even (2 ^ 52 * 10 ^ 6) (2 ^ u) = M"
      by (rule round_half_even_close)
    with fields t(2,3) u show ?thesis by (intro print_binary64_parts [where u = u]) simp_all
  qed
qed


subsection \<open>Literals\<close>

lemma not_digits [simp]: "\<not> is_digit (CHR ''.'')" "is_digit (CHR ''0'')"
  by (simp_all add: is_digit_def less_eq_char_def)

lemma strtoll_numeral: "c_strtoll (numeral_of z n) = saturate64 (int n)"
proof -
  obtain c i where i: "numeral_of z n = c # i" using numeral_digits(2) [of z n] by (cases "numeral_of z n") auto
  have all: "list_all is_digit (c # i)" using numeral_digits(1) [of z n] i by simp
  then have c: "\<not> is_space c" "c \<noteq> CHR ''-''" "c \<noteq> CHR ''+''"
    by (auto simp: is_digit_def is_space_def less_eq_char_def)
  have "takeWhile is_digit (c # i) = c # i" using all by (intro takeWhile_eq_all_conv [THEN iffD2]) (simp add: list_all_iff)
  with c have "c_strtoll (c # i) = saturate64 (int (digits_value (c # i)))" by (simp add: c_strtoll_def)
  then show ?thesis using numeral_digits(3) [of z n] i by simp
qed

lemma strtod_decimal:
  assumes "list_all is_digit f"
  shows "c_strtod (numeral_of z n @ CHR ''.'' # f) = binary64_of_ratio (n * 10 ^ length f + digits_value f) (10 ^ length f)"
proof -
  have all: "\<forall>c \<in> set (numeral_of z n). is_digit c" "\<forall>c \<in> set f. is_digit c"
    using numeral_digits(1) [of z n] assms by (simp_all add: list_all_iff)
  then have whole: "takeWhile is_digit (numeral_of z n @ CHR ''.'' # f) = numeral_of z n"
    "dropWhile is_digit (numeral_of z n @ CHR ''.'' # f) = CHR ''.'' # f"
    by (simp_all add: takeWhile_append dropWhile_append)
  have fraction: "takeWhile is_digit f = f" "dropWhile is_digit f = []" using all(2) by simp_all
  show ?thesis
    by (simp add: c_strtod_def Let_def whole fraction digits_value_append numeral_digits(3) exponent_part_def)
qed

text \<open>Six decimals come back when the number is below \<open>2 ^ 32\<close>.\<close>

lemma print_decimal:
  assumes f: "list_all is_digit f" "length f \<le> 6" and n: "n < 2 ^ 32"
  shows "print_lf (c_strtod (numeral_of z n @ CHR ''.'' # f)) =
    show_nat n @ ''.'' @ f @ replicate (6 - length f) (CHR ''0'')"
proof -
  let ?g = "f @ replicate (6 - length f) (CHR ''0'')" and ?m = "n * 10 ^ length f + digits_value f"
  let ?M = "n * 10 ^ 6 + digits_value ?g"
  have g: "list_all is_digit ?g" "length ?g = 6" using f by (auto simp: list_all_iff)
  then have less: "digits_value ?g < 10 ^ 6" using digits_value_less [of ?g] by simp
  have six: "(10 :: nat) ^ 6 = 10 ^ length f * 10 ^ (6 - length f)" using f(2) by (simp flip: power_add)
  have M: "?M * 10 ^ length f = ?m * 10 ^ 6"
    unfolding six by (simp add: digits_value_append algebra_simps)
  have parts: "?M div 10 ^ 6 = n" "?M mod 10 ^ 6 = digits_value ?g" using less by simp_all
  have pad: "pad_zero 6 (show_nat (digits_value ?g)) = ?g" using pad_zero_digits [OF g(1)] g(2) by force
  have "print_lf (binary64_of_ratio ?m (10 ^ length f)) =
      show_nat (?M div 10 ^ 6) @ ''.'' @ pad_zero 6 (show_nat (?M mod 10 ^ 6))"
  proof (cases "?M = 0")
    case True
    then have "?m = 0" using M by simp
    then show ?thesis unfolding True by (simp add: binary64_of_ratio_def print_lf_def b64_negative_def b64_exponent_def
        b64_fraction_def b64_significand_def b64_unit_def round_half_even_def)
  next
    case False
    have "?M < 2 ^ 52" using n less by simp
    with False show ?thesis by (intro print_binary64 [OF M]) simp_all
  qed
  then show ?thesis unfolding strtod_decimal [OF f(1)] parts pad by simp
qed

end
