(* ===== verification/Literal_Properties.thy ===== *)
theory Literal_Properties
  imports Compiler_Properties Decimals
begin

text \<open>
  The properties of literals: the numbers a source writes and the values and texts they become.
\<close>

text \<open>A numeral is a word of digits.\<close>

lemma digits_numeral: "digits (numeral_of z n)"
  using numeral_digits [of z n] by (simp add: digits_def)

text \<open>C21: The value of an integer literal is its number, leading zeros or not, up to the largest \<open>long long\<close>, and that
  one for everything above it; printing the value writes the number back.\<close>

theorem integer_literals:
  assumes "source_ok p s" and "token_stream 1 0 s = Some (tokens @ [eof])"
    and "token_words s tokens = [(numeral_of z n, TOKEN_LIT_INT)]"
    and "compiler_lexer c = Some (lexer_init p)" and "grants_nodes (memory w)"
  shows "\<exists>a v c' w'. parse_program c w = Inr (AST_NODE_EXPRESSION a
        (AST_EXPR_VALUE make_skard_type_int (make_value_int v)) 0 0, c', w') \<and> errors w' = errors w
    \<and> sint v = int (min n (2 ^ 63 - 1)) \<and> print_value (make_value_int v) = show_nat (min n (2 ^ 63 - 1))"
proof -
  have "grammatical (Int_literal (numeral_of z n))" "token_words s tokens = spelling (Int_literal (numeral_of z n))"
    using digits_numeral assms(3) by simp_all
  then obtain node c' w' where "parse_program c w = Inr (node, c', w')" "is_tree (Int_literal (numeral_of z n)) node"
    "quiet c w c' w'" by (rule parse_program_spelled [OF _ assms(1,2) _ assms(4,5)])
  then show ?thesis
    by (auto simp: strtoll_numeral sint_saturate64 print_saturate64 print_value_def make_value_int_def quiet_def)
qed

text \<open>The sources \<open>007\<close> and \<open>9223372036854775808\<close>.\<close>

theorem integer_literals_witness:
  "(\<exists>a v c w. parse_program (sample_compiler (''007'' @ [NUL])) sample_process = Inr (AST_NODE_EXPRESSION a
        (AST_EXPR_VALUE make_skard_type_int (make_value_int v)) 0 0, c, w) \<and> sint v = 7)
    \<and> (\<exists>a v c w. parse_program (sample_compiler (''9223372036854775808'' @ [NUL])) sample_process = Inr (AST_NODE_EXPRESSION a
        (AST_EXPR_VALUE make_skard_type_int (make_value_int v)) 0 0, c, w) \<and> sint v = 2 ^ 63 - 1)"
proof -
  have one: "\<exists>a v c w. parse_program (sample_compiler (i @ [NUL])) sample_process = Inr (AST_NODE_EXPRESSION a
        (AST_EXPR_VALUE make_skard_type_int (make_value_int v)) 0 0, c, w) \<and> sint v = int (min n (2 ^ 63 - 1))"
    if i: "i = numeral_of z n" and words: "sample_words (i @ [NUL]) = Some [(i, TOKEN_LIT_INT)]"
      and source: "source_ok (text_block (i @ [NUL])) (i @ [NUL])" for i z n
  proof -
    from words obtain tokens eof where stream: "token_stream 1 0 (i @ [NUL]) = Some (tokens @ [eof])"
      and "token_words (i @ [NUL]) tokens = [(i, TOKEN_LIT_INT)]" by (rule sample_stream)
    then have "token_words (i @ [NUL]) tokens = [(numeral_of z n, TOKEN_LIT_INT)]" by (simp only: i)
    from integer_literals [OF source stream this, of "sample_compiler (i @ [NUL])" sample_process]
    show ?thesis by auto
  qed
  have a: "''007'' = numeral_of 2 7" by (simp add: numeral_of_def eval)
  have b: "''9223372036854775808'' = numeral_of 0 (2 ^ 63)" by (simp add: numeral_of_def eval)
  have "sample_words (''007'' @ [NUL]) = Some [(''007'', TOKEN_LIT_INT)]" by code_simp
  moreover have "source_ok (text_block (''007'' @ [NUL])) (''007'' @ [NUL])"
    by (rule sample_source) (simp_all add: terminated_Cons)
  moreover have "sample_words (''9223372036854775808'' @ [NUL]) = Some [(''9223372036854775808'', TOKEN_LIT_INT)]" by code_simp
  moreover have "source_ok (text_block (''9223372036854775808'' @ [NUL])) (''9223372036854775808'' @ [NUL])"
    by (rule sample_source) (simp_all add: terminated_Cons)
  ultimately show ?thesis using one [OF a] one [OF b] by simp
qed


text \<open>C19: A real literal below \<open>2 ^ 32\<close> with at most six decimals is printed as it is written, without leading zeros and
  with zeros up to the sixth decimal: the binary value it becomes is close enough.\<close>

theorem real_literals:
  assumes "source_ok p s" and "token_stream 1 0 s = Some (tokens @ [eof])"
    and "token_words s tokens = [(numeral_of z n @ CHR ''.'' # f, TOKEN_LIT_REAL)]"
    and "list_all is_digit f" and "length f \<le> 6" and "n < 2 ^ 32"
    and "compiler_lexer c = Some (lexer_init p)" and "grants_nodes (memory w)"
  shows "\<exists>a r c' w'. parse_program c w = Inr (AST_NODE_EXPRESSION a
        (AST_EXPR_VALUE make_skard_type_real (make_value_real r)) 0 0, c', w') \<and> errors w' = errors w
    \<and> print_value (make_value_real r) = show_nat n @ ''.'' @ f @ replicate (6 - length f) (CHR ''0'')"
proof -
  have "grammatical (Real_literal (numeral_of z n) f)" "token_words s tokens = spelling (Real_literal (numeral_of z n) f)"
    using digits_numeral assms(3,4) by simp_all
  then obtain node c' w' where "parse_program c w = Inr (node, c', w')" "is_tree (Real_literal (numeral_of z n) f) node"
    "quiet c w c' w'" by (rule parse_program_spelled [OF _ assms(1,2) _ assms(7,8)])
  with print_decimal [OF assms(4-6)] show ?thesis
    by (auto simp: print_value_def make_value_real_def quiet_def)
qed

text \<open>The source \<open>0042.17\<close>.\<close>

theorem real_literals_witness:
  "\<exists>a r c w. parse_program (sample_compiler (''0042.17'' @ [NUL])) sample_process = Inr (AST_NODE_EXPRESSION a
        (AST_EXPR_VALUE make_skard_type_real (make_value_real r)) 0 0, c, w)
    \<and> print_value (make_value_real r) = ''42.170000''"
proof -
  have number: "''0042.17'' = numeral_of 2 42 @ CHR ''.'' # ''17''" by (simp add: numeral_of_def eval)
  have "sample_words (''0042.17'' @ [NUL]) = Some [(''0042.17'', TOKEN_LIT_REAL)]" by code_simp
  then obtain tokens eof where stream: "token_stream 1 0 (''0042.17'' @ [NUL]) = Some (tokens @ [eof])"
    and "token_words (''0042.17'' @ [NUL]) tokens = [(''0042.17'', TOKEN_LIT_REAL)]" by (rule sample_stream)
  then have words: "token_words (''0042.17'' @ [NUL]) tokens = [(numeral_of 2 42 @ CHR ''.'' # ''17'', TOKEN_LIT_REAL)]"
    by (simp only: number)
  have source: "source_ok (text_block (''0042.17'' @ [NUL])) (''0042.17'' @ [NUL])"
    by (rule sample_source) (simp_all add: terminated_Cons)
  have shown: "show_nat 42 @ ''.'' @ ''17'' @ replicate (6 - length ''17'') (CHR ''0'') = ''42.170000''"
    by (simp add: eval)
  have "list_all is_digit ''17''" "length ''17'' \<le> 6" "(42 :: nat) < 2 ^ 32" by (simp_all add: is_digit_def less_eq_char_def)
  from real_literals [OF source stream words this sample_simps(1,4)] show ?thesis
    unfolding shown by (elim exE conjE) (intro exI conjI)
qed

end
